(* ===== verification/Dcfs_Prelude.thy ===== *)
theory Dcfs_Prelude
  imports Main "HOL-Library.Word"
begin

text \<open>
  Shared vocabulary of the DataCapsule file system development.

  \<^item> \<open>outcome\<close>: what one call of the C++ program does. It returns, or it stops in one of
    the ways C++ code can stop without returning: a failed \<open>assert\<close>, undefined
    behaviour (a copy outside a buffer, a null pointer), an exception nobody catches, a
    wait that nobody ends, or a call of \<open>exit(1)\<close>. \<open>bindO\<close> sequences two calls.
  \<^item> \<open>memcpy\<close>, \<open>cread\<close>, \<open>vec_at\<close>, \<open>vec_set\<close>: the memory accesses of the source, each with
    its bounds check written out.
  \<^item> \<open>u64\<close>: the type \<open>uint64_t\<close>, a 64-bit word with wrap-around; \<open>le_bytes\<close> and
    \<open>le_nat\<close>: its object representation on a little-endian machine, which the source copies
    with \<open>memcpy\<close> in and out of inode records.
  \<^item> the error codes of \<open>errno.hpp\<close> and the constants of \<open>const.hpp\<close> and \<open>backend.hpp\<close>.

  A C++ \<open>std::string\<close> and a \<open>char\<close> buffer are both a \<open>string\<close>: a HOL \<open>char\<close> is one byte.
\<close>

named_theorems outcome_simps \<open>inversion of sequenced calls\<close>

section \<open>Outcomes\<close>

datatype fault =
    Assertion_failed
  | Undefined_behaviour
  | Uncaught_exception
  | Blocked_forever
  | Exit_failure

datatype 'a outcome = Ret 'a | Fault fault

primrec bindO :: "'a outcome \<Rightarrow> ('a \<Rightarrow> 'b outcome) \<Rightarrow> 'b outcome" where
  "bindO (Ret x) f = f x"
| "bindO (Fault e) f = Fault e"

definition assertO :: "bool \<Rightarrow> unit outcome" where
  "assertO b = (if b then Ret () else Fault Assertion_failed)"

definition validO :: "bool \<Rightarrow> unit outcome" where
  "validO b = (if b then Ret () else Fault Undefined_behaviour)"

text \<open>A loop that calls \<open>f\<close> on every element and collects the results.\<close>

fun mapO :: "('a \<Rightarrow> 'b outcome) \<Rightarrow> 'a list \<Rightarrow> 'b list outcome" where
  "mapO f [] = Ret []"
| "mapO f (x # xs) = bindO (f x) (\<lambda>y. bindO (mapO f xs) (\<lambda>ys. Ret (y # ys)))"

type_synonym u64 = "64 word"

type_synonym err_t = int

abbreviation (input) NO_ERR :: err_t where "NO_ERR \<equiv> 0"
abbreviation (input) ERR_NOT_FOUND :: err_t where "ERR_NOT_FOUND \<equiv> -1"
abbreviation (input) ERR_NO_SPACE :: err_t where "ERR_NO_SPACE \<equiv> -2"
abbreviation (input) ERR_NO_CONN :: err_t where "ERR_NO_CONN \<equiv> -3"
abbreviation (input) ERR_HASH :: err_t where "ERR_HASH \<equiv> -4"
abbreviation (input) ERR_IO :: err_t where "ERR_IO \<equiv> -5"
abbreviation (input) ERR_BUF_TOO_SMALL :: err_t where "ERR_BUF_TOO_SMALL \<equiv> -6"
abbreviation (input) ERR_VERIFY :: err_t where "ERR_VERIFY \<equiv> -7"
abbreviation (input) ERR_CRYPTO :: err_t where "ERR_CRYPTO \<equiv> -8"
abbreviation (input) ERR_SIGN :: err_t where "ERR_SIGN \<equiv> -9"

abbreviation (input) HASHLEN_IN_BYTES :: nat where "HASHLEN_IN_BYTES \<equiv> 32"
abbreviation (input) AES_KEY_LEN :: nat where "AES_KEY_LEN \<equiv> 16"
abbreviation (input) AES_PAD_LEN :: nat where "AES_PAD_LEN \<equiv> 16"
abbreviation (input) DEFAULT_BLOCK_SIZE :: nat where "DEFAULT_BLOCK_SIZE \<equiv> 16 * 1024"
abbreviation (input) BLOCKMAP_COVER :: nat where "BLOCKMAP_COVER \<equiv> 512"
abbreviation (input) FD_TABLE_MAX :: nat where "FD_TABLE_MAX \<equiv> 256"
abbreviation (input) RECORD_HEADER_SIZE :: nat where "RECORD_HEADER_SIZE \<equiv> 256"
abbreviation (input) SPARE_HASH_SPACE :: nat where "SPARE_HASH_SPACE \<equiv> 320"
abbreviation (input) MAX_INODE_RECORD_SIZE :: nat where "MAX_INODE_RECORD_SIZE \<equiv> 1024"
abbreviation (input) MAX_BLOCKMAP_RECORD_SIZE :: nat where
  "MAX_BLOCKMAP_RECORD_SIZE \<equiv> 1024 + 32 * BLOCKMAP_COVER"
abbreviation (input) INODE_AES_KEY_OFFSET :: nat where "INODE_AES_KEY_OFFSET \<equiv> 8"
abbreviation (input) INODE_PAYLOAD_SIZE :: nat where "INODE_PAYLOAD_SIZE \<equiv> 40"

abbreviation (input) NUL :: char where "NUL \<equiv> CHR 0x00"

section \<open>Memory accesses\<close>

text \<open>\<open>n\<close> bytes of the buffer \<open>b\<close> from position \<open>j\<close> on.\<close>

definition cread :: "string \<Rightarrow> nat \<Rightarrow> nat \<Rightarrow> string outcome" where
  "cread b j n = (if j + n \<le> length b then Ret (take n (drop j b)) else Fault Undefined_behaviour)"

text \<open>\<open>memcpy(dst + k, src + j, n)\<close>, as the new contents of \<open>dst\<close>.\<close>

definition memcpy :: "string \<Rightarrow> nat \<Rightarrow> string \<Rightarrow> nat \<Rightarrow> nat \<Rightarrow> string outcome" where
  "memcpy dst k src j n =
     (if k + n \<le> length dst \<and> j + n \<le> length src
      then Ret (take k dst @ take n (drop j src) @ drop (k + n) dst)
      else Fault Undefined_behaviour)"

text \<open>A \<open>std::string\<close> read through \<open>c_str()\<close> or \<open>data()\<close> is followed by a zero byte.\<close>

definition c_str :: "string \<Rightarrow> string" where
  "c_str s = s @ [NUL]"

definition vec_at :: "'a list \<Rightarrow> nat \<Rightarrow> 'a outcome" where
  "vec_at xs i = (if i < length xs then Ret (xs ! i) else Fault Undefined_behaviour)"

definition vec_set :: "'a list \<Rightarrow> nat \<Rightarrow> 'a \<Rightarrow> 'a list outcome" where
  "vec_set xs i v = (if i < length xs then Ret (xs[i := v]) else Fault Undefined_behaviour)"

text \<open>A pointer that must not be null.\<close>

definition deref :: "'a option \<Rightarrow> 'a outcome" where
  "deref p = (case p of None \<Rightarrow> Fault Undefined_behaviour | Some x \<Rightarrow> Ret x)"

text \<open>C's \<open>strcmp(a, b) == 0\<close> on the bytes at \<open>a\<close> and \<open>b\<close>: equal up to the first zero byte.\<close>

definition strcmp_eq :: "string \<Rightarrow> string \<Rightarrow> bool" where
  "strcmp_eq a b \<longleftrightarrow> takeWhile (\<lambda>c. c \<noteq> NUL) a = takeWhile (\<lambda>c. c \<noteq> NUL) b"

section \<open>Object representation of integers\<close>

fun le_bytes :: "nat \<Rightarrow> nat \<Rightarrow> string" where
  "le_bytes 0 n = []"
| "le_bytes (Suc k) n = char_of n # le_bytes k (n div 256)"

fun le_nat :: "string \<Rightarrow> nat" where
  "le_nat [] = 0"
| "le_nat (c # cs) = of_char c + 256 * le_nat cs"

definition u64_bytes :: "u64 \<Rightarrow> string" where
  "u64_bytes w = le_bytes 8 (unat w)"

definition bytes_u64 :: "string \<Rightarrow> u64" where
  "bytes_u64 s = of_nat (le_nat s)"

section \<open>Lemmas on outcomes\<close>

lemma bindO_Ret_iff [outcome_simps]:
  "bindO m f = Ret y \<longleftrightarrow> (\<exists>x. m = Ret x \<and> f x = Ret y)"
  by (cases m) auto

lemma bindO_RetE:
  assumes "bindO m f = Ret y"
  obtains x where "m = Ret x" and "f x = Ret y"
  using assms by (auto simp: outcome_simps)

lemma bindO_assoc: "bindO (bindO m f) g = bindO m (\<lambda>x. bindO (f x) g)"
  by (cases m) simp_all

lemma bindO_cong [fundef_cong]:
  "m = m' \<Longrightarrow> (\<And>x. m' = Ret x \<Longrightarrow> f x = f' x) \<Longrightarrow> bindO m f = bindO m' f'"
  by (cases m') simp_all

lemma mapO_Ret_iff [outcome_simps]: "mapO f xs = Ret ys \<longleftrightarrow> list_all2 (\<lambda>x y. f x = Ret y) xs ys"
  by (induction xs arbitrary: ys) (auto simp: bindO_Ret_iff list_all2_Cons1)

lemma bindO_if_distrib: "bindO (if b then m else n) f = (if b then bindO m f else bindO n f)"
  by simp

lemma assertO_True [simp]: "assertO True = Ret ()"
  and assertO_False [simp]: "assertO False = Fault Assertion_failed"
  by (simp_all add: assertO_def)

lemma validO_True [simp]: "validO True = Ret ()"
  and validO_False [simp]: "validO False = Fault Undefined_behaviour"
  by (simp_all add: validO_def)

lemma assertO_Ret_iff [outcome_simps]: "assertO b = Ret u \<longleftrightarrow> b"
  by (simp add: assertO_def)

lemma validO_Ret_iff [outcome_simps]: "validO b = Ret u \<longleftrightarrow> b"
  by (simp add: validO_def)

lemma cread_Ret_iff [outcome_simps]:
  "cread b j n = Ret s \<longleftrightarrow> j + n \<le> length b \<and> s = take n (drop j b)"
  by (auto simp: cread_def)

lemma vec_at_Ret_iff [outcome_simps]: "vec_at xs i = Ret x \<longleftrightarrow> i < length xs \<and> x = xs ! i"
  by (auto simp: vec_at_def)

lemma vec_set_Ret_iff [outcome_simps]: "vec_set xs i v = Ret ys \<longleftrightarrow> i < length xs \<and> ys = xs[i := v]"
  by (auto simp: vec_set_def)

lemma deref_Ret_iff [outcome_simps]: "deref p = Ret x \<longleftrightarrow> p = Some x"
  by (auto simp: deref_def split: option.splits)

lemma deref_Some [simp]: "deref (Some x) = Ret x"
  and deref_None [simp]: "deref None = Fault Undefined_behaviour"
  by (simp_all add: deref_def)

section \<open>Lemmas on memory\<close>

lemma memcpy_length: "memcpy dst k src j n = Ret dst' \<Longrightarrow> length dst' = length dst"
  by (auto simp: memcpy_def split: if_splits)

lemma memcpy_ok:
  "k + n \<le> length dst \<Longrightarrow> j + n \<le> length src \<Longrightarrow>
   memcpy dst k src j n = Ret (take k dst @ take n (drop j src) @ drop (k + n) dst)"
  by (simp add: memcpy_def)

lemma memcpy_nth:
  assumes "memcpy dst k src j n = Ret dst'" and "i < length dst"
  shows "dst' ! i = (if k \<le> i \<and> i < k + n then src ! (j + (i - k)) else dst ! i)"
proof -
  from assms have b: "k + n \<le> length dst" "j + n \<le> length src"
    and d: "dst' = take k dst @ take n (drop j src) @ drop (k + n) dst"
    by (auto simp: memcpy_def split: if_splits)
  consider "i < k" | "k \<le> i" "i < k + n" | "k + n \<le> i" by linarith
  then show ?thesis
  proof cases
    case 1
    with b show ?thesis by (simp add: d nth_append)
  next
    case 2
    with b have "i - k < n" by linarith
    with 2 b show ?thesis by (simp add: d nth_append)
  next
    case 3
    with b assms(2) have "\<not> i - k < n" by linarith
    with 3 b assms(2) show ?thesis by (simp add: d nth_append)
  qed
qed

lemma cread_all: "cread b 0 (length b) = Ret b"
  by (simp add: cread_def)

lemma length_c_str [simp]: "length (c_str s) = Suc (length s)"
  by (simp add: c_str_def)

lemma cread_c_str: "j + n \<le> length s \<Longrightarrow> cread (c_str s) j n = Ret (take n (drop j s))"
  by (simp add: cread_def c_str_def)

section \<open>Lemmas on object representations\<close>

lemma length_le_bytes [simp]: "length (le_bytes k n) = k"
  by (induction k arbitrary: n) simp_all

lemma le_nat_le_bytes: "le_nat (le_bytes k n) = n mod 256 ^ k"
proof (induction k arbitrary: n)
  case 0
  show ?case by simp
next
  case (Suc k)
  have "n mod (256 * 256 ^ k) = 256 * (n div 256 mod 256 ^ k) + n mod 256"
    by (rule mod_mult2_eq)
  with Suc show ?case by simp
qed

lemma length_u64_bytes [simp]: "length (u64_bytes w) = 8"
  by (simp add: u64_bytes_def del: le_bytes.simps)

lemma u64_round_trip [simp]: "bytes_u64 (u64_bytes w) = w"
proof -
  have "unat w < 2 ^ 64"
    using unsigned_less [of w] by simp
  then have "unat w mod 256 ^ 8 = unat w" by simp
  then show ?thesis
    by (simp add: bytes_u64_def u64_bytes_def le_nat_le_bytes del: le_bytes.simps)
qed

lemma strcmp_eq_refl [simp]: "strcmp_eq a a"
  by (simp add: strcmp_eq_def)

end
