(* ===== verification/Encode.thy ===== *)
theory Encode
  imports Dcfs_Prelude
begin

text \<open>
  Hexadecimal names: \<open>src/src/util/encode.cpp\<close>. The simulated server names files by the
  hexadecimal form of record names, and every log line prints names this way. What the
  other components need is that the encoding is injective, has two characters per byte
  and never produces a path separator.
\<close>

section \<open>Definitions\<close>

text \<open>\<open>snprintf(buf, 3, "%02x", (unsigned char)data[i])\<close>.\<close>

definition hex_digit :: "nat \<Rightarrow> char" where
  "hex_digit n = ''0123456789abcdef'' ! n"

definition hex_byte :: "char \<Rightarrow> string" where
  "hex_byte c = [hex_digit (of_char c div 16), hex_digit (of_char c mod 16)]"

definition hex_encode :: "string \<Rightarrow> string" where
  "hex_encode s = concat (map hex_byte s)"

text \<open>The loop of \<open>binary_to_hex_string(data, len)\<close> over the \<open>len\<close> bytes at \<open>data\<close>.\<close>

definition binary_to_hex_string :: "string \<Rightarrow> nat \<Rightarrow> string outcome" where
  "binary_to_hex_string data len = bindO (cread data 0 len) (\<lambda>bs. Ret (hex_encode bs))"

text \<open>
  \<open>strtol(s, NULL, 16)\<close> of the C library, for strings too short to overflow a \<open>long\<close>:
  leading white space, a sign, an optional \<open>0x\<close>, then the longest run of digits.
\<close>

definition isspace :: "char \<Rightarrow> bool" where
  "isspace c \<longleftrightarrow> (of_char c :: nat) = 32 \<or> (9 \<le> (of_char c :: nat) \<and> (of_char c :: nat) \<le> 13)"

definition xdigit_val :: "char \<Rightarrow> nat option" where
  "xdigit_val c =
     (let n = of_char c :: nat in
      if 48 \<le> n \<and> n \<le> 57 then Some (n - 48)
      else if 97 \<le> n \<and> n \<le> 102 then Some (n - 87)
      else if 65 \<le> n \<and> n \<le> 70 then Some (n - 55)
      else None)"

fun xdigits :: "nat \<Rightarrow> string \<Rightarrow> nat" where
  "xdigits acc [] = acc"
| "xdigits acc (c # cs) = (case xdigit_val c of None \<Rightarrow> acc | Some d \<Rightarrow> xdigits (16 * acc + d) cs)"

definition skip_0x :: "string \<Rightarrow> string" where
  "skip_0x s = (case s of
       a # b # c # cs \<Rightarrow>
         if a = CHR ''0'' \<and> (b = CHR ''x'' \<or> b = CHR ''X'') \<and> xdigit_val c \<noteq> None then c # cs else s
     | _ \<Rightarrow> s)"

definition strtol16 :: "string \<Rightarrow> int" where
  "strtol16 s = (case dropWhile isspace (takeWhile (\<lambda>c. c \<noteq> NUL) s) of
       [] \<Rightarrow> 0
     | c # cs \<Rightarrow>
         if c = CHR ''-'' then - int (xdigits 0 (skip_0x cs))
         else if c = CHR ''+'' then int (xdigits 0 (skip_0x cs))
         else int (xdigits 0 (skip_0x (c # cs))))"

text \<open>
  \<open>hex_string_to_binary\<close>: two characters at a time (the last substring may have one), each
  pair converted by \<open>strtol\<close> and cut to a \<open>char\<close>.
\<close>

fun hex_string_to_binary :: "string \<Rightarrow> string" where
  "hex_string_to_binary [] = []"
| "hex_string_to_binary [a] = [char_of (nat (strtol16 [a] mod 256))]"
| "hex_string_to_binary (a # b # s) = char_of (nat (strtol16 [a, b] mod 256)) # hex_string_to_binary s"

section \<open>Single digits\<close>

lemma less16_cases:
  fixes n :: nat
  assumes "n < 16"
  shows "n \<in> set [0, 1, 2, 3, 4, 5, 6, 7, 8, 9, 10, 11, 12, 13, 14, 15]"
  using assms by simp arith

lemma hex_digit_props:
  assumes "n < 16"
  shows "xdigit_val (hex_digit n) = Some n"
    and "\<not> isspace (hex_digit n)"
    and "hex_digit n \<noteq> CHR ''-''" and "hex_digit n \<noteq> CHR ''+''"
    and "hex_digit n \<noteq> CHR ''/''" and "hex_digit n \<noteq> NUL"
proof -
  have *: "\<forall>n \<in> set [0, 1, 2, 3, 4, 5, 6, 7, 8, 9, 10, 11, 12, 13, 14, 15 :: nat].
      xdigit_val (hex_digit n) = Some n \<and> \<not> isspace (hex_digit n) \<and> hex_digit n \<noteq> CHR ''-''
      \<and> hex_digit n \<noteq> CHR ''+'' \<and> hex_digit n \<noteq> CHR ''/'' \<and> hex_digit n \<noteq> NUL"
    by code_simp
  note n = bspec [OF * less16_cases [OF assms]]
  show "xdigit_val (hex_digit n) = Some n" "\<not> isspace (hex_digit n)"
    "hex_digit n \<noteq> CHR ''-''" "hex_digit n \<noteq> CHR ''+''"
    "hex_digit n \<noteq> CHR ''/''" "hex_digit n \<noteq> NUL"
    using n by blast+
qed

lemma hex_digit_inj: "m < 16 \<Longrightarrow> n < 16 \<Longrightarrow> hex_digit m = hex_digit n \<Longrightarrow> m = n"
  by (metis hex_digit_props(1) option.inject)

lemma nibbles: "(of_char c :: nat) div 16 < 16" "(of_char c :: nat) mod 16 < 16"
  using nat_of_char_less_256 [of c] by linarith simp

lemma strtol16_hex_byte: "strtol16 (hex_byte c) = int (of_char c)"
proof -
  let ?h = "of_char c div 16 :: nat" and ?l = "of_char c mod 16 :: nat"
  note h = hex_digit_props [OF nibbles(1) [of c]] and l = hex_digit_props [OF nibbles(2) [of c]]
  have "16 * ?h + ?l = of_char c" by (rule mult_div_mod_eq)
  then show ?thesis
    by (simp add: strtol16_def hex_byte_def skip_0x_def h l)
qed

section \<open>Encoding\<close>

lemma length_hex_encode: "length (hex_encode s) = 2 * length s"
  by (induction s) (simp_all add: hex_encode_def hex_byte_def)

lemma hex_encode_Cons: "hex_encode (c # s) = hex_byte c @ hex_encode s"
  by (simp add: hex_encode_def)

lemma hex_encode_no_slash: "CHR ''/'' \<notin> set (hex_encode s)"
proof (induction s)
  case Nil
  show ?case by (simp add: hex_encode_def)
next
  case (Cons c s)
  have "CHR ''/'' \<notin> set (hex_byte c)"
    using hex_digit_props(5) [OF nibbles(1)] hex_digit_props(5) [OF nibbles(2)]
    by (simp add: hex_byte_def) metis
  with Cons show ?case by (simp add: hex_encode_Cons)
qed

lemma binary_to_hex_string_c_str [simp]:
  "binary_to_hex_string (c_str s) (length s) = Ret (hex_encode s)"
  by (simp add: binary_to_hex_string_def cread_c_str)

lemma hex_decode_encode: "hex_string_to_binary (hex_encode s) = s"
proof (induction s)
  case Nil
  show ?case by (simp add: hex_encode_def)
next
  case (Cons c s)
  obtain a b where ab: "hex_byte c = [a, b]" by (simp add: hex_byte_def)
  have "strtol16 [a, b] = int (of_char c)"
    using strtol16_hex_byte [of c] ab by simp
  then have "char_of (nat (strtol16 [a, b] mod 256)) = c"
    by (simp add: nat_mod_distrib)
  with Cons ab show ?case by (simp add: hex_encode_Cons)
qed

lemma hex_encode_inj: "hex_encode s = hex_encode t \<longleftrightarrow> s = t"
  by (metis hex_decode_encode)

section \<open>Properties\<close>

text \<open>
  C24. Decoding the hexadecimal form of any byte string gives the string back, and the form
  has two characters per byte, none of which is a path separator. The encoder is total on
  the bytes of a \<open>std::string\<close>: it never reads outside the buffer it is given.
\<close>

theorem hex_round_trip:
  "binary_to_hex_string (c_str s) (length s) = Ret (hex_encode s) \<and>
   hex_string_to_binary (hex_encode s) = s \<and>
   length (hex_encode s) = 2 * length s \<and> CHR ''/'' \<notin> set (hex_encode s)"
  by (simp add: hex_decode_encode length_hex_encode hex_encode_no_slash)

end
