(* ===== verification/Crypto.thy ===== *)
theory Crypto
  imports Dcfs_Prelude
begin

text \<open>
  The cryptographic helpers of \<open>src/src/util/crypto.cpp\<close>. OpenSSL itself is a parameter,
  the record \<open>openssl\<close>: one field per library call the helpers make. What the rest of the
  program relies on is stated as named predicates over that record (\<open>sha_ok\<close>, \<open>ecdsa_ok\<close>,
  \<open>aes_ok\<close>, \<open>rand_ok\<close>), each the documented behaviour of the calls: SHA-256 gives 32 bytes, a
  signature verifies under the key that made it, AES-128-CBC with the standard padding deciphers
  what it enciphered and pads to the next multiple of 16, and a successful \<open>RAND_bytes\<close> fills the
  buffer. \<open>sample_openssl\<close> is a concrete record that satisfies all of them, used to show that the
  predicates can hold.
\<close>

section \<open>Definitions\<close>

text \<open>
  The encryption flag of \<open>EVP_CipherInit_ex\<close> is the first argument of the two cipher calls;
  the key and the initialisation vector (absent where the program passes \<open>NULL\<close>) follow, and
  then all input given so far. Random draws and key generation are numbered by the caller;
  \<open>RAND_bytes\<close> is its return value (1 on success, 0 on failure, -1 when not supported) and the bytes.
\<close>

record openssl =
  SHA256 :: "string \<Rightarrow> string option"
  EC_KEY_new :: "nat \<Rightarrow> string option"
  EC_KEY_generate :: "string \<Rightarrow> nat \<Rightarrow> string option"
  ECDSA_sign :: "string \<Rightarrow> string \<Rightarrow> string option"
  ECDSA_verify :: "string \<Rightarrow> string \<Rightarrow> string \<Rightarrow> bool"
  CipherUpdate :: "bool \<Rightarrow> string \<Rightarrow> string option \<Rightarrow> string \<Rightarrow> string option"
  CipherFinal :: "bool \<Rightarrow> string \<Rightarrow> string option \<Rightarrow> string \<Rightarrow> string option"
  RAND_bytes :: "nat \<Rightarrow> int \<times> string"

text \<open>
  \<open>hash256(data, len, hsh)\<close>. On failure the helper executes \<open>delete[] hsh\<close>: that is right
  for the buffer it allocated itself, and undefined for a buffer of the caller, which is a
  local array at every call site that passes one.
\<close>

definition hash256 :: "openssl \<Rightarrow> string \<Rightarrow> bool \<Rightarrow> string option outcome" where
  "hash256 os data caller_buf =
     (case SHA256 os data of
        Some h \<Rightarrow> Ret (Some h)
      | None \<Rightarrow> if caller_buf then Fault Undefined_behaviour else Ret None)"

definition generate_ECDSA_key :: "openssl \<Rightarrow> nat \<Rightarrow> int \<times> string option" where
  "generate_ECDSA_key os n =
     (case EC_KEY_new os n of
        None \<Rightarrow> (-1, None)
      | Some k \<Rightarrow> (case EC_KEY_generate os k n of None \<Rightarrow> (-1, Some k) | Some k' \<Rightarrow> (0, Some k')))"

text \<open>
  \<open>sign(sig_k, data, inlen, &siglen)\<close>; \<open>no_sign\<close> is the build flag \<open>NO_SIGN\<close>. The result is
  the returned pointer: \<open>None\<close> for \<open>NULL\<close>, else the signature, whose length is \<open>*siglen\<close>.
  Signing the digest \<open>NULL\<close> that a failed \<open>hash256\<close> returned is a null dereference.
\<close>

definition sign :: "openssl \<Rightarrow> bool \<Rightarrow> string option \<Rightarrow> string option \<Rightarrow> string option outcome" where
  "sign os no_sign sig_k data =
     (if no_sign then Ret None
      else case sig_k of
        None \<Rightarrow> Ret None
      | Some k \<Rightarrow> bindO (deref data) (\<lambda>d. Ret (ECDSA_sign os k d)))"

definition verify :: "openssl \<Rightarrow> bool \<Rightarrow> string option \<Rightarrow> string option \<Rightarrow> string \<Rightarrow> bool outcome" where
  "verify os no_sign sig_k data sig =
     (if no_sign then Ret True
      else case sig_k of
        None \<Rightarrow> Ret False
      | Some k \<Rightarrow> bindO (deref data) (\<lambda>d. Ret (ECDSA_verify os k d sig)))"

text \<open>
  \<open>encrypt_symmetric\<close> and \<open>decrypt_symmetric\<close>: the return value, and what was written to
  \<open>outbuf\<close> (whose length is then \<open>*outlen\<close>): \<open>None\<close> when the first cipher call failed and
  neither was written, the output of the first call when the second failed.
\<close>

definition encrypt_symmetric ::
    "openssl \<Rightarrow> string \<Rightarrow> string option \<Rightarrow> string \<Rightarrow> int \<times> string option" where
  "encrypt_symmetric os key iv inbuf =
     (case CipherUpdate os True key iv inbuf of
        None \<Rightarrow> (-1, None)
      | Some out \<Rightarrow> (case CipherFinal os True key iv inbuf of
            None \<Rightarrow> (-1, Some out)
          | Some fin \<Rightarrow> (1, Some (out @ fin))))"

definition decrypt_symmetric ::
    "openssl \<Rightarrow> string \<Rightarrow> string option \<Rightarrow> string \<Rightarrow> int \<times> string option" where
  "decrypt_symmetric os key iv inbuf =
     (case CipherUpdate os False key iv inbuf of
        None \<Rightarrow> (-1, None)
      | Some out \<Rightarrow> (case CipherFinal os False key iv inbuf of
            None \<Rightarrow> (-1, Some out)
          | Some fin \<Rightarrow> (1, Some (out @ fin))))"

text \<open>
  \<open>generate_symmetric_key(key)\<close>: the return value, and the key buffer afterwards, which is as it
  was unless the library succeeded.
\<close>

definition generate_symmetric_key :: "openssl \<Rightarrow> nat \<Rightarrow> string \<Rightarrow> int \<times> string" where
  "generate_symmetric_key os n key =
     (let (rc, r) = RAND_bytes os n in (rc, if rc = 1 then r else key))"

section \<open>What the program relies on\<close>

definition sha_ok :: "openssl \<Rightarrow> bool" where
  "sha_ok os \<longleftrightarrow> (\<forall>m. \<exists>h. SHA256 os m = Some h \<and> length h = HASHLEN_IN_BYTES)"

definition ecdsa_ok :: "openssl \<Rightarrow> string \<Rightarrow> bool" where
  "ecdsa_ok os k \<longleftrightarrow> (\<forall>d. \<exists>s. ECDSA_sign os k d = Some s \<and> ECDSA_verify os k d s)"

definition pad_len :: "nat \<Rightarrow> nat" where
  "pad_len n = 16 - n mod 16"

text \<open>
  The two calls of an encryption give a text padded to the next multiple of 16, and the two calls
  of a decryption of that text, with the same key and initialisation vector, give the message
  back. Without a vector a new context has the vector of 16 zero bytes, in both directions. The
  lengths are of type \<open>int\<close>.
\<close>

definition aes_ok :: "openssl \<Rightarrow> bool" where
  "aes_ok os \<longleftrightarrow>
     (\<forall>key iv m. length key = AES_KEY_LEN \<and> (case iv of None \<Rightarrow> True | Some v \<Rightarrow> length v = 16) \<and> length m + 16 < 2 ^ 31 \<longrightarrow>
        (\<exists>u f. CipherUpdate os True key iv m = Some u \<and> CipherFinal os True key iv m = Some f \<and>
           length (u @ f) = length m + pad_len (length m) \<and>
           (\<exists>u' f'. CipherUpdate os False key iv (u @ f) = Some u' \<and> CipherFinal os False key iv (u @ f) = Some f' \<and> u' @ f' = m)))"

definition rand_ok :: "openssl \<Rightarrow> bool" where
  "rand_ok os \<longleftrightarrow> (\<forall>n. \<exists>r. RAND_bytes os n = (1, r) \<and> length r = AES_KEY_LEN)"

section \<open>A concrete library\<close>

text \<open>
  The first 31 bytes, padded, as the digest, the key and the digest as the signature, and the
  standard padding with no cipher behind it.
\<close>

definition sample_digest :: "string \<Rightarrow> string" where
  "sample_digest m = CHR ''#'' # take 31 (m @ replicate 31 CHR ''.'')"

definition sample_openssl :: openssl where
  "sample_openssl =
     \<lparr>SHA256 = (\<lambda>m. Some (sample_digest m)),
      EC_KEY_new = (\<lambda>n. Some ''new''),
      EC_KEY_generate = (\<lambda>k n. Some ''key''),
      ECDSA_sign = (\<lambda>k d. Some (k @ d)),
      ECDSA_verify = (\<lambda>k d s. s = k @ d),
      CipherUpdate = (\<lambda>enc key iv m. if enc then Some m else Some (take (length m - of_char (last m)) m)),
      CipherFinal = (\<lambda>enc key iv m.
        if enc then Some (replicate (pad_len (length m)) (char_of (pad_len (length m)))) else Some []),
      RAND_bytes = (\<lambda>n. (1, replicate 16 (char_of n)))\<rparr>"

section \<open>Lemmas\<close>

lemma pad_len_pos: "0 < pad_len n" "pad_len n \<le> 16"
  by (auto simp: pad_len_def)

lemma sha_okE:
  assumes "sha_ok os"
  obtains h where "SHA256 os m = Some h" and "length h = HASHLEN_IN_BYTES"
  using assms unfolding sha_ok_def by blast

lemma hash256_ok: "sha_ok os \<Longrightarrow> \<exists>h. hash256 os m b = Ret (Some h) \<and> length h = 32 \<and> SHA256 os m = Some h"
  by (auto simp: hash256_def elim: sha_okE [of os m])

lemma aes_okE:
  assumes "aes_ok os" and "length key = AES_KEY_LEN" and "case iv of None \<Rightarrow> True | Some v \<Rightarrow> length v = 16" and "length m + 16 < 2 ^ 31"
  obtains c where "encrypt_symmetric os key iv m = (1, Some c)"
    and "length c = length m + pad_len (length m)"
    and "decrypt_symmetric os key iv c = (1, Some m)"
proof -
  obtain u f u' f' where "CipherUpdate os True key iv m = Some u" "CipherFinal os True key iv m = Some f"
    "length (u @ f) = length m + pad_len (length m)" "CipherUpdate os False key iv (u @ f) = Some u'"
    "CipherFinal os False key iv (u @ f) = Some f'" "u' @ f' = m"
    using assms unfolding aes_ok_def by meson
  then show thesis by (intro that [of "u @ f"]) (simp_all add: encrypt_symmetric_def decrypt_symmetric_def)
qed

lemma length_sample_digest: "length (sample_digest m) = 32"
  by (simp add: sample_digest_def)

lemma sample_sha_ok: "sha_ok sample_openssl"
  by (simp add: sha_ok_def sample_openssl_def length_sample_digest)

lemma sample_ecdsa_ok: "ecdsa_ok sample_openssl k"
  by (simp add: ecdsa_ok_def sample_openssl_def)

lemma sample_rand_ok: "rand_ok sample_openssl"
  by (simp add: rand_ok_def sample_openssl_def)

lemma sample_aes_ok: "aes_ok sample_openssl"
proof -
  have "take (length (m @ p) - of_char (last (m @ p))) (m @ p) = m"
    if "p = replicate (pad_len (length m)) (char_of (pad_len (length m)))" for m p :: string
  proof -
    have "last (m @ p) = char_of (pad_len (length m))" "length p = pad_len (length m)"
      using that pad_len_pos [of "length m"] by (simp_all add: last_append)
    moreover have "of_char (char_of (pad_len (length m)) :: char) = pad_len (length m)"
      using pad_len_pos [of "length m"] by simp
    ultimately show ?thesis by simp
  qed
  then show ?thesis unfolding aes_ok_def by (simp add: sample_openssl_def)
qed

section \<open>Properties\<close>

text \<open>
  Every request a client signs is accepted: if the library's signatures verify and the
  program is built with signatures, then verifying the signature of a digest with the same
  key succeeds; and a build with \<open>NO_SIGN\<close> never produces a signature at all.
\<close>

theorem sign_then_verify:
  assumes "ecdsa_ok os k"
  shows "(\<exists>s. sign os False (Some k) (Some d) = Ret (Some s) \<and> verify os False (Some k) (Some d) s = Ret True)
         \<and> sign os True (Some k) (Some d) = Ret None"
  using assms unfolding ecdsa_ok_def sign_def verify_def by (auto dest: spec [of _ d])

theorem sign_then_verify_witness:
  "ecdsa_ok sample_openssl ''key'' \<and>
   (\<exists>s. sign sample_openssl False (Some ''key'') (Some ''d'') = Ret (Some s) \<and>
        verify sample_openssl False (Some ''key'') (Some ''d'') s = Ret True) \<and>
   sign sample_openssl True (Some ''key'') (Some ''d'') = Ret None"
  using sample_ecdsa_ok [of "''key''"] sign_then_verify [OF sample_ecdsa_ok, of "''key''" "''d''"]
  by blast

end
