(* ===== verification/Options.thy ===== *)
theory Options
  imports Dcfs_Prelude
begin

text \<open>
  The option map of \<open>src/src/util/options.cpp\<close>, the part of \<open>main\<close> in
  \<open>src/src/fs/dcfs.cpp\<close> that fills it, and the C++ library's \<open>std::to_string\<close> on
  non-negative numbers, which builds port numbers. The port constants are those of
  \<open>src/src/dc-client/dc_config.hpp\<close>.
\<close>

section \<open>Definitions\<close>

type_synonym option_map = "string \<Rightarrow> string option"

definition load_client_ip :: "option_map \<Rightarrow> string" where
  "load_client_ip m = (case m ''client_ip'' of None \<Rightarrow> '''' | Some ip \<Rightarrow> ip)"

definition load_dcserver_ip :: "option_map \<Rightarrow> string" where
  "load_dcserver_ip m = (case m ''dcserver_ip'' of None \<Rightarrow> '''' | Some ip \<Rightarrow> ip)"

text \<open>
  The options record after \<open>fuse_opt_parse\<close>; a \<open>char *\<close> option that is \<open>NULL\<close> is \<open>None\<close>.
\<close>

record dcfs_options =
  block_size_in_kb :: u64
  client_ip :: "string option"
  dcserver_ip :: "string option"
  show_help :: int

text \<open>
  The table of options for \<open>fuse_opt_parse\<close>: a template and the member it sets. \<open>show_help\<close> has no
  default in \<open>main\<close>; the options are a global, which starts as zero.
\<close>

datatype option_field = Block_size_in_kb | Client_ip | Dcserver_ip | Show_help

definition option_spec :: "(string \<times> option_field) list" where
  "option_spec =
     [(''--block_size_in_kb=%d'', Block_size_in_kb), (''--client_ip=%s'', Client_ip), (''--dcserver_ip=%s'', Dcserver_ip),
      (''-h'', Show_help), (''--help'', Show_help)]"

definition main_defaults :: dcfs_options where
  "main_defaults = \<lparr>block_size_in_kb = 16, client_ip = Some '''', dcserver_ip = Some '''', show_help = 0\<rparr>"

definition main_store_options :: "dcfs_options \<Rightarrow> option_map \<Rightarrow> option_map" where
  "main_store_options opts m =
     (let m1 = (case client_ip opts of None \<Rightarrow> m | Some ip \<Rightarrow> m(''client_ip'' \<mapsto> ip))
      in case dcserver_ip opts of None \<Rightarrow> m1 | Some ip \<Rightarrow> m1(''dcserver_ip'' \<mapsto> ip))"

definition dec_digit :: "nat \<Rightarrow> char" where
  "dec_digit n = ''0123456789'' ! n"

fun to_string :: "nat \<Rightarrow> string" where
  "to_string n = (if n < 10 then [dec_digit n] else to_string (n div 10) @ [dec_digit (n mod 10)])"

declare to_string.simps [simp del]

abbreviation (input) NET_DC_SERVER_BASE_PORT :: nat where "NET_DC_SERVER_BASE_PORT \<equiv> 4001"
abbreviation (input) NET_SERVE_PORT :: nat where "NET_SERVE_PORT \<equiv> 4300"
abbreviation (input) NET_CLIENT_RECV_ACK_PORT :: nat where "NET_CLIENT_RECV_ACK_PORT \<equiv> 5001"
abbreviation (input) NET_CLIENT_RECV_GET_RESP_PORT :: nat where "NET_CLIENT_RECV_GET_RESP_PORT \<equiv> 5101"
abbreviation (input) INIT_DC_SERVER_ID :: nat where "INIT_DC_SERVER_ID \<equiv> 101"
abbreviation (input) CLIENT_ID :: nat where "CLIENT_ID \<equiv> 0"
abbreviation (input) WRITE_THRESHOLD :: int where "WRITE_THRESHOLD \<equiv> 1"
abbreviation (input) REPLICATION_ACK :: string where "REPLICATION_ACK \<equiv> ''REPLICATION_ACK''"

section \<open>Lemmas\<close>

lemma load_after_store:
  "client_ip opts = Some a \<Longrightarrow> load_client_ip (main_store_options opts m) = a"
  "dcserver_ip opts = Some b \<Longrightarrow> load_dcserver_ip (main_store_options opts m) = b"
  by (simp_all add: load_client_ip_def load_dcserver_ip_def main_store_options_def Let_def
      split: option.splits)

lemma dec_digit_range:
  assumes "n < 10"
  shows "(of_char (dec_digit n) :: nat) = 48 + n"
proof -
  have *: "\<forall>n \<in> set [0, 1, 2, 3, 4, 5, 6, 7, 8, 9 :: nat]. (of_char (dec_digit n) :: nat) = 48 + n"
    by (simp add: dec_digit_def)
  from assms have "n \<in> set [0, 1, 2, 3, 4, 5, 6, 7, 8, 9]" by simp arith
  with * show ?thesis by blast
qed

lemma to_string_digits: "c \<in> set (to_string n) \<Longrightarrow> \<exists>d < 10. c = dec_digit d"
proof (induction n rule: to_string.induct)
  case (1 n)
  show ?case
  proof (cases "n < 10")
    case True
    with "1.prems" show ?thesis by (auto simp: to_string.simps [of n])
  next
    case False
    with "1.prems" consider "c \<in> set (to_string (n div 10))" | "c = dec_digit (n mod 10)"
      by (auto simp: to_string.simps [of n])
    then show ?thesis
    proof cases
      case 1
      with False "1.IH" show ?thesis by blast
    next
      case 2
      then show ?thesis by (auto intro: exI [of _ "n mod 10"])
    qed
  qed
qed

lemma to_string_nonempty: "to_string n \<noteq> []"
  by (subst to_string.simps) simp

lemma to_string_5001: "to_string 5001 = ''5001''"
  by (simp add: to_string.simps dec_digit_def)

end
