(* ===== verification/Capsule.thy ===== *)
theory Capsule
  imports Crypto Options
begin

text \<open>
  DataCapsule records: the messages of \<open>src/src/dc-client/proto/capsule.proto\<close>, the record
  types and buffer descriptors of \<open>src/src/fs/backend.hpp\<close>, and the environment every
  component runs in.

  The classes that \<open>protoc\<close> generates are a parameter, the record \<open>codec\<close>: serialising a
  header, serialising a PDU, and the object that \<open>ParseFromArray\<close> leaves behind (the program
  never looks at its return value). \<open>codec_ok\<close> states what the program relies on, all
  documented by the protocol buffer encoding: a message under 2 GiB whose text fields are
  ASCII parses back to itself, a message is at most its fields' bytes plus a small overhead
  long, and no bytes parse to the message with every field at its default. \<open>sample_codec\<close> is a concrete record that satisfies it.
\<close>

section \<open>Definitions\<close>

record capsule_header =
  sender :: "64 word"
  prevhash :: "string list"
  hash :: string
  timestamp :: "64 word"
  last_logical_timestamp :: "64 word"
  msgtype :: string
  msglen :: "64 word"
  replyaddr :: string
  appmeta :: string
  verified :: bool

record capsule_pdu =
  header :: capsule_header
  header_hash :: string
  signature :: string
  signature_len :: "64 word"
  payload_in_transit :: string

definition empty_header :: capsule_header where
  "empty_header = \<lparr>sender = 0, prevhash = [], hash = [], timestamp = 0, last_logical_timestamp = 0,
     msgtype = [], msglen = 0, replyaddr = [], appmeta = [], verified = False\<rparr>"

definition empty_pdu :: capsule_pdu where
  "empty_pdu = \<lparr>header = empty_header, header_hash = [], signature = [], signature_len = 0,
     payload_in_transit = []\<rparr>"

record codec =
  ser_header :: "capsule_header \<Rightarrow> string"
  ser_pdu :: "capsule_pdu \<Rightarrow> string"
  parse_pdu :: "string \<Rightarrow> capsule_pdu"

datatype record_type = META | DIRECTORY | INODE | BLOCKMAP | DATABLOCK

fun record_type_to_string :: "record_type \<Rightarrow> string" where
  "record_type_to_string META = ''META''"
| "record_type_to_string DIRECTORY = ''DIRECTORY''"
| "record_type_to_string INODE = ''INODE''"
| "record_type_to_string BLOCKMAP = ''BLOCKMAP''"
| "record_type_to_string DATABLOCK = ''DATABLOCK''"

text \<open>
  \<open>buf_desc_t\<close>: the memory at \<open>buf\<close>, the \<open>size\<close> field (the length of data in it) and the
  file offset. \<open>desc_bytes\<close> is the read of \<open>size\<close> bytes that every user of a descriptor does.
\<close>

record buf_desc_t =
  buf :: string
  desc_size :: nat
  file_offset :: u64

definition desc_bytes :: "buf_desc_t \<Rightarrow> string outcome" where
  "desc_bytes d = cread (buf d) 0 (desc_size d)"

text \<open>
  The environment: OpenSSL, the generated message classes, the option map filled by
  \<open>main\<close>, the build flag \<open>NO_SIGN\<close>, the system clock (read number \<open>n\<close>), and the contents of
  freshly allocated memory of a given size.
\<close>

record env =
  ossl :: openssl
  cdc :: codec
  option_map :: option_map
  no_sign :: bool
  clock :: "nat \<Rightarrow> 64 word"
  fresh_mem :: "nat \<Rightarrow> string"
  zmq_connects :: "string \<Rightarrow> bool"

section \<open>What the program relies on\<close>

definition ascii :: "string \<Rightarrow> bool" where
  "ascii s \<longleftrightarrow> list_all (\<lambda>c. (of_char c :: nat) < 128) s"

definition pdu_ascii :: "capsule_pdu \<Rightarrow> bool" where
  "pdu_ascii p \<longleftrightarrow> ascii (msgtype (header p)) \<and> ascii (replyaddr (header p)) \<and> ascii (appmeta (header p))"

definition pdu_bound :: "capsule_pdu \<Rightarrow> nat" where
  "pdu_bound p =
     128 + sum_list (map (\<lambda>h. 6 + length h) (prevhash (header p))) + length (hash (header p))
     + length (msgtype (header p)) + length (replyaddr (header p)) + length (appmeta (header p))
     + length (header_hash p) + length (signature p) + length (payload_in_transit p)"

definition codec_ok :: "codec \<Rightarrow> bool" where
  "codec_ok c \<longleftrightarrow>
     (\<forall>p. pdu_ascii p \<and> length (ser_pdu c p) < 2 ^ 31 \<longrightarrow> parse_pdu c (ser_pdu c p) = p) \<and>
     (\<forall>p. length (ser_pdu c p) \<le> pdu_bound p) \<and> parse_pdu c [] = empty_pdu"

definition env_ok :: "env \<Rightarrow> bool" where
  "env_ok E \<longleftrightarrow>
     codec_ok (cdc E) \<and> sha_ok (ossl E) \<and> aes_ok (ossl E) \<and> rand_ok (ossl E) \<and>
     (\<forall>n. length (fresh_mem E n) = n) \<and>
     ascii (load_client_ip (option_map E)) \<and> length (load_client_ip (option_map E)) \<le> 64"

section \<open>A concrete codec\<close>

definition put_str :: "string \<Rightarrow> string" where
  "put_str s = le_bytes 4 (length s) @ s"

definition get_str :: "string \<Rightarrow> string \<times> string" where
  "get_str s = (let n = le_nat (take 4 s); r = drop 4 s in (take n r, drop n r))"

definition put_int :: "64 word \<Rightarrow> string" where
  "put_int w = u64_bytes w"

definition get_int :: "string \<Rightarrow> 64 word \<times> string" where
  "get_int s = (bytes_u64 (take 8 s), drop 8 s)"

definition put_strs :: "string list \<Rightarrow> string" where
  "put_strs xs = le_bytes 4 (length xs) @ concat (map put_str xs)"

fun get_n_strs :: "nat \<Rightarrow> string \<Rightarrow> string list \<times> string" where
  "get_n_strs 0 s = ([], s)"
| "get_n_strs (Suc n) s =
     (let (x, r) = get_str s; (xs, r') = get_n_strs n r in (x # xs, r'))"

definition get_strs :: "string \<Rightarrow> string list \<times> string" where
  "get_strs s = get_n_strs (le_nat (take 4 s)) (drop 4 s)"

definition put_bool :: "bool \<Rightarrow> string" where
  "put_bool b = [if b then CHR 0x01 else NUL]"

definition get_bool :: "string \<Rightarrow> bool \<times> string" where
  "get_bool s = (take 1 s = [CHR 0x01], drop 1 s)"

definition sample_ser_header :: "capsule_header \<Rightarrow> string" where
  "sample_ser_header h =
     put_int (timestamp h) @ put_int (sender h) @ put_strs (prevhash h) @ put_str (hash h) @
     put_int (last_logical_timestamp h) @ put_str (msgtype h) @ put_int (msglen h) @
     put_str (replyaddr h) @ put_str (appmeta h) @ put_bool (verified h)"

definition sample_ser_pdu :: "capsule_pdu \<Rightarrow> string" where
  "sample_ser_pdu p =
     sample_ser_header (header p) @ put_str (header_hash p) @ put_str (signature p) @
     put_int (signature_len p) @ put_str (payload_in_transit p)"

definition sample_parse_pdu :: "string \<Rightarrow> capsule_pdu" where
  "sample_parse_pdu s =
     (let (a4, s) = get_int s; (a1, s) = get_int s; (a2, s) = get_strs s; (a3, s) = get_str s;
          (a5, s) = get_int s; (a6, s) = get_str s; (a7, s) = get_int s; (a8, s) = get_str s;
          (a9, s) = get_str s; (a10, s) = get_bool s;
          (b1, s) = get_str s; (b2, s) = get_str s; (b3, s) = get_int s; (b4, s) = get_str s
      in \<lparr>header = \<lparr>sender = a1, prevhash = a2, hash = a3, timestamp = a4, last_logical_timestamp = a5,
            msgtype = a6, msglen = a7, replyaddr = a8, appmeta = a9, verified = a10\<rparr>,
          header_hash = b1, signature = b2, signature_len = b3, payload_in_transit = b4\<rparr>)"

definition sample_codec :: codec where
  "sample_codec = \<lparr>ser_header = sample_ser_header, ser_pdu = sample_ser_pdu, parse_pdu = sample_parse_pdu\<rparr>"

definition sample_env :: env where
  "sample_env = \<lparr>ossl = sample_openssl, cdc = sample_codec, option_map = [''client_ip'' \<mapsto> ''10.0.0.1'', ''dcserver_ip'' \<mapsto> ''10.4.0.10:1''],
     no_sign = False, clock = of_nat, fresh_mem = (\<lambda>n. replicate n CHR ''?''), zmq_connects = (\<lambda>addr. take 6 addr = ''tcp://'')\<rparr>"

section \<open>The concrete codec is a codec\<close>

lemma get_put_int [simp]: "get_int (put_int w @ r) = (w, r)"
  by (simp add: get_int_def put_int_def)

lemma get_put_bool [simp]: "get_bool (put_bool b @ r) = (b, r)"
  by (simp add: get_bool_def put_bool_def)

lemma get_put_str [simp]: "length s < 2 ^ 31 \<Longrightarrow> get_str (put_str s @ r) = (s, r)"
  by (simp add: get_str_def put_str_def le_nat_le_bytes Let_def)

lemma get_put_strs_aux:
  "\<forall>x \<in> set xs. length x < 2 ^ 31 \<Longrightarrow> get_n_strs (length xs) (concat (map put_str xs) @ r) = (xs, r)"
  by (induction xs) simp_all

lemma get_put_strs [simp]:
  assumes "\<forall>x \<in> set xs. length x < 2 ^ 31" and "length xs < 2 ^ 31"
  shows "get_strs (put_strs xs @ r) = (xs, r)"
proof -
  have "le_nat (le_bytes 4 (length xs)) = length xs"
    using assms(2) by (simp add: le_nat_le_bytes del: le_bytes.simps)
  then show ?thesis
    using assms(1) get_put_strs_aux [of xs r]
    by (simp add: get_strs_def put_strs_def del: le_bytes.simps)
qed

lemma length_put [simp]:
  "length (put_str s) = 4 + length s" "length (put_int w) = 8" "length (put_bool b) = 1"
  by (simp_all add: put_str_def put_int_def put_bool_def)

lemma length_put_strs: "length (put_strs xs) = 4 + sum_list (map (\<lambda>h. 4 + length h) xs)"
  by (simp add: put_strs_def length_concat comp_def)

lemma length_member_le: "x \<in> set xs \<Longrightarrow> length x \<le> length (concat (map put_str xs))"
  by (induction xs) auto

lemma length_le_put_strs: "length xs \<le> length (concat (map put_str xs))"
  by (induction xs) auto

lemma sample_parse_ser:
  assumes "length (sample_ser_pdu p) < 2 ^ 31"
  shows "sample_parse_pdu (sample_ser_pdu p) = p"
proof -
  obtain h hh sg sl pl where p: "p = \<lparr>header = h, header_hash = hh, signature = sg, signature_len = sl,
      payload_in_transit = pl\<rparr>" by (cases p)
  obtain a1 a2 a3 a4 a5 a6 a7 a8 a9 a10 where h: "h = \<lparr>sender = a1, prevhash = a2, hash = a3,
      timestamp = a4, last_logical_timestamp = a5, msgtype = a6, msglen = a7, replyaddr = a8,
      appmeta = a9, verified = a10\<rparr>" by (cases h)
  have len: "length (put_strs a2) + (length a3 + length a6 + length a8 + length a9 + length hh
      + length sg + length pl) < 2 ^ 31"
    using assms by (simp add: p h sample_ser_pdu_def sample_ser_header_def)
  have strs: "length (concat (map put_str a2)) < 2 ^ 31"
    using len by (simp add: put_strs_def del: le_bytes.simps)
  have a2: "\<forall>x \<in> set a2. length x < 2 ^ 31" "length a2 < 2 ^ 31"
    using length_member_le [of _ a2] length_le_put_strs [of a2] strs by (auto intro: le_less_trans)
  have ends: "get_str (put_str pl) = (pl, [])"
    using len get_put_str [of pl "[]"] by simp
  show ?thesis
    using len a2 ends
    by (simp add: p h sample_ser_pdu_def sample_ser_header_def sample_parse_pdu_def)
qed

lemma sample_ser_bound: "length (sample_ser_pdu p) \<le> pdu_bound p"
proof -
  have "sum_list (map (\<lambda>h. 4 + length h) xs) \<le> sum_list (map (\<lambda>h. 6 + length h) (xs :: string list))" for xs
    by (induction xs) auto
  from this [of "prevhash (header p)"] show ?thesis
    by (simp add: sample_ser_pdu_def sample_ser_header_def pdu_bound_def length_put_strs)
qed

lemma sample_parse_empty: "sample_parse_pdu [] = empty_pdu"
  by (simp add: sample_parse_pdu_def get_int_def get_str_def get_strs_def get_bool_def bytes_u64_def
      empty_pdu_def empty_header_def)

lemma sample_codec_ok: "codec_ok sample_codec"
  by (simp add: codec_ok_def sample_codec_def sample_parse_ser sample_ser_bound sample_parse_empty)

lemma sample_env_ok: "env_ok sample_env"
  by (simp add: env_ok_def sample_env_def sample_codec_ok sample_sha_ok sample_aes_ok sample_rand_ok
      load_client_ip_def ascii_def)

section \<open>Using the codec\<close>

lemma parse_ser_pdu:
  "codec_ok c \<Longrightarrow> pdu_ascii p \<Longrightarrow> length (ser_pdu c p) \<le> n \<Longrightarrow> n < 2 ^ 31 \<Longrightarrow>
   parse_pdu c (ser_pdu c p) = p"
  unfolding codec_ok_def by (meson le_less_trans)

lemma ser_pdu_bound: "codec_ok c \<Longrightarrow> length (ser_pdu c p) \<le> pdu_bound p"
  unfolding codec_ok_def by blast

lemma desc_bytes_Ret_iff [outcome_simps]:
  "desc_bytes d = Ret s \<longleftrightarrow> desc_size d \<le> length (buf d) \<and> s = take (desc_size d) (buf d)"
  by (auto simp: desc_bytes_def cread_def)

lemma ascii_record_type: "ascii (record_type_to_string t)"
  by (cases t) (simp_all add: ascii_def)

lemma length_record_type: "length (record_type_to_string t) \<le> 9"
  by (cases t) simp_all

end
