(* ===== verification/Dcserver.thy ===== *)
theory Dcserver
  imports Encode Capsule
begin

text \<open>
  The record servers of \<open>src/src/fs/backend.hpp\<close>. The abstract class \<open>DCServer\<close> is the
  record \<open>dcserver\<close> of its two virtual functions over a server state; the locale
  \<open>record_store\<close> is the contract its clients rely on when the server answers: what was
  written under a name is what a read of that name returns, and no write touches another
  name. \<open>DCServerSim\<close> (\<open>src/src/fs/backend_sim.cpp\<close>), which keeps one file per record under
  a mount point, is modelled over a map from paths to file contents and interprets the
  contract.
\<close>

section \<open>The interface\<close>

text \<open>
  \<open>ReadRecord s dcname recordname n\<close> is a read into a buffer of size \<open>n\<close>: the error code, the
  bytes put at the start of the buffer (their number is \<open>*read_size\<close>) and the new state.
  \<open>WriteRecord s dcname recordname data\<close> is a write of \<open>desc->size\<close> bytes.
\<close>

record 's dcserver =
  ReadRecord :: "'s \<Rightarrow> string \<Rightarrow> string \<Rightarrow> nat \<Rightarrow> (err_t \<times> string \<times> 's) outcome"
  WriteRecord :: "'s \<Rightarrow> string \<Rightarrow> string \<Rightarrow> string \<Rightarrow> (err_t \<times> 's) outcome"

section \<open>The simulated server\<close>

text \<open>
  The file system below the mount point: directories and files, and what the operating system and
  the stream library do on it. \<open>sim_stat_throws\<close> and \<open>sim_create_throws\<close> are the paths for which
  \<open>fs::exists\<close> and \<open>fs::create_directories\<close> throw, \<open>sim_open_fails\<close> those that cannot be opened, and
  \<open>sim_io_stop\<close> says after how many bytes a transfer fails. \<open>sim_direct n\<close> says whether \<open>n\<close> bytes
  written to a stream go to the file at once; otherwise they stay in the buffer of the stream until
  its destructor writes them, which reports no error. \<open>sim_dir_stream\<close> is the size that the end of a
  directory opened as an input stream has, converted to \<open>uint64_t\<close>, if it can be opened.
\<close>

record dcserver_sim =
  mnt_point :: string
  sim_dirs :: "string set"
  sim_files :: "string \<Rightarrow> string option"
  sim_stat_throws :: "string \<Rightarrow> bool"
  sim_create_throws :: "string \<Rightarrow> bool"
  sim_open_fails :: "string \<Rightarrow> bool"
  sim_io_stop :: "string \<Rightarrow> nat option"
  sim_direct :: "nat \<Rightarrow> bool"
  sim_dir_stream :: "string \<Rightarrow> nat option"

text \<open>The constructor creates \<open>BACKEND_MNT_POINT\<close>, whatever mount point it is given.\<close>

definition DCServerSim :: "string \<Rightarrow> dcserver_sim \<Rightarrow> dcserver_sim outcome" where
  "DCServerSim mnt s =
     (if sim_create_throws s ''/tmp/dcfs'' then Fault Uncaught_exception
      else Ret (s\<lparr>mnt_point := mnt, sim_dirs := insert ''/tmp/dcfs'' (sim_dirs s)\<rparr>))"

text \<open>An empty name after a slash names the directory itself.\<close>

definition sub_path :: "string \<Rightarrow> string \<Rightarrow> string" where
  "sub_path dir name = (if name = [] then dir else dir @ ''/'' @ name)"

definition dc_path :: "dcserver_sim \<Rightarrow> string \<Rightarrow> string" where
  "dc_path s hexdc = sub_path (mnt_point s) hexdc"

definition record_path :: "dcserver_sim \<Rightarrow> string \<Rightarrow> string \<Rightarrow> string" where
  "record_path s hexdc hexrec = sub_path (dc_path s hexdc) hexrec"

text \<open>The transfer of \<open>data\<close> from or to the file at \<open>path\<close> fails.\<close>

definition transfer_stops :: "dcserver_sim \<Rightarrow> string \<Rightarrow> string \<Rightarrow> bool" where
  "transfer_stops s path data = (case sim_io_stop s path of None \<Rightarrow> False | Some k \<Rightarrow> k < length data)"

text \<open>
  \<open>DCServerSim::ReadRecord\<close>. A directory can be opened as a stream but not read. A path with an
  empty record name ends in a slash and so never names a file.
\<close>

definition DCServerSim_ReadRecord ::
    "dcserver_sim \<Rightarrow> string \<Rightarrow> string \<Rightarrow> nat \<Rightarrow> (err_t \<times> string \<times> dcserver_sim) outcome" where
  "DCServerSim_ReadRecord s dcname recordname n =
     bindO (binary_to_hex_string (c_str dcname) (length dcname)) (\<lambda>hexdc.
     bindO (binary_to_hex_string (c_str recordname) (length recordname)) (\<lambda>hexrec.
     let path = record_path s hexdc hexrec in
     if path \<in> sim_dirs s then
       (case sim_dir_stream s path of
          None \<Rightarrow> Ret (ERR_NOT_FOUND, [], s)
        | Some sz \<Rightarrow> bindO (assertO (sz \<le> n)) (\<lambda>_. Ret (if sz = 0 then NO_ERR else ERR_IO, [], s)))
     else if hexrec = [] \<or> sim_open_fails s path then Ret (ERR_NOT_FOUND, [], s)
     else case sim_files s path of
       None \<Rightarrow> Ret (ERR_NOT_FOUND, [], s)
     | Some data \<Rightarrow>
         bindO (assertO (length data \<le> n)) (\<lambda>_.
         if transfer_stops s path data then Ret (ERR_IO, [], s) else Ret (NO_ERR, data, s))))"

text \<open>
  \<open>DCServerSim::WriteRecord\<close>: the directory is created only for the record that names its
  own capsule. A file cannot be opened below a file, nor in place of a directory; opening the
  stream empties an existing file before anything is written. A transfer that fails after the
  bytes went into the buffer of the stream is not noticed.
\<close>

definition DCServerSim_WriteRecord ::
    "dcserver_sim \<Rightarrow> string \<Rightarrow> string \<Rightarrow> string \<Rightarrow> (err_t \<times> dcserver_sim) outcome" where
  "DCServerSim_WriteRecord s dcname recordname data =
     bindO (binary_to_hex_string (c_str dcname) (length dcname)) (\<lambda>hexdc.
     bindO (binary_to_hex_string (c_str recordname) (length recordname)) (\<lambda>hexrec.
     let dcpath = dc_path s hexdc;
         there = dcpath \<in> sim_dirs s \<or> sim_files s dcpath \<noteq> None in
     if sim_stat_throws s dcpath then Fault Uncaught_exception
     else if \<not> there \<and> hexdc \<noteq> hexrec then Ret (ERR_IO, s)
     else if \<not> there \<and> sim_create_throws s dcpath then Fault Uncaught_exception
     else
       let s1 = (if there then s else s\<lparr>sim_dirs := insert dcpath (insert (mnt_point s) (sim_dirs s))\<rparr>);
           path = record_path s1 hexdc hexrec in
       if hexrec = [] \<or> dcpath \<notin> sim_dirs s1 \<or> path \<in> sim_dirs s1 \<or> sim_open_fails s1 path then Ret (ERR_IO, s1)
       else if transfer_stops s1 path data
       then Ret (if sim_direct s1 (length data) then ERR_IO else NO_ERR,
                 s1\<lparr>sim_files := (sim_files s1)(path \<mapsto> take (the (sim_io_stop s1 path)) data)\<rparr>)
       else Ret (NO_ERR, s1\<lparr>sim_files := (sim_files s1)(path \<mapsto> data)\<rparr>)))"

definition sim_server :: "dcserver_sim dcserver" where
  "sim_server = \<lparr>ReadRecord = DCServerSim_ReadRecord, WriteRecord = DCServerSim_WriteRecord\<rparr>"

section \<open>Abstract view of the simulated server\<close>

text \<open>Records and capsules under non-empty names.\<close>

definition sim_lookup :: "dcserver_sim \<Rightarrow> string \<Rightarrow> string \<Rightarrow> string option" where
  "sim_lookup s dc rec = (if dc = [] \<or> rec = [] then None else sim_files s (record_path s (hex_encode dc) (hex_encode rec)))"

definition sim_known :: "dcserver_sim \<Rightarrow> string \<Rightarrow> bool" where
  "sim_known s dc \<longleftrightarrow> dc \<noteq> [] \<and> dc_path s (hex_encode dc) \<in> sim_dirs s"

text \<open>No file stands where a capsule's directory goes, and no directory where a record goes.\<close>

definition sim_tidy :: "dcserver_sim \<Rightarrow> bool" where
  "sim_tidy s \<longleftrightarrow> (\<forall>dc. sim_files s (dc_path s (hex_encode dc)) = None) \<and>
     (\<forall>dc rec. dc \<noteq> [] \<longrightarrow> rec \<noteq> [] \<longrightarrow> record_path s (hex_encode dc) (hex_encode rec) \<notin> sim_dirs s)"

text \<open>And the operating system does not fail.\<close>

definition sim_healthy :: "dcserver_sim \<Rightarrow> bool" where
  "sim_healthy s \<longleftrightarrow> (\<forall>p. \<not> sim_open_fails s p) \<and> (\<forall>p. sim_io_stop s p = None) \<and>
     (\<forall>p. \<not> sim_stat_throws s p) \<and> (\<forall>p. \<not> sim_create_throws s p) \<and> sim_tidy s"

definition sim_init :: dcserver_sim where
  "sim_init = \<lparr>mnt_point = ''/tmp/dcfs'', sim_dirs = {''/tmp/dcfs''}, sim_files = Map.empty,
     sim_stat_throws = (\<lambda>_. False), sim_create_throws = (\<lambda>_. False), sim_open_fails = (\<lambda>_. False),
     sim_io_stop = (\<lambda>_. None), sim_direct = (\<lambda>n. 1024 \<le> n), sim_dir_stream = (\<lambda>_. None)\<rparr>"

section \<open>The contract\<close>

text \<open>
  \<open>lookup s dc rec\<close> is the record a state holds, \<open>known s dc\<close> says that capsule \<open>dc\<close> exists,
  \<open>fresh s rec\<close> that the name can still be written, \<open>wvalid rec d\<close> and \<open>rvalid rec d\<close> which
  contents the server stores and returns unchanged.
\<close>

locale record_store =
  fixes srv :: "'s dcserver"
    and inv :: "'s \<Rightarrow> bool"
    and lookup :: "'s \<Rightarrow> string \<Rightarrow> string \<Rightarrow> string option"
    and known :: "'s \<Rightarrow> string \<Rightarrow> bool"
    and fresh :: "'s \<Rightarrow> string \<Rightarrow> bool"
    and wvalid :: "string \<Rightarrow> string \<Rightarrow> bool"
    and rvalid :: "string \<Rightarrow> string \<Rightarrow> bool"
  assumes write_stores:
      "inv s \<Longrightarrow> known s dc \<or> dc = rec \<Longrightarrow> fresh s rec \<Longrightarrow> wvalid rec d \<Longrightarrow>
       \<exists>s'. WriteRecord srv s dc rec d = Ret (NO_ERR, s') \<and> inv s' \<and> known s' dc \<and>
            lookup s' dc rec = Some d \<and> (\<forall>c. known s c \<longrightarrow> known s' c) \<and>
            (\<forall>c r. r \<noteq> rec \<longrightarrow> lookup s' c r = lookup s c r) \<and> (\<forall>r. r \<noteq> rec \<longrightarrow> fresh s r \<longrightarrow> fresh s' r)"
    and read_returns:
      "inv s \<Longrightarrow> lookup s dc rec = Some d \<Longrightarrow> rvalid rec d \<Longrightarrow> length d \<le> n \<Longrightarrow>
       \<exists>s'. ReadRecord srv s dc rec n = Ret (NO_ERR, d, s') \<and> inv s' \<and>
            lookup s' = lookup s \<and> known s' = known s \<and> fresh s' = fresh s"
begin

text \<open>Writing one record and reading it back, with any later write of another name in between.\<close>

lemma read_after_write:
  assumes "inv s" and "known s dc \<or> dc = rec" and "fresh s rec" and "wvalid rec d"
    and "rvalid rec d" and "length d \<le> n"
  obtains s1 s2 where "WriteRecord srv s dc rec d = Ret (NO_ERR, s1)"
    and "ReadRecord srv s1 dc rec n = Ret (NO_ERR, d, s2)" and "inv s2" and "lookup s2 = lookup s1"
proof -
  obtain s1 where w: "WriteRecord srv s dc rec d = Ret (NO_ERR, s1)" "inv s1" "lookup s1 dc rec = Some d"
    using write_stores [OF assms(1-4)] by blast
  moreover obtain s2 where "ReadRecord srv s1 dc rec n = Ret (NO_ERR, d, s2)" "inv s2" "lookup s2 = lookup s1"
    using read_returns [OF w(2,3) assms(5,6)] by blast
  ultimately show thesis using that by blast
qed

lemma read_survives_write:
  assumes "inv s" and "lookup s dc rec = Some d" and "rvalid rec d" and "length d \<le> n"
    and "known s dc' \<or> dc' = rec'" and "fresh s rec'" and "wvalid rec' d'" and "rec \<noteq> rec'"
  obtains s1 s2 where "WriteRecord srv s dc' rec' d' = Ret (NO_ERR, s1)"
    and "ReadRecord srv s1 dc rec n = Ret (NO_ERR, d, s2)"
proof -
  obtain s1 where w: "WriteRecord srv s dc' rec' d' = Ret (NO_ERR, s1)" "inv s1"
    "lookup s1 dc rec = lookup s dc rec"
    using write_stores [OF assms(1,5-7)] assms(8) by blast
  moreover obtain s2 where "ReadRecord srv s1 dc rec n = Ret (NO_ERR, d, s2)"
    using read_returns [OF w(2) _ assms(3,4)] w(3) assms(2) by metis
  ultimately show thesis using that by blast
qed

end

section \<open>The simulated server keeps the contract\<close>

lemma append_sep_inject:
  assumes "c \<notin> set a" and "c \<notin> set a'"
  shows "a @ c # b = a' @ c # b' \<longleftrightarrow> a = a' \<and> b = b'"
proof
  assume eq: "a @ c # b = a' @ c # b'"
  have tw: "takeWhile (\<lambda>x. x \<noteq> c) (l @ c # r) = l" if "c \<notin> set l" for l r
    using that by (induction l) auto
  from eq have "a = a'" using tw [OF assms(1), of b] tw [OF assms(2), of b'] by simp
  with eq show "a = a' \<and> b = b'" by simp
qed simp

lemma hex_encode_Nil_iff [simp]: "hex_encode s = [] \<longleftrightarrow> s = []"
  using length_hex_encode [of s] by (cases s) (auto simp: hex_encode_def hex_byte_def)

lemma record_path_cons:
  "dc \<noteq> [] \<Longrightarrow> rec \<noteq> [] \<Longrightarrow>
   record_path s (hex_encode dc) (hex_encode rec) = mnt_point s @ ''/'' @ hex_encode dc @ CHR ''/'' # hex_encode rec"
  by (simp add: record_path_def dc_path_def sub_path_def)

lemma record_path_inject:
  assumes "dc \<noteq> []" and "rec \<noteq> []" and "dc' \<noteq> []" and "rec' \<noteq> []"
  shows "record_path s (hex_encode dc) (hex_encode rec) = record_path s (hex_encode dc') (hex_encode rec')
   \<longleftrightarrow> dc = dc' \<and> rec = rec'"
  using assms by (simp add: record_path_cons append_sep_inject [OF hex_encode_no_slash hex_encode_no_slash] hex_encode_inj)

lemma sim_path_update [simp]:
  "record_path (s\<lparr>sim_dirs := D\<rparr>) = record_path s" "record_path (s\<lparr>sim_files := F\<rparr>) = record_path s"
  "dc_path (s\<lparr>sim_dirs := D\<rparr>) = dc_path s" "dc_path (s\<lparr>sim_files := F\<rparr>) = dc_path s"
  "transfer_stops (s\<lparr>sim_dirs := D\<rparr>) = transfer_stops s"
  by (simp_all add: record_path_def dc_path_def transfer_stops_def fun_eq_iff)

lemma dc_path_not_record_path:
  assumes "dc \<noteq> []" and "rec \<noteq> []"
  shows "dc_path s (hex_encode c) \<noteq> record_path s (hex_encode dc) (hex_encode rec)"
proof
  assume e: "dc_path s (hex_encode c) = record_path s (hex_encode dc) (hex_encode rec)"
  then have "c \<noteq> []" using record_path_cons [OF assms, of s] by (auto simp: dc_path_def sub_path_def)
  then have "hex_encode c = hex_encode dc @ CHR ''/'' # hex_encode rec"
    using e record_path_cons [OF assms, of s] by (simp add: dc_path_def sub_path_def)
  then have "CHR ''/'' \<in> set (hex_encode c)" by simp
  then show False using hex_encode_no_slash by blast
qed

lemma mnt_not_record_path:
  assumes "dc \<noteq> []" and "rec \<noteq> []"
  shows "record_path s (hex_encode dc) (hex_encode rec) \<noteq> mnt_point s"
  using record_path_cons [OF assms, of s] by auto

text \<open>The state after a complete write.\<close>

definition sim_wrote :: "dcserver_sim \<Rightarrow> string \<Rightarrow> string \<Rightarrow> string \<Rightarrow> dcserver_sim" where
  "sim_wrote s dc rec d =
     (let s1 = (if sim_known s dc then s
        else s\<lparr>sim_dirs := insert (dc_path s (hex_encode dc)) (insert (mnt_point s) (sim_dirs s))\<rparr>) in
      s1\<lparr>sim_files := (sim_files s)(record_path s (hex_encode dc) (hex_encode rec) \<mapsto> d)\<rparr>)"

lemma sim_wrote_tidy:
  "sim_tidy s \<Longrightarrow> dc \<noteq> [] \<Longrightarrow> rec \<noteq> [] \<Longrightarrow> sim_tidy (sim_wrote s dc rec d)"
  by (auto simp: sim_tidy_def sim_wrote_def Let_def dc_path_not_record_path dc_path_not_record_path [symmetric] mnt_not_record_path)

lemma sim_wrote_lookup:
  assumes "dc \<noteq> []" and "rec \<noteq> []"
  shows "sim_lookup (sim_wrote s dc rec d) c r = (if (c, r) = (dc, rec) then Some d else sim_lookup s c r)"
  using assms by (auto simp: sim_lookup_def sim_wrote_def Let_def record_path_inject)

lemma sim_wrote_known:
  "dc \<noteq> [] \<Longrightarrow> sim_known (sim_wrote s dc rec d) dc" "sim_known s c \<Longrightarrow> sim_known (sim_wrote s dc rec d) c"
  by (auto simp: sim_known_def sim_wrote_def Let_def)

lemma sim_write_result:
  assumes "sim_healthy s" and "sim_known s dc \<or> dc = rec" and "rec \<noteq> []"
  shows "DCServerSim_WriteRecord s dc rec d = Ret (NO_ERR, sim_wrote s dc rec d)"
proof -
  have dc: "dc \<noteq> []" using assms(2,3) by (auto simp: sim_known_def)
  note np = dc_path_not_record_path [OF dc assms(3), symmetric] mnt_not_record_path [OF dc assms(3)]
  have "record_path s (hex_encode dc) (hex_encode rec) \<notin> sim_dirs s"
    using assms(1,3) dc by (simp add: sim_healthy_def sim_tidy_def)
  then show ?thesis
    using assms dc np by (cases "sim_known s dc")
      (simp_all add: DCServerSim_WriteRecord_def sim_wrote_def Let_def sim_healthy_def sim_tidy_def sim_known_def transfer_stops_def)
qed

lemma sim_healthy_write:
  "sim_healthy s \<Longrightarrow> dc \<noteq> [] \<Longrightarrow> rec \<noteq> [] \<Longrightarrow> sim_healthy (sim_wrote s dc rec d)"
  using sim_wrote_tidy [of s dc rec d] by (simp add: sim_healthy_def) (simp add: sim_wrote_def Let_def)

lemma sim_read_result:
  assumes "sim_healthy s" and "sim_lookup s dc rec = Some d"
  shows "DCServerSim_ReadRecord s dc rec n = (if length d \<le> n then Ret (NO_ERR, d, s) else Fault Assertion_failed)"
  using assms by (auto simp: DCServerSim_ReadRecord_def Let_def sim_healthy_def sim_tidy_def sim_lookup_def transfer_stops_def split: if_splits)

lemma sim_read_missing:
  assumes "sim_tidy s" and "sim_lookup s dc rec = None" and "dc \<noteq> []" and "rec \<noteq> []"
  shows "DCServerSim_ReadRecord s dc rec n = Ret (ERR_NOT_FOUND, [], s)"
  using assms by (simp add: DCServerSim_ReadRecord_def Let_def sim_tidy_def sim_lookup_def)

interpretation sim: record_store sim_server sim_healthy sim_lookup sim_known "\<lambda>s r. r \<noteq> []"
  "\<lambda>r d. True" "\<lambda>r d. r \<noteq> []"
proof unfold_locales
  fix s dc rec d
  assume a: "sim_healthy s" "sim_known s dc \<or> dc = rec" "rec \<noteq> []"
  then have dc: "dc \<noteq> []" by (auto simp: sim_known_def)
  show "\<exists>s'. WriteRecord sim_server s dc rec d = Ret (NO_ERR, s') \<and> sim_healthy s' \<and> sim_known s' dc \<and>
          sim_lookup s' dc rec = Some d \<and> (\<forall>c. sim_known s c \<longrightarrow> sim_known s' c) \<and>
          (\<forall>c r. r \<noteq> rec \<longrightarrow> sim_lookup s' c r = sim_lookup s c r) \<and> (\<forall>r. r \<noteq> rec \<longrightarrow> r \<noteq> [] \<longrightarrow> r \<noteq> [])"
    using sim_write_result [OF a, of d] sim_healthy_write [OF a(1) dc a(3), of d] sim_wrote_known [where s = s and dc = dc] dc a(3)
    by (simp add: sim_server_def sim_wrote_lookup)
next
  fix s dc rec d n
  assume "sim_healthy s" "sim_lookup s dc rec = Some d" "rec \<noteq> []" "length d \<le> n"
  then show "\<exists>s'. ReadRecord sim_server s dc rec n = Ret (NO_ERR, d, s') \<and> sim_healthy s' \<and>
         sim_lookup s' = sim_lookup s \<and> sim_known s' = sim_known s \<and> (\<lambda>r. r \<noteq> []) = (\<lambda>r. r \<noteq> [])"
    by (simp add: sim_server_def sim_read_result)
qed

lemma sim_write_cases:
  assumes "DCServerSim_WriteRecord s dc rec d = Ret (rc, s')"
  obtains (refused) D where "rc = ERR_IO" and "s' = s\<lparr>sim_dirs := D\<rparr>" and "sim_dirs s \<subseteq> D"
  | (stored) D k where "rc \<in> {NO_ERR, ERR_IO}" and "sim_dirs s \<subseteq> D"
      and "s' = s\<lparr>sim_dirs := D, sim_files := (sim_files s)(record_path s (hex_encode dc) (hex_encode rec) \<mapsto> take k d)\<rparr>"
proof -
  show thesis
    using assms refused [of "sim_dirs s"] refused [of "insert (dc_path s (hex_encode dc)) (insert (mnt_point s) (sim_dirs s))"]
      stored [of "sim_dirs s" "length d"] stored [of "insert (dc_path s (hex_encode dc)) (insert (mnt_point s) (sim_dirs s))" "length d"]
      stored [of "sim_dirs s" "the (sim_io_stop s (record_path s (hex_encode dc) (hex_encode rec)))"]
      stored [of "insert (dc_path s (hex_encode dc)) (insert (mnt_point s) (sim_dirs s))"
        "the (sim_io_stop s (record_path s (hex_encode dc) (hex_encode rec)))"]
    by (simp add: DCServerSim_WriteRecord_def Let_def subset_insertI2 split: if_split_asm)
qed

lemma sim_write_frame:
  assumes w: "DCServerSim_WriteRecord s dc rec d = Ret (rc, s')" and "dc \<noteq> []" and "rec \<noteq> []"
  shows "rc \<in> {NO_ERR, ERR_IO}" and "\<forall>c r. (c, r) \<noteq> (dc, rec) \<longrightarrow> sim_lookup s' c r = sim_lookup s c r"
    and "\<forall>c. sim_known s c \<longrightarrow> sim_known s' c"
    and "sim_lookup s' dc rec = sim_lookup s dc rec \<or> (\<exists>k. sim_lookup s' dc rec = Some (take k d))"
proof -
  show "rc \<in> {NO_ERR, ERR_IO}"
    using w by (cases rule: sim_write_cases) auto
  show "\<forall>c r. (c, r) \<noteq> (dc, rec) \<longrightarrow> sim_lookup s' c r = sim_lookup s c r"
    using w by (cases rule: sim_write_cases) (auto simp: sim_lookup_def record_path_inject assms(2,3))
  show "\<forall>c. sim_known s c \<longrightarrow> sim_known s' c"
    using w by (cases rule: sim_write_cases) (auto simp: sim_known_def)
  show "sim_lookup s' dc rec = sim_lookup s dc rec \<or> (\<exists>k. sim_lookup s' dc rec = Some (take k d))"
    using w by (cases rule: sim_write_cases) (auto simp: sim_lookup_def assms(2,3))
qed

lemma sim_init_tidy: "sim_tidy sim_init"
proof -
  have "record_path sim_init (hex_encode dc) (hex_encode rec) \<noteq> ''/tmp/dcfs''" if "dc \<noteq> []" "rec \<noteq> []" for dc rec
    using mnt_not_record_path [OF that, of sim_init] by (simp add: sim_init_def)
  then show ?thesis by (simp add: sim_tidy_def) (simp add: sim_init_def)
qed

lemma sim_init_healthy: "sim_healthy sim_init"
  using sim_init_tidy by (simp add: sim_healthy_def) (simp add: sim_init_def)

lemma sim_init_empty: "sim_lookup sim_init dc rec = None" "\<not> sim_known sim_init dc" "sim_files sim_init p = None"
  by (auto simp: sim_init_def sim_lookup_def sim_known_def dc_path_def sub_path_def split: if_splits)

section \<open>Properties\<close>

text \<open>
  On the simulated server, a record written under any non-empty name is returned
  unchanged by a read of that name into a large enough buffer, also after a later record
  has been written under a different name, whatever bytes the names consist of.
\<close>

theorem sim_write_then_read:
  assumes "sim_healthy s" and "sim_known s dc" and "rec \<noteq> []" and "rec' \<noteq> []" and "rec \<noteq> rec'"
    and "length d \<le> n"
  shows "\<exists>s1 s2. DCServerSim_WriteRecord s dc rec d = Ret (NO_ERR, s1) \<and>
           DCServerSim_ReadRecord s1 dc rec n = Ret (NO_ERR, d, s1) \<and>
           DCServerSim_WriteRecord s1 dc rec' d' = Ret (NO_ERR, s2) \<and>
           DCServerSim_ReadRecord s2 dc rec n = Ret (NO_ERR, d, s2)"
proof -
  obtain s1 where w1: "DCServerSim_WriteRecord s dc rec d = Ret (NO_ERR, s1)" "sim_healthy s1"
    "sim_lookup s1 dc rec = Some d" "sim_known s1 dc"
    using sim.write_stores [of s dc rec d] assms by (auto simp: sim_server_def)
  obtain s2 where w2: "DCServerSim_WriteRecord s1 dc rec' d' = Ret (NO_ERR, s2)" "sim_healthy s2"
    "sim_lookup s2 dc rec = Some d"
    using sim.write_stores [of s1 dc rec' d'] w1 assms by (auto simp: sim_server_def)
  show ?thesis
    using w1 w2 sim_read_result [OF w1(2,3)] sim_read_result [OF w2(2,3)] assms by simp
qed

theorem sim_write_then_read_witness:
  "\<exists>s1 s2 s3. DCServerSim_WriteRecord sim_init ''dc'' ''dc'' ''m'' = Ret (NO_ERR, s1) \<and>
     DCServerSim_WriteRecord s1 ''dc'' ''r1'' ''one'' = Ret (NO_ERR, s2) \<and>
     DCServerSim_ReadRecord s2 ''dc'' ''r1'' 8 = Ret (NO_ERR, ''one'', s2) \<and>
     DCServerSim_WriteRecord s2 ''dc'' ''r2'' ''two'' = Ret (NO_ERR, s3) \<and>
     DCServerSim_ReadRecord s3 ''dc'' ''r1'' 8 = Ret (NO_ERR, ''one'', s3)"
proof -
  obtain s1 where "DCServerSim_WriteRecord sim_init ''dc'' ''dc'' ''m'' = Ret (NO_ERR, s1)"
    "sim_healthy s1" "sim_known s1 ''dc''"
    using sim.write_stores [of sim_init "''dc''" "''dc''" "''m''"] sim_init_healthy
    by (auto simp: sim_server_def)
  then show ?thesis
    using sim_write_then_read [of s1 "''dc''" "''r1''" "''r2''" "''one''" 8 "''two''"] by auto
qed

text \<open>
  C25. Reads of the simulated server, in every state and of every path that is not a directory: a record that
  is not there or whose file cannot be opened gives \<open>ERR_NOT_FOUND\<close>, one that is longer than the buffer fails the assertion, one whose
  transfer fails gives \<open>ERR_IO\<close>, and in every other case, and only then, the read succeeds, with the
  bytes of the record. A read that returns leaves the server as it was.
\<close>

theorem sim_read_outcomes:
  assumes "dc \<noteq> []" and "rec \<noteq> []" and "P = record_path s (hex_encode dc) (hex_encode rec)" and "P \<notin> sim_dirs s"
    and "held = (if sim_open_fails s P then None else sim_lookup s dc rec)"
  shows "(DCServerSim_ReadRecord s dc rec n = Ret (ERR_NOT_FOUND, [], s) \<longleftrightarrow> held = None) \<and>
    (DCServerSim_ReadRecord s dc rec n = Fault Assertion_failed \<longleftrightarrow> (\<exists>d. held = Some d \<and> n < length d)) \<and>
    (DCServerSim_ReadRecord s dc rec n = Ret (ERR_IO, [], s) \<longleftrightarrow> (\<exists>d. held = Some d \<and> length d \<le> n \<and> transfer_stops s P d)) \<and>
    (DCServerSim_ReadRecord s dc rec n = Ret (NO_ERR, d, s) \<longleftrightarrow> held = Some d \<and> length d \<le> n \<and> \<not> transfer_stops s P d) \<and>
    (DCServerSim_ReadRecord s dc rec n = Ret (rc, out, s') \<longrightarrow> s' = s \<and> rc \<in> {NO_ERR, ERR_IO, ERR_NOT_FOUND})"
proof -
  have "DCServerSim_ReadRecord s dc rec n = (case held of None \<Rightarrow> Ret (ERR_NOT_FOUND, [], s)
      | Some d \<Rightarrow> bindO (assertO (length d \<le> n)) (\<lambda>_. if transfer_stops s P d then Ret (ERR_IO, [], s) else Ret (NO_ERR, d, s)))"
    using assms(1,2,4) unfolding assms(5) assms(3) by (simp add: DCServerSim_ReadRecord_def Let_def sim_lookup_def)
  then show ?thesis by (cases held) (auto simp: assertO_def)
qed

theorem sim_read_outcomes_witness:
  "\<exists>s1. DCServerSim_WriteRecord sim_init ''dc'' ''dc'' ''m'' = Ret (NO_ERR, s1) \<and>
     DCServerSim_ReadRecord s1 ''dc'' ''r'' 8 = Ret (ERR_NOT_FOUND, [], s1) \<and>
     DCServerSim_ReadRecord s1 ''dc'' ''dc'' 0 = Fault Assertion_failed \<and>
     DCServerSim_ReadRecord (s1\<lparr>sim_io_stop := \<lambda>p. Some 0\<rparr>) ''dc'' ''dc'' 8 = Ret (ERR_IO, [], s1\<lparr>sim_io_stop := \<lambda>p. Some 0\<rparr>)"
proof -
  obtain s1 where s1: "DCServerSim_WriteRecord sim_init ''dc'' ''dc'' ''m'' = Ret (NO_ERR, s1)"
    "sim_healthy s1" "sim_lookup s1 ''dc'' ''dc'' = Some ''m''" "sim_lookup s1 ''dc'' ''r'' = sim_lookup sim_init ''dc'' ''r''"
    using sim.write_stores [of sim_init "''dc''" "''dc''" "''m''"] sim_init_healthy by (auto simp: sim_server_def)
  let ?P = "\<lambda>r. record_path s1 (hex_encode ''dc'') (hex_encode r)" and ?s2 = "s1\<lparr>sim_io_stop := \<lambda>p. Some 0\<rparr>"
  have d: "?P ''dc'' \<notin> sim_dirs s1" "?P ''r'' \<notin> sim_dirs s1" "\<not> sim_open_fails s1 p" for p
    using s1(2) by (simp_all add: sim_healthy_def sim_tidy_def)
  have p: "record_path ?s2 = record_path s1" "sim_lookup ?s2 = sim_lookup s1" "transfer_stops ?s2 q ''m''" for q
    by (simp_all add: record_path_def dc_path_def sim_lookup_def transfer_stops_def fun_eq_iff)
  show ?thesis
    using s1(1,3,4) d p sim_init_empty(1)
      sim_read_outcomes [of "''dc''" "''r''" "?P ''r''" s1 _ 8]
      sim_read_outcomes [of "''dc''" "''dc''" "?P ''dc''" s1 _ 0]
      sim_read_outcomes [of "''dc''" "''dc''" "?P ''dc''" ?s2 _ 8] by simp
qed

text \<open>
  C26. Writes of the simulated server, in every state and under all non-empty names. The call throws if
  the file system does when the capsule is looked up or created; into a capsule that does not exist, a
  record that is not named like it is refused with \<open>ERR_IO\<close>, as is every record if a file stands in
  the place of the capsule. Otherwise the capsule is created if need be. A record that cannot be opened
  gives \<open>ERR_IO\<close>, and so does a transfer that fails at once, with the record cut off; but a transfer that fails in
  the destructor of the stream cuts the record off and is reported as a success. Whatever happens, only
  the record of that name changes, no capsule is lost, and the code is \<open>NO_ERR\<close> or \<open>ERR_IO\<close>.
\<close>

theorem sim_write_outcomes:
  assumes "dc \<noteq> []" and "rec \<noteq> []" and "P = record_path s (hex_encode dc) (hex_encode rec)" and "D = dc_path s (hex_encode dc)"
  shows "(sim_stat_throws s D \<longrightarrow> DCServerSim_WriteRecord s dc rec d = Fault Uncaught_exception) \<and>
    (\<not> sim_stat_throws s D \<and> \<not> sim_known s dc \<and> (dc \<noteq> rec \<or> sim_files s D \<noteq> None) \<longrightarrow>
       DCServerSim_WriteRecord s dc rec d = Ret (ERR_IO, s)) \<and>
    (\<not> sim_stat_throws s D \<and> \<not> sim_known s dc \<and> dc = rec \<and> sim_files s D = None \<and> sim_create_throws s D \<longrightarrow>
       DCServerSim_WriteRecord s dc rec d = Fault Uncaught_exception) \<and>
    (\<not> sim_stat_throws s D \<and> (sim_known s dc \<or> dc = rec \<and> sim_files s D = None \<and> \<not> sim_create_throws s D) \<longrightarrow>
       DCServerSim_WriteRecord s dc rec d =
       (if P \<in> sim_dirs s \<or> sim_open_fails s P
        then Ret (ERR_IO, if sim_known s dc then s else s\<lparr>sim_dirs := insert D (insert (mnt_point s) (sim_dirs s))\<rparr>)
        else if transfer_stops s P d
        then Ret (if sim_direct s (length d) then ERR_IO else NO_ERR, sim_wrote s dc rec (take (the (sim_io_stop s P)) d))
        else Ret (NO_ERR, sim_wrote s dc rec d))) \<and>
    (DCServerSim_WriteRecord s dc rec d = Ret (rc, s') \<longrightarrow> rc \<in> {NO_ERR, ERR_IO} \<and>
       (\<forall>c r. (c, r) \<noteq> (dc, rec) \<longrightarrow> sim_lookup s' c r = sim_lookup s c r) \<and> (\<forall>c. sim_known s c \<longrightarrow> sim_known s' c) \<and>
       (sim_lookup s' dc rec = sim_lookup s dc rec \<or> (\<exists>k. sim_lookup s' dc rec = Some (take k d))))"
proof (intro conjI impI; (elim conjE)?)
  assume "sim_stat_throws s D"
  then show "DCServerSim_WriteRecord s dc rec d = Fault Uncaught_exception"
    using assms(4) by (simp add: DCServerSim_WriteRecord_def)
next
  assume "\<not> sim_stat_throws s D" "\<not> sim_known s dc" "dc \<noteq> rec \<or> sim_files s D \<noteq> None"
  then show "DCServerSim_WriteRecord s dc rec d = Ret (ERR_IO, s)"
    using assms by (auto simp: DCServerSim_WriteRecord_def Let_def sim_known_def hex_encode_inj)
next
  assume "\<not> sim_stat_throws s D" "\<not> sim_known s dc" "dc = rec" "sim_files s D = None" "sim_create_throws s D"
  then show "DCServerSim_WriteRecord s dc rec d = Fault Uncaught_exception"
    using assms(1) unfolding assms(4) by (auto simp: DCServerSim_WriteRecord_def Let_def sim_known_def)
next
  assume a: "\<not> sim_stat_throws s D" "sim_known s dc \<or> dc = rec \<and> sim_files s D = None \<and> \<not> sim_create_throws s D"
  note np = dc_path_not_record_path [OF assms(1,2), symmetric] mnt_not_record_path [OF assms(1,2)]
  show "DCServerSim_WriteRecord s dc rec d =
       (if P \<in> sim_dirs s \<or> sim_open_fails s P
        then Ret (ERR_IO, if sim_known s dc then s else s\<lparr>sim_dirs := insert D (insert (mnt_point s) (sim_dirs s))\<rparr>)
        else if transfer_stops s P d
        then Ret (if sim_direct s (length d) then ERR_IO else NO_ERR, sim_wrote s dc rec (take (the (sim_io_stop s P)) d))
        else Ret (NO_ERR, sim_wrote s dc rec d))"
  proof (cases "sim_known s dc")
    case True
    with a(1) assms show ?thesis by (simp add: DCServerSim_WriteRecord_def Let_def sim_known_def sim_wrote_def)
  next
    case False
    with a have "dc = rec" "sim_files s D = None" "\<not> sim_create_throws s D" "D \<notin> sim_dirs s" using assms by (auto simp: sim_known_def)
    with a(1) False assms np show ?thesis by (simp add: DCServerSim_WriteRecord_def Let_def sim_known_def sim_wrote_def)
  qed
qed (use sim_write_frame [OF _ assms(1,2)] in \<open>blast+\<close>)

theorem sim_write_outcomes_witness:
  "\<exists>s1. sim_known s1 ''dc'' \<and> DCServerSim_WriteRecord sim_init ''dc'' ''r'' ''data'' = Ret (ERR_IO, sim_init) \<and>
     DCServerSim_WriteRecord s1 ''dc'' ''r'' ''data'' = Ret (NO_ERR, sim_wrote s1 ''dc'' ''r'' ''da'') \<and>
     sim_lookup (sim_wrote s1 ''dc'' ''r'' ''da'') ''dc'' ''r'' = Some ''da''"
proof -
  obtain s where s: "sim_healthy s" "sim_known s ''dc''" "sim_direct s = sim_direct sim_init"
    using sim_write_result [OF sim_init_healthy, of "''dc''" "''dc''" "''m''"] sim_healthy_write [OF sim_init_healthy, of "''dc''" "''dc''" "''m''"]
      sim_wrote_known(1) [of "''dc''" sim_init "''dc''" "''m''"]
    by (intro that [of "sim_wrote sim_init ''dc'' ''dc'' ''m''"]) (simp_all add: sim_wrote_def Let_def)
  define s1 where "s1 = s\<lparr>sim_io_stop := \<lambda>p. Some 2\<rparr>"
  have p: "record_path s1 = record_path s" "dc_path s1 = dc_path s"
    by (simp_all add: s1_def record_path_def dc_path_def fun_eq_iff)
  have k: "sim_known s1 ''dc''" "transfer_stops s1 q ''data''" "\<not> sim_open_fails s1 q" "\<not> sim_stat_throws s1 q"
    "\<not> sim_direct s1 (length ''data'')" "sim_io_stop s1 q = Some 2" "record_path s1 (hex_encode ''dc'') (hex_encode ''r'') \<notin> sim_dirs s1" for q
    using s p by (auto simp: s1_def sim_known_def transfer_stops_def sim_healthy_def sim_tidy_def sim_init_def)
  have "DCServerSim_WriteRecord s1 ''dc'' ''r'' ''data'' = Ret (NO_ERR, sim_wrote s1 ''dc'' ''r'' ''da'')"
    using sim_write_outcomes [of "''dc''" "''r''" _ s1 _ "''data''", OF _ _ refl refl] k by simp
  moreover have "DCServerSim_WriteRecord sim_init ''dc'' ''r'' ''data'' = Ret (ERR_IO, sim_init)"
    using sim_write_outcomes [of "''dc''" "''r''" _ sim_init _ "''data''", OF _ _ refl refl] sim_init_empty sim_init_healthy
    by (simp add: sim_healthy_def)
  ultimately show ?thesis using k(1) by (auto simp: sim_wrote_lookup)
qed

end
