(* ===== verification/Midware.thy ===== *)
theory Midware
  imports Dcserver
begin

text \<open>
  The file system middleware: \<open>DCFSMidSim\<close> of \<open>src/src/fs/backend_sim.cpp\<close>, which the
  client runs in its own process. It keeps, for every file capsule, the name of the latest
  inode record, and turns a batch of dirty blocks into a chain of records: data blocks, then
  a block map, then an inode record, each pointing at the record it follows.

  \<open>Modify\<close> is one function in the source; here it is the composition of its five blocks, in
  their order. The clock is read once per record, so the middleware state carries the number
  of readings taken.
\<close>

section \<open>State\<close>

record midware =
  mid_index :: "string \<Rightarrow> string option"
  mid_root :: "string \<times> string"
  middlewareWriterKey :: "string option"
  mid_client_key_pair :: "string option"
  symmetric_middleware_key :: string
  mid_tick :: nat

text \<open>The constructor \<open>DCFSMidSim(dcserver, client_key_pair)\<close>; key generation results are ignored.\<close>

definition DCFSMidSim :: "env \<Rightarrow> string option \<Rightarrow> nat \<Rightarrow> midware" where
  "DCFSMidSim E client_key n =
     \<lparr>mid_index = Map.empty, mid_root = ([], []),
      middlewareWriterKey = snd (generate_ECDSA_key (ossl E) n),
      mid_client_key_pair = client_key,
      symmetric_middleware_key = snd (generate_symmetric_key (ossl E) n (fresh_mem E AES_KEY_LEN)),
      mid_tick = Suc n\<rparr>"

section \<open>Composing a record\<close>

definition reply_addr :: "env \<Rightarrow> string" where
  "reply_addr E = load_client_ip (option_map E) @ '':'' @ to_string (NET_CLIENT_RECV_ACK_PORT + CLIENT_ID)"

definition record_header :: "env \<Rightarrow> nat \<Rightarrow> record_type \<Rightarrow> string list \<Rightarrow> string \<Rightarrow> capsule_header" where
  "record_header E n t hashes payload_hash =
     empty_header\<lparr>sender := 0, prevhash := hashes, hash := payload_hash, timestamp := clock E n,
       msgtype := record_type_to_string t, replyaddr := reply_addr E\<rparr>"

text \<open>
  \<open>composeRecord\<close>: the error code, the serialised record and its name. \<open>hashes\<close> is empty where
  the source passes \<open>NULL\<close>; \<open>n\<close> numbers the clock reading.
\<close>

definition composeRecord ::
    "env \<Rightarrow> nat \<Rightarrow> record_type \<Rightarrow> string list \<Rightarrow> buf_desc_t option \<Rightarrow> (err_t \<times> string \<times> string) outcome" where
  "composeRecord E n t hashes in_desc =
     bindO (case in_desc of None \<Rightarrow> Ret None | Some d \<Rightarrow> bindO (desc_bytes d) (\<lambda>b. Ret (Some b))) (\<lambda>payload.
     bindO (case payload of None \<Rightarrow> Ret (Some ''0'') | Some b \<Rightarrow> hash256 (ossl E) b True) (\<lambda>phash.
     case phash of None \<Rightarrow> Ret (ERR_HASH, [], []) | Some ph \<Rightarrow>
       let hdr = record_header E n t hashes ph in
       bindO (hash256 (ossl E) (ser_header (cdc E) hdr) True) (\<lambda>hh.
       case hh of None \<Rightarrow> Ret (ERR_HASH, [], []) | Some name \<Rightarrow>
         let pdu = empty_pdu\<lparr>header := hdr, header_hash := name, signature := ''0'',
                     payload_in_transit := (case payload of None \<Rightarrow> [] | Some b \<Rightarrow> b)\<rparr> in
         Ret (NO_ERR, ser_pdu (cdc E) pdu, name))))"

section \<open>Creating a file\<close>

text \<open>
  \<open>CreateNew\<close>: the error code, the new capsule's name and its key. The code of \<open>composeRecord\<close>
  is ignored; after a failure the descriptor it was to fill would be used uninitialised.
\<close>

definition CreateNew ::
    "env \<Rightarrow> 's dcserver \<Rightarrow> midware \<Rightarrow> 's \<Rightarrow> (err_t \<times> string \<times> string \<times> midware \<times> 's) outcome" where
  "CreateNew E srv m s =
     bindO (composeRecord E (mid_tick m) META [] None) (\<lambda>(rc, out, hashname).
     bindO (validO (0 \<le> rc)) (\<lambda>_.
     bindO (WriteRecord srv s hashname hashname out) (\<lambda>(err, s').
     let m1 = m\<lparr>mid_tick := Suc (mid_tick m)\<rparr> in
     if err < 0 then Ret (err, hashname, [], m1, s')
     else
       let aes_key = snd (generate_symmetric_key (ossl E) (mid_tick m1) (fresh_mem E AES_KEY_LEN)) in
       Ret (NO_ERR, hashname, aes_key,
         m1\<lparr>mid_index := (mid_index m1)(hashname \<mapsto> []), mid_tick := Suc (mid_tick m1)\<rparr>, s'))))"

definition GetRoot :: "midware \<Rightarrow> err_t \<times> string \<times> string" where
  "GetRoot m = (NO_ERR, fst (mid_root m), snd (mid_root m))"

section \<open>Finding a file\<close>

definition GetInodeName :: "env \<Rightarrow> midware \<Rightarrow> string \<Rightarrow> string \<Rightarrow> (err_t \<times> string) outcome" where
  "GetInodeName E m hashname sig =
     bindO (hash256 (ossl E) hashname False) (\<lambda>h.
     bindO (verify (ossl E) (no_sign E) (mid_client_key_pair m) h sig) (\<lambda>ok.
     if \<not> ok then Ret (ERR_VERIFY, [])
     else case mid_index m hashname of
       None \<Rightarrow> Ret (ERR_NOT_FOUND, [])
     | Some name \<Rightarrow> Ret (NO_ERR, name)))"

section \<open>Modifying a file\<close>

text \<open>The bytes a client signs and the middleware verifies: all arguments, one after the other.\<close>

definition signed_args :: "string \<Rightarrow> buf_desc_t list \<Rightarrow> string \<Rightarrow> string \<Rightarrow> string outcome" where
  "signed_args dcname descs inode_hash aes_key =
     bindO (mapO desc_bytes descs) (\<lambda>bs. Ret (dcname @ concat bs @ inode_hash @ aes_key))"

record inode_record =
  isize :: u64
  blockmap_hash :: string
  ino_key :: string

record blockmap_record =
  data_hashes :: "string list"
  hash_to_latest_data_block :: string

text \<open>The loop that cuts a block map's payload into hashes of 32 bytes.\<close>

function split_hashes :: "string \<Rightarrow> string list outcome" where
  "split_hashes s =
     (if s = [] then Ret []
      else bindO (cread (c_str s) 0 HASHLEN_IN_BYTES) (\<lambda>h.
           bindO (split_hashes (drop HASHLEN_IN_BYTES s)) (\<lambda>hs. Ret (h # hs))))"
  by pat_completeness auto
termination by (relation "measure length") auto

declare split_hashes.simps [simp del]

text \<open>
  Lines 244 to 281: with an inode record, read it and the block map it points at; without
  one, start from empty records and the key of the request. \<open>latest\<close> is \<open>index_[dcname]\<close>.
\<close>

definition Modify_load ::
    "env \<Rightarrow> 's dcserver \<Rightarrow> 's \<Rightarrow> string \<Rightarrow> string \<Rightarrow> string \<Rightarrow>
     (err_t \<times> inode_record \<times> blockmap_record \<times> 's) outcome" where
  "Modify_load E srv s dcname latest aes_key =
     (let ino0 = \<lparr>isize = 0, blockmap_hash = [], ino_key = []\<rparr>;
          bm0 = \<lparr>data_hashes = [], hash_to_latest_data_block = []\<rparr> in
      if latest \<noteq> [] then
        bindO (ReadRecord srv s dcname latest MAX_INODE_RECORD_SIZE) (\<lambda>(ret, data, s1).
        if ret < 0 then Ret (ret, ino0, bm0, s1)
        else
          let ino_pdu = parse_pdu (cdc E) data in
          bindO (vec_at (prevhash (header ino_pdu)) 1) (\<lambda>bmh.
          bindO (cread (c_str (payload_in_transit ino_pdu)) INODE_AES_KEY_OFFSET AES_KEY_LEN) (\<lambda>key.
          let ino = ino0\<lparr>blockmap_hash := bmh, ino_key := key\<rparr> in
          bindO (ReadRecord srv s1 dcname bmh MAX_BLOCKMAP_RECORD_SIZE) (\<lambda>(ret, data, s2).
          if ret < 0 then Ret (ret, ino, bm0, s2)
          else
            let bm_pdu = parse_pdu (cdc E) data in
            bindO (vec_at (prevhash (header bm_pdu)) 1) (\<lambda>lat.
            bindO (split_hashes (payload_in_transit bm_pdu)) (\<lambda>hs.
            Ret (NO_ERR, ino, \<lparr>data_hashes = hs, hash_to_latest_data_block = lat\<rparr>, s2)))))))
      else
        bindO (cread (c_str aes_key) 0 AES_KEY_LEN) (\<lambda>key.
        Ret (NO_ERR, ino0\<lparr>ino_key := key\<rparr>, bm0, s)))"

text \<open>
  Lines 287 to 327: one data record per descriptor, each pointing at the one before it, the
  first at the latest data block of the old block map or, without one, at the capsule's meta
  record. The result lists the file offset and the name of every block written.
\<close>

fun Modify_push_data ::
    "env \<Rightarrow> 's dcserver \<Rightarrow> string \<Rightarrow> string \<Rightarrow> nat \<Rightarrow> string \<Rightarrow> 's \<Rightarrow> buf_desc_t list \<Rightarrow>
     (err_t \<times> (u64 \<times> string) list \<times> nat \<times> 's) outcome" where
  "Modify_push_data E srv dcname latest n prev s [] = Ret (NO_ERR, [], n, s)"
| "Modify_push_data E srv dcname latest n prev s (d # ds) =
     (let link = (if prev = [] then if latest \<noteq> [] then latest else dcname else prev) in
      bindO (composeRecord E n DATABLOCK [link] (Some d)) (\<lambda>(ret, out, name).
      if ret < 0 then Ret (ret, [], Suc n, s)
      else bindO (WriteRecord srv s dcname name out) (\<lambda>(ret, s1).
        if ret < 0 then Ret (ret, [], Suc n, s1)
        else bindO (Modify_push_data E srv dcname latest (Suc n) name s1 ds) (\<lambda>(ret, blocks, n', s2).
          Ret (ret, (file_offset d, name) # blocks, n', s2)))))"

text \<open>Lines 339 to 344: the block map takes the new blocks, in place or at its end.\<close>

fun Modify_place :: "u64 \<Rightarrow> string list \<Rightarrow> (u64 \<times> string) list \<Rightarrow> string list outcome" where
  "Modify_place sz hashes [] = Ret hashes"
| "Modify_place sz hashes ((off, name) # blocks) =
     (if off < sz
      then bindO (vec_set hashes (unat (off div of_nat DEFAULT_BLOCK_SIZE)) name) (\<lambda>hs. Modify_place sz hs blocks)
      else Modify_place sz (hashes @ [name]) blocks)"

text \<open>Lines 329 to 364: the new block map record.\<close>

definition Modify_push_blockmap ::
    "env \<Rightarrow> 's dcserver \<Rightarrow> string \<Rightarrow> nat \<Rightarrow> 's \<Rightarrow> inode_record \<Rightarrow> blockmap_record \<Rightarrow> (u64 \<times> string) list \<Rightarrow>
     (err_t \<times> string \<times> 's) outcome" where
  "Modify_push_blockmap E srv dcname n s ino bm blocks =
     (let first = (if blockmap_hash ino \<noteq> [] then blockmap_hash ino else dcname) in
      bindO (validO (blocks \<noteq> [])) (\<lambda>_.
      bindO (Modify_place (isize ino) (data_hashes bm) blocks) (\<lambda>hashes.
      bindO (mapO (\<lambda>h. cread (c_str h) 0 HASHLEN_IN_BYTES) hashes) (\<lambda>hs.
      let data = concat hs;
          desc = \<lparr>buf = data, desc_size = length hashes * HASHLEN_IN_BYTES, file_offset = 0\<rparr> in
      bindO (composeRecord E n BLOCKMAP [first, snd (last blocks)] (Some desc)) (\<lambda>(ret, out, name).
      if ret < 0 then Ret (ret, [], s)
      else bindO (WriteRecord srv s dcname name out) (\<lambda>(ret, s').
        if ret < 0 then Ret (ret, [], s') else Ret (NO_ERR, name, s')))))))"

text \<open>
  Lines 366 to 405: the new inode record: size, then the file key encrypted under the
  middleware's key into an array of 32 bytes. The result of the encryption is not checked.
\<close>

definition Modify_push_inode ::
    "env \<Rightarrow> 's dcserver \<Rightarrow> midware \<Rightarrow> string \<Rightarrow> nat \<Rightarrow> 's \<Rightarrow> inode_record \<Rightarrow> string \<Rightarrow> string \<Rightarrow> nat \<Rightarrow>
     (err_t \<times> string \<times> 's) outcome" where
  "Modify_push_inode E srv m dcname n s ino latest bm_name ndescs =
     (let first = (if latest \<noteq> [] then latest else dcname);
          bytes = of_nat ndescs * 16 * 1024 :: u64;
          sz = (if isize ino \<le> bytes then bytes else isize ino);
          enc = snd (encrypt_symmetric (ossl E) (symmetric_middleware_key m) None (ino_key ino)) in
      bindO (deref enc) (\<lambda>c.
      bindO (validO (length c \<le> AES_KEY_LEN + AES_PAD_LEN)) (\<lambda>_.
      bindO (assertO (length c = AES_KEY_LEN + AES_PAD_LEN)) (\<lambda>_.
      let desc = \<lparr>buf = u64_bytes sz @ c, desc_size = INODE_PAYLOAD_SIZE, file_offset = 0\<rparr> in
      bindO (composeRecord E n INODE [first, bm_name] (Some desc)) (\<lambda>(ret, out, name).
      if ret < 0 then Ret (ret, [], s)
      else bindO (WriteRecord srv s dcname name out) (\<lambda>(ret, s').
        if ret < 0 then Ret (ret, [], s') else Ret (NO_ERR, name, s')))))))"

text \<open>
  Lines 287 to 407: the three kinds of records in the order they are pushed, and the index
  entry once all of them are written.
\<close>

definition Modify_write ::
    "env \<Rightarrow> 's dcserver \<Rightarrow> midware \<Rightarrow> 's \<Rightarrow> string \<Rightarrow> string \<Rightarrow> buf_desc_t list \<Rightarrow> inode_record \<Rightarrow>
     blockmap_record \<Rightarrow> (err_t \<times> midware \<times> 's) outcome" where
  "Modify_write E srv m s dcname latest descs ino bm =
     bindO (Modify_push_data E srv dcname (hash_to_latest_data_block bm) (mid_tick m) [] s descs)
       (\<lambda>(ret, blocks, n, s1).
     if ret < 0 then Ret (ret, m\<lparr>mid_tick := n\<rparr>, s1)
     else bindO (Modify_push_blockmap E srv dcname n s1 ino bm blocks) (\<lambda>(ret, bm_name, s2).
     if ret < 0 then Ret (ret, m\<lparr>mid_tick := Suc n\<rparr>, s2)
     else bindO (Modify_push_inode E srv m dcname (Suc n) s2 ino latest bm_name (length descs))
       (\<lambda>(ret, ino_name, s3).
     if ret < 0 then Ret (ret, m\<lparr>mid_tick := Suc (Suc n)\<rparr>, s3)
     else Ret (NO_ERR, m\<lparr>mid_tick := Suc (Suc n), mid_index := (mid_index m)(dcname \<mapsto> ino_name)\<rparr>, s3))))"

text \<open>
  \<open>Modify\<close>. The first use of \<open>index_[dcname]\<close> inserts an empty entry for an unknown capsule,
  so the later test \<open>index_.find(dcname) == index_.end()\<close> is kept here as it stands, and is
  never true.
\<close>

definition Modify ::
    "env \<Rightarrow> 's dcserver \<Rightarrow> midware \<Rightarrow> 's \<Rightarrow> string \<Rightarrow> buf_desc_t list \<Rightarrow> string \<Rightarrow> string \<Rightarrow> string \<Rightarrow>
     (err_t \<times> midware \<times> 's) outcome" where
  "Modify E srv m s dcname descs inode_hash aes_key sig =
     bindO (signed_args dcname descs inode_hash aes_key) (\<lambda>args.
     bindO (hash256 (ossl E) args False) (\<lambda>h.
     bindO (verify (ossl E) (no_sign E) (mid_client_key_pair m) h sig) (\<lambda>ok.
     if \<not> ok then Ret (ERR_VERIFY, m, s)
     else
       let latest = (case mid_index m dcname of None \<Rightarrow> [] | Some l \<Rightarrow> l);
           m1 = m\<lparr>mid_index := (mid_index m)(dcname \<mapsto> latest)\<rparr> in
       if inode_hash \<noteq> latest then Ret (-1, m1, s)
       else if mid_index m1 dcname = None then Ret (ERR_NOT_FOUND, m1, s)
       else
         bindO (Modify_load E srv s dcname latest aes_key) (\<lambda>(ret, ino, bm, s1).
         if ret < 0 then Ret (ret, m1, s1)
         else Modify_write E srv m1 s1 dcname latest descs ino bm))))"

text \<open>
  \<open>DecryptAESKey\<close>: the output goes to an array of 32 bytes, \<open>outlen\<close> starts at 0 and the
  result of the decryption is not checked.
\<close>

definition DecryptAESKey :: "env \<Rightarrow> midware \<Rightarrow> string \<Rightarrow> (err_t \<times> string) outcome" where
  "DecryptAESKey E m encrypted_key =
     (let out = (case snd (decrypt_symmetric (ossl E) (symmetric_middleware_key m) None encrypted_key) of
                   None \<Rightarrow> [] | Some p \<Rightarrow> p) in
      bindO (validO (length out \<le> AES_KEY_LEN + AES_PAD_LEN)) (\<lambda>_.
      bindO (assertO (length out = AES_KEY_LEN)) (\<lambda>_.
      Ret (NO_ERR, out))))"

section \<open>Writes in a row\<close>

text \<open>
  \<open>all_written srv dc s ws s'\<close>: the server in state \<open>s\<close> accepts the records \<open>ws\<close>, given as names and
  bytes, one after the other, and is in \<open>s'\<close> afterwards.
\<close>

fun all_written :: "'s dcserver \<Rightarrow> string \<Rightarrow> 's \<Rightarrow> (string \<times> string) list \<Rightarrow> 's \<Rightarrow> bool" where
  "all_written srv dc s [] s' \<longleftrightarrow> s' = s"
| "all_written srv dc s ((name, out) # ws) s' \<longleftrightarrow>
     (case WriteRecord srv s dc name out of Fault e \<Rightarrow> False | Ret (rc, s1) \<Rightarrow> 0 \<le> rc \<and> all_written srv dc s1 ws s')"

text \<open>The same, but the server refuses a record after \<open>ws\<close>, with the code \<open>rc\<close>.\<close>

definition refused_after :: "'s dcserver \<Rightarrow> string \<Rightarrow> 's \<Rightarrow> (string \<times> string) list \<Rightarrow> err_t \<Rightarrow> 's \<Rightarrow> bool" where
  "refused_after srv dc s ws rc s' \<longleftrightarrow>
     rc < 0 \<and> (\<exists>s1 name out. all_written srv dc s ws s1 \<and> WriteRecord srv s1 dc name out = Ret (rc, s'))"

section \<open>The records a batch writes\<close>

text \<open>
  Reference definitions, without state or failure: the digest of a string, the record that
  \<open>composeRecord\<close> builds, the chain of data records of a batch, and all records of a batch in
  the order they are written.
\<close>

definition digest :: "env \<Rightarrow> string \<Rightarrow> string" where
  "digest E x = (case SHA256 (ossl E) x of Some h \<Rightarrow> h | None \<Rightarrow> [])"

definition record_pdu :: "env \<Rightarrow> nat \<Rightarrow> record_type \<Rightarrow> string list \<Rightarrow> string \<Rightarrow> capsule_pdu" where
  "record_pdu E n t hashes payload =
     (let hdr = record_header E n t hashes (digest E payload) in
      empty_pdu\<lparr>header := hdr, header_hash := digest E (ser_header (cdc E) hdr), signature := ''0'',
        payload_in_transit := payload\<rparr>)"

fun data_chain :: "env \<Rightarrow> nat \<Rightarrow> string \<Rightarrow> string list \<Rightarrow> capsule_pdu list" where
  "data_chain E n link [] = []"
| "data_chain E n link (b # bs) =
     (let p = record_pdu E n DATABLOCK [link] b in p # data_chain E (Suc n) (header_hash p) bs)"

definition sealed_key :: "env \<Rightarrow> string \<Rightarrow> string \<Rightarrow> string" where
  "sealed_key E mkey key = (case snd (encrypt_symmetric (ossl E) mkey None key) of None \<Rightarrow> [] | Some c \<Rightarrow> c)"

definition blockmap_pdu ::
    "env \<Rightarrow> nat \<Rightarrow> string \<Rightarrow> string list \<Rightarrow> string list \<Rightarrow> capsule_pdu" where
  "blockmap_pdu E n first old names = record_pdu E n BLOCKMAP [first, last names] (concat (old @ names))"

definition inode_pdu ::
    "env \<Rightarrow> nat \<Rightarrow> string \<Rightarrow> string \<Rightarrow> nat \<Rightarrow> string \<Rightarrow> capsule_pdu" where
  "inode_pdu E n first bm_name blocks sealed =
     record_pdu E n INODE [first, bm_name] (u64_bytes (of_nat blocks * 16 * 1024) @ sealed)"

definition batch_records ::
    "env \<Rightarrow> nat \<Rightarrow> string \<Rightarrow> string \<Rightarrow> string \<Rightarrow> string list \<Rightarrow> string \<Rightarrow> string list \<Rightarrow> capsule_pdu list" where
  "batch_records E n link bm_first ino_first old sealed bs =
     (let ch = data_chain E n link bs;
          bm = blockmap_pdu E (n + length bs) bm_first old (map header_hash ch);
          ino = inode_pdu E (Suc (n + length bs)) ino_first (header_hash bm) (length bs) sealed
      in ch @ [bm, ino])"

section \<open>A concrete middleware\<close>

definition sample_dc :: string where "sample_dc = replicate 32 CHR ''D''"

definition sample_key :: string where "sample_key = replicate 16 CHR ''K''"

definition sample_mid :: midware where
  "sample_mid = \<lparr>mid_index = [sample_dc \<mapsto> []], mid_root = ([], []), middlewareWriterKey = None,
     mid_client_key_pair = Some ''key'', symmetric_middleware_key = replicate 16 CHR ''M'', mid_tick = 3\<rparr>"

definition sample_desc :: "string \<Rightarrow> buf_desc_t" where
  "sample_desc b = \<lparr>buf = b, desc_size = length b, file_offset = 0\<rparr>"

definition sample_sig :: "string \<Rightarrow> string" where
  "sample_sig args = ''key'' @ digest sample_env args"

section \<open>Composing a record\<close>

lemma digest_eq: "sha_ok (ossl E) \<Longrightarrow> hash256 (ossl E) x b = Ret (Some (digest E x))"
  by (auto simp: hash256_def digest_def elim: sha_okE [of "ossl E" x])

lemma length_digest: "sha_ok (ossl E) \<Longrightarrow> length (digest E x) = 32"
  by (auto simp: digest_def elim: sha_okE [of "ossl E" x])

lemma env_okD:
  assumes "env_ok E"
  shows "codec_ok (cdc E)" and "sha_ok (ossl E)" and "aes_ok (ossl E)" and "rand_ok (ossl E)"
    and "length (fresh_mem E n) = n"
  using assms by (simp_all add: env_ok_def)

lemma composeRecord_eq:
  assumes "sha_ok (ossl E)" and "desc_bytes d = Ret b"
  shows "composeRecord E n t hashes (Some d) =
    Ret (NO_ERR, ser_pdu (cdc E) (record_pdu E n t hashes b), header_hash (record_pdu E n t hashes b))"
  using assms by (simp add: composeRecord_def digest_eq record_pdu_def Let_def)

text \<open>The record that \<open>CreateNew\<close> composes: no payload, and the text \<open>0\<close> for its hash.\<close>

definition meta_pdu :: "env \<Rightarrow> nat \<Rightarrow> capsule_pdu" where
  "meta_pdu E n =
     (let hdr = record_header E n META [] ''0'' in
      empty_pdu\<lparr>header := hdr, header_hash := digest E (ser_header (cdc E) hdr), signature := ''0''\<rparr>)"

lemma compose_meta:
  "sha_ok (ossl E) \<Longrightarrow> composeRecord E n META [] None = Ret (NO_ERR, ser_pdu (cdc E) (meta_pdu E n), header_hash (meta_pdu E n))"
  by (simp add: composeRecord_def digest_eq meta_pdu_def Let_def) (simp add: empty_pdu_def)

lemma record_pdu_simps [simp]:
  "prevhash (header (record_pdu E n t hashes b)) = hashes"
  "payload_in_transit (record_pdu E n t hashes b) = b"
  "hash (header (record_pdu E n t hashes b)) = digest E b"
  "msgtype (header (record_pdu E n t hashes b)) = record_type_to_string t"
  "signature (record_pdu E n t hashes b) = ''0''"
  "replyaddr (header (record_pdu E n t hashes b)) = reply_addr E"
  "appmeta (header (record_pdu E n t hashes b)) = []"
  by (simp_all add: record_pdu_def record_header_def Let_def empty_header_def)

lemma record_pdu_name:
  "header_hash (record_pdu E n t hashes b) = digest E (ser_header (cdc E) (header (record_pdu E n t hashes b)))"
  by (simp add: record_pdu_def Let_def)

lemma length_record_name: "sha_ok (ossl E) \<Longrightarrow> length (header_hash (record_pdu E n t hashes b)) = 32"
  by (simp add: record_pdu_name length_digest)

lemma record_name_nonempty: "sha_ok (ossl E) \<Longrightarrow> header_hash (record_pdu E n t hashes b) \<noteq> []"
  using length_record_name [of E n t hashes b] by auto

lemma record_pdu_ascii: "env_ok E \<Longrightarrow> pdu_ascii (record_pdu E n t hashes b)"
  by (simp add: pdu_ascii_def env_ok_def ascii_record_type reply_addr_def to_string_5001)
     (simp add: ascii_def)

lemma record_pdu_bound:
  assumes "env_ok E" and "\<forall>h \<in> set hashes. length h \<le> 32"
  shows "length (ser_pdu (cdc E) (record_pdu E n t hashes b)) \<le> 271 + 38 * length hashes + length b"
proof -
  have "sum_list (map (\<lambda>h. 6 + length h) hashes) \<le> 38 * length hashes"
    using assms(2) by (induction hashes) auto
  then have "pdu_bound (record_pdu E n t hashes b) \<le> 271 + 38 * length hashes + length b"
    using assms(1) length_record_type [of t]
    by (simp add: pdu_bound_def env_ok_def length_record_name length_digest reply_addr_def to_string_5001)
  then show ?thesis
    using ser_pdu_bound [OF env_okD(1) [OF assms(1)], of "record_pdu E n t hashes b"] by linarith
qed

lemma record_pdu_parse:
  assumes "env_ok E" and "\<forall>h \<in> set hashes. length h \<le> 32" and "length hashes \<le> 2" and "length b < 2 ^ 30"
  shows "parse_pdu (cdc E) (ser_pdu (cdc E) (record_pdu E n t hashes b)) = record_pdu E n t hashes b"
proof (rule parse_ser_pdu [OF env_okD(1) [OF assms(1)] record_pdu_ascii [OF assms(1)]])
  show "length (ser_pdu (cdc E) (record_pdu E n t hashes b)) \<le> 271 + 38 * 2 + 2 ^ 30"
    using record_pdu_bound [OF assms(1,2), of n t b] assms(3,4) by (auto intro: order_trans)
qed simp

lemma data_chain_length [simp]: "length (data_chain E n link bs) = length bs"
  by (induction bs arbitrary: n link) (simp_all add: Let_def)

lemma data_chain_Nil_iff [simp]: "data_chain E n link bs = [] \<longleftrightarrow> bs = []"
  by (metis data_chain_length length_0_conv)

lemma data_chain_nth:
  "i < length bs \<Longrightarrow> data_chain E n link bs ! i =
     record_pdu E (n + i) DATABLOCK [if i = 0 then link else header_hash (data_chain E n link bs ! (i - 1))] (bs ! i)"
proof (induction bs arbitrary: n link i)
  case (Cons b bs)
  show ?case
  proof (cases i)
    case (Suc j)
    with Cons.IH [of j "Suc n"] Cons.prems show ?thesis by (cases j) (simp_all add: Let_def)
  qed (simp add: Let_def)
qed simp

lemma data_chain_payloads: "map payload_in_transit (data_chain E n link bs) = bs"
  by (induction bs arbitrary: n link) (simp_all add: Let_def)

lemma data_chain_name_length:
  "sha_ok (ossl E) \<Longrightarrow> p \<in> set (data_chain E n link bs) \<Longrightarrow> length (header_hash p) = 32"
  by (induction bs arbitrary: n link) (auto simp: Let_def length_record_name)

lemma batch_records_shape:
  assumes "i < length bs + 2"
  shows "\<exists>t hs b. batch_records E n link f1 f2 old sealed bs ! i = record_pdu E (n + i) t hs b"
proof -
  consider "i < length bs" | "i = length bs" | "i = Suc (length bs)" using assms by linarith
  then show ?thesis
  proof cases
    case 1
    then have "batch_records E n link f1 f2 old sealed bs ! i = data_chain E n link bs ! i"
      by (simp add: batch_records_def Let_def nth_append)
    then show ?thesis using data_chain_nth [OF 1, of E n link] by auto
  qed (auto simp: batch_records_def Let_def nth_append blockmap_pdu_def inode_pdu_def)
qed

lemma batch_records_length [simp]: "length (batch_records E n link f1 f2 old sealed bs) = length bs + 2"
  by (simp add: batch_records_def Let_def)

text \<open>In the concrete environment a record's name shows the clock reading it was composed at.\<close>

lemma sample_name:
  "header_hash (record_pdu sample_env n t hs b) = header_hash (record_pdu sample_env n' t' hs' b')
   \<Longrightarrow> (of_nat n :: 64 word) = of_nat n'"
proof -
  assume eq: "header_hash (record_pdu sample_env n t hs b) = header_hash (record_pdu sample_env n' t' hs' b')"
  have name: "take 8 (tl (header_hash (record_pdu sample_env n t hs b))) = u64_bytes (of_nat n)" for n t hs b
    by (simp add: record_pdu_name digest_def record_pdu_def Let_def sample_env_def sample_openssl_def
        sample_digest_def sample_codec_def sample_ser_header_def put_int_def record_header_def min_def)
  then have "bytes_u64 (u64_bytes (of_nat n)) = bytes_u64 (u64_bytes (of_nat n'))"
    using name [of n t hs b] name [of n' t' hs' b'] eq by simp
  then show ?thesis by simp
qed

lemma sample_batch_distinct:
  assumes "n + length bs + 2 < 2 ^ 64"
  shows "distinct (map header_hash (batch_records sample_env n link f1 f2 old sealed bs))"
proof -
  let ?r = "batch_records sample_env n link f1 f2 old sealed bs"
  have "i = j" if a: "i < length bs + 2" "j < length bs + 2" "header_hash (?r ! i) = header_hash (?r ! j)" for i j
  proof -
    obtain t hs b where i: "?r ! i = record_pdu sample_env (n + i) t hs b"
      using batch_records_shape [OF a(1)] by blast
    obtain t' hs' b' where j: "?r ! j = record_pdu sample_env (n + j) t' hs' b'"
      using batch_records_shape [OF a(2)] by blast
    have eq: "(of_nat (n + i) :: 64 word) = of_nat (n + j)"
      using a(3) unfolding i j by (rule sample_name)
    have "unat (of_nat (n + i) :: 64 word) = n + i" "unat (of_nat (n + j) :: 64 word) = n + j"
      using assms a by (auto simp: unat_of_nat simp del: of_nat_add)
    then show ?thesis using eq by (metis add_left_cancel)
  qed
  then show ?thesis by (auto simp: distinct_conv_nth)
qed

section \<open>The loops of a batch\<close>

lemma split_hashes_concat:
  "\<forall>h \<in> set hs. length h = 32 \<Longrightarrow> split_hashes (concat hs) = Ret hs"
proof (induction hs)
  case Nil
  show ?case by (simp add: split_hashes.simps)
next
  case (Cons h hs)
  then have "split_hashes (concat hs) = Ret hs" "length h = 32" "h \<noteq> []" by auto
  then show ?case
    by (subst split_hashes.simps) (simp add: cread_def c_str_def)
qed

lemma Modify_place_zero: "Modify_place 0 hashes blocks = Ret (hashes @ map snd blocks)"
  by (induction blocks arbitrary: hashes) auto

lemma read_hash_names:
  assumes "\<forall>h \<in> set hs. length h = 32"
  shows "mapO (\<lambda>h. cread (c_str h) 0 32) hs = Ret hs"
  using assms by (induction hs) (simp_all add: cread_c_str)

lemma desc_bytes_whole: "desc_bytes \<lparr>buf = b, desc_size = length b, file_offset = off\<rparr> = Ret b"
  by (simp add: desc_bytes_def cread_all)

lemma length_concat_hashes: "\<forall>h \<in> set hs. length h = 32 \<Longrightarrow> length (concat hs) = 32 * length hs"
  by (induction hs) auto

lemma sealed_key_length:
  assumes "env_ok E" and "length mkey = 16" and "length key = 16"
  shows "length (sealed_key E mkey key) = 32"
    and "decrypt_symmetric (ossl E) mkey None (sealed_key E mkey key) = (1, Some key)"
proof -
  obtain c where "encrypt_symmetric (ossl E) mkey None key = (1, Some c)" "length c = 32"
    "decrypt_symmetric (ossl E) mkey None c = (1, Some key)"
    using aes_okE [OF env_okD(3) [OF assms(1)] assms(2), of None key] assms(3) by (auto simp: pad_len_def)
  then show "length (sealed_key E mkey key) = 32"
    "decrypt_symmetric (ossl E) mkey None (sealed_key E mkey key) = (1, Some key)"
    by (simp_all add: sealed_key_def)
qed

lemma Modify_load_first:
  "16 \<le> length aes_key \<Longrightarrow> Modify_load E srv s dc [] aes_key =
     Ret (NO_ERR, \<lparr>isize = 0, blockmap_hash = [], ino_key = take 16 aes_key\<rparr>,
          \<lparr>data_hashes = [], hash_to_latest_data_block = []\<rparr>, s)"
  by (simp add: Modify_load_def cread_c_str)

context record_store
begin

text \<open>What a state gains from writing the records \<open>ps\<close> of capsule \<open>dc\<close>, and what it keeps.\<close>

definition extends :: "env \<Rightarrow> string \<Rightarrow> 's \<Rightarrow> capsule_pdu list \<Rightarrow> 's \<Rightarrow> bool" where
  "extends E dc s ps s' \<longleftrightarrow>
     inv s' \<and> known s' dc \<and> (\<forall>c. known s c \<longrightarrow> known s' c) \<and>
     (\<forall>p \<in> set ps. lookup s' dc (header_hash p) = Some (ser_pdu (cdc E) p)) \<and>
     (\<forall>c r. r \<notin> header_hash ` set ps \<longrightarrow> lookup s' c r = lookup s c r) \<and>
     (\<forall>r. r \<notin> header_hash ` set ps \<longrightarrow> fresh s r \<longrightarrow> fresh s' r)"

definition writable :: "env \<Rightarrow> 's \<Rightarrow> capsule_pdu list \<Rightarrow> bool" where
  "writable E s ps \<longleftrightarrow> distinct (map header_hash ps) \<and>
     (\<forall>p \<in> set ps. fresh s (header_hash p) \<and> wvalid (header_hash p) (ser_pdu (cdc E) p))"

lemma extends_refl: "inv s \<Longrightarrow> known s dc \<Longrightarrow> extends E dc s [] s"
  by (simp add: extends_def)

lemma extends_trans:
  assumes "extends E dc s ps s'" and "extends E dc s' qs s''"
    and "\<forall>p \<in> set ps. header_hash p \<notin> header_hash ` set qs"
  shows "extends E dc s (ps @ qs) s''"
  using assms unfolding extends_def by (auto simp: image_Un)

lemma writable_append:
  assumes "writable E s (ps @ qs)" and "extends E dc s ps s'"
  shows "writable E s' qs" and "\<forall>p \<in> set ps. header_hash p \<notin> header_hash ` set qs"
proof -
  show d: "\<forall>p \<in> set ps. header_hash p \<notin> header_hash ` set qs"
    using assms(1) unfolding writable_def by auto
  have "fresh s' (header_hash q)" if "q \<in> set qs" for q
  proof -
    have "header_hash q \<notin> header_hash ` set ps" using d that by (metis image_iff)
    with that assms show ?thesis unfolding writable_def extends_def by auto
  qed
  with assms(1) show "writable E s' qs" unfolding writable_def by auto
qed

lemma write_one:
  assumes "inv s" and "known s dc" and "writable E s [p]"
  shows "\<exists>s'. WriteRecord srv s dc (header_hash p) (ser_pdu (cdc E) p) = Ret (NO_ERR, s') \<and> extends E dc s [p] s'"
  using write_stores [of s dc "header_hash p" "ser_pdu (cdc E) p"] assms
  unfolding extends_def writable_def by auto

lemma push_data:
  assumes "env_ok E" and "inv s" and "known s dc"
    and "list_all2 (\<lambda>d b. desc_bytes d = Ret b) ds bs"
    and "link = (if prev = [] then if latest \<noteq> [] then latest else dc else prev)"
    and "writable E s (data_chain E n link bs)"
  shows "\<exists>s'. Modify_push_data E srv dc latest n prev s ds =
      Ret (NO_ERR, zip (map file_offset ds) (map header_hash (data_chain E n link bs)), n + length ds, s')
      \<and> extends E dc s (data_chain E n link bs) s'"
  using assms(4,2,3,5,6)
proof (induction ds bs arbitrary: n prev link s rule: list_all2_induct)
  case Nil
  then show ?case by (simp add: extends_refl)
next
  case (Cons d ds b bs)
  let ?p = "record_pdu E n DATABLOCK [link] b"
  let ?rest = "data_chain E (Suc n) (header_hash ?p) bs"
  have w: "writable E s ([?p] @ ?rest)"
    using Cons.prems(4) by (simp add: Let_def)
  then have "writable E s [?p]" by (simp add: writable_def)
  then obtain s1 where s1: "WriteRecord srv s dc (header_hash ?p) (ser_pdu (cdc E) ?p) = Ret (NO_ERR, s1)"
    and e1: "extends E dc s [?p] s1"
    using write_one Cons.prems(1,2) by blast
  note w1 = writable_append [OF w e1]
  have "header_hash ?p \<noteq> []" by (rule record_name_nonempty [OF env_okD(2) [OF assms(1)]])
  then obtain s2 where s2: "Modify_push_data E srv dc latest (Suc n) (header_hash ?p) s1 ds =
      Ret (NO_ERR, zip (map file_offset ds) (map header_hash ?rest), Suc n + length ds, s2)"
    and e2: "extends E dc s1 ?rest s2"
    using Cons.IH [of s1 "header_hash ?p" "header_hash ?p" "Suc n"] e1 w1(1)
    by (auto simp: extends_def)
  have "extends E dc s ([?p] @ ?rest) s2" by (rule extends_trans [OF e1 e2 w1(2)])
  moreover have "composeRecord E n DATABLOCK [link] (Some d) = Ret (NO_ERR, ser_pdu (cdc E) ?p, header_hash ?p)"
    by (rule composeRecord_eq [OF env_okD(2) [OF assms(1)] Cons.hyps(1)])
  ultimately show ?case
    using s1 s2 Cons.prems(3) by (simp add: Let_def)
qed

lemma push_blockmap:
  assumes "env_ok E" and "inv s" and "known s dc" and "blocks \<noteq> []" and "isize ino = 0"
    and "\<forall>h \<in> set (data_hashes bm). length h = 32" and "\<forall>h \<in> set (map snd blocks). length h = 32"
    and "first = (if blockmap_hash ino \<noteq> [] then blockmap_hash ino else dc)"
    and "p = blockmap_pdu E n first (data_hashes bm) (map snd blocks)" and "writable E s [p]"
  shows "\<exists>s'. Modify_push_blockmap E srv dc n s ino bm blocks = Ret (NO_ERR, header_hash p, s') \<and>
           extends E dc s [p] s'"
proof -
  let ?hs = "data_hashes bm @ map snd blocks"
  have len: "\<forall>h \<in> set ?hs. length h = 32" using assms(6,7) by auto
  have size: "length (concat ?hs) = length ?hs * 32"
    using length_concat_hashes [OF len] by simp
  obtain s' where w: "WriteRecord srv s dc (header_hash p) (ser_pdu (cdc E) p) = Ret (NO_ERR, s')"
    "extends E dc s [p] s'" using write_one assms(2,3,10) by blast
  have "composeRecord E n BLOCKMAP [first, snd (last blocks)]
      (Some \<lparr>buf = concat ?hs, desc_size = length ?hs * 32, file_offset = 0\<rparr>)
      = Ret (NO_ERR, ser_pdu (cdc E) p, header_hash p)"
    unfolding size [symmetric] assms(9) blockmap_pdu_def
    by (subst composeRecord_eq [OF env_okD(2) [OF assms(1)] desc_bytes_whole])
       (simp add: last_map [OF assms(4)])
  then show ?thesis
    using w assms(4,5,8) read_hash_names [OF len]
    by (simp add: Modify_push_blockmap_def Modify_place_zero Let_def)
qed

lemma push_inode:
  assumes "env_ok E" and "inv s" and "known s dc" and "isize ino = 0"
    and "length (symmetric_middleware_key m) = 16" and "length (ino_key ino) = 16"
    and "first = (if latest \<noteq> [] then latest else dc)"
    and "p = inode_pdu E n first bm_name k (sealed_key E (symmetric_middleware_key m) (ino_key ino))"
    and "writable E s [p]"
  shows "\<exists>s'. Modify_push_inode E srv m dc n s ino latest bm_name k = Ret (NO_ERR, header_hash p, s') \<and>
           extends E dc s [p] s'"
proof -
  obtain c where c: "encrypt_symmetric (ossl E) (symmetric_middleware_key m) None (ino_key ino) = (1, Some c)"
    "length c = 32"
    using aes_okE [OF env_okD(3) [OF assms(1)] assms(5), of None "ino_key ino"] assms(6)
    by (auto simp: pad_len_def)
  then have sealed: "sealed_key E (symmetric_middleware_key m) (ino_key ino) = c"
    by (simp add: sealed_key_def)
  obtain s' where w: "WriteRecord srv s dc (header_hash p) (ser_pdu (cdc E) p) = Ret (NO_ERR, s')"
    "extends E dc s [p] s'" using write_one assms(2,3,9) by blast
  have "desc_bytes \<lparr>buf = u64_bytes sz @ c, desc_size = 40, file_offset = 0\<rparr> = Ret (u64_bytes sz @ c)" for sz
    using desc_bytes_whole [of "u64_bytes sz @ c" 0] c(2) by simp
  from composeRecord_eq [OF env_okD(2) [OF assms(1)] this]
  show ?thesis
    using w c assms(4,7,8) sealed by (simp add: Modify_push_inode_def Let_def inode_pdu_def)
qed

lemma modify_batch:
  assumes E: "env_ok E" and args: "signed_args dc descs latest aes_key = Ret args"
    and sig: "verify (ossl E) (no_sign E) (mid_client_key_pair m) (Some (digest E args)) sig = Ret True"
    and idx: "mid_index m dc = Some latest" and key: "length (symmetric_middleware_key m) = 16"
    and load: "Modify_load E srv s dc latest aes_key = Ret (NO_ERR, ino, bm, s1)"
    and s1: "inv s1" "known s1 dc" and ino: "isize ino = 0" "length (ino_key ino) = 16"
    and bm: "\<forall>h \<in> set (data_hashes bm). length h = 32"
    and descs: "list_all2 (\<lambda>d b. desc_bytes d = Ret b) descs bs" "descs \<noteq> []"
    and recs: "recs = batch_records E (mid_tick m)
      (if hash_to_latest_data_block bm \<noteq> [] then hash_to_latest_data_block bm else dc)
      (if blockmap_hash ino \<noteq> [] then blockmap_hash ino else dc) (if latest \<noteq> [] then latest else dc)
      (data_hashes bm) (sealed_key E (symmetric_middleware_key m) (ino_key ino)) bs"
    and w: "writable E s1 recs"
  shows "\<exists>s'. Modify E srv m s dc descs latest aes_key sig =
      Ret (NO_ERR, m\<lparr>mid_index := (mid_index m)(dc \<mapsto> header_hash (last recs)),
                     mid_tick := mid_tick m + length descs + 2\<rparr>, s') \<and> extends E dc s1 recs s'"
proof -
  let ?n = "mid_tick m" and ?k = "length descs"
  define link where "link = (if hash_to_latest_data_block bm \<noteq> [] then hash_to_latest_data_block bm else dc)"
  define ch where "ch = data_chain E ?n link bs"
  define bmf where "bmf = (if blockmap_hash ino \<noteq> [] then blockmap_hash ino else dc)"
  define blocks where "blocks = zip (map file_offset descs) (map header_hash ch)"
  define bmp where "bmp = blockmap_pdu E (?n + ?k) bmf (data_hashes bm) (map header_hash ch)"
  define inop where "inop = inode_pdu E (Suc (?n + ?k)) (if latest \<noteq> [] then latest else dc) (header_hash bmp) ?k
      (sealed_key E (symmetric_middleware_key m) (ino_key ino))"
  have k: "length bs = ?k" using descs(1) by (simp add: list_all2_lengthD)
  have r: "recs = ch @ [bmp] @ [inop]"
    by (simp add: recs batch_records_def Let_def ch_def bmp_def inop_def link_def bmf_def k)
  have names: "map snd blocks = map header_hash ch" and ne: "blocks \<noteq> []"
    using k descs(2) by (auto simp: blocks_def ch_def)
  obtain s2 where s2: "Modify_push_data E srv dc (hash_to_latest_data_block bm) ?n [] s1 descs
      = Ret (NO_ERR, blocks, ?n + ?k, s2)" and e2: "extends E dc s1 ch s2"
    using push_data [OF E s1 descs(1), of link "[]" "hash_to_latest_data_block bm" ?n] w
    by (auto simp: r writable_def link_def ch_def blocks_def)
  note w2 = writable_append [OF w [unfolded r] e2]
  obtain s3 where s3: "Modify_push_blockmap E srv dc (?n + ?k) s2 ino bm blocks = Ret (NO_ERR, header_hash bmp, s3)"
    and e3: "extends E dc s2 [bmp] s3"
    using push_blockmap [OF E _ _ ne ino(1) bm _ bmf_def, of s2 bmp "?n + ?k"] e2 w2(1) names
      data_chain_name_length [OF env_okD(2) [OF E]]
    by (auto simp: extends_def writable_def ch_def bmp_def)
  note w3 = writable_append [OF w2(1) e3]
  have i3: "inv s3" "known s3 dc" using e3 by (simp_all add: extends_def)
  have "\<exists>s4. Modify_push_inode E srv m dc (Suc (?n + ?k)) s3 ino latest
      (header_hash bmp) ?k = Ret (NO_ERR, header_hash inop, s4) \<and> extends E dc s3 [inop] s4"
    by (rule push_inode [OF E i3 ino(1) _ ino(2) refl _ w3(1)]) (simp_all add: key inop_def)
  then obtain s4 where s4: "Modify_push_inode E srv m dc (Suc (?n + ?k)) s3 ino latest
      (header_hash bmp) ?k = Ret (NO_ERR, header_hash inop, s4)" and e4: "extends E dc s3 [inop] s4" by blast
  have "extends E dc s1 recs s4"
    unfolding r by (rule extends_trans [OF e2 extends_trans [OF e3 e4 w3(2)] w2(2)])
  moreover have "m\<lparr>mid_index := (mid_index m)(dc \<mapsto> latest)\<rparr> = m" using idx by (simp add: fun_upd_idem)
  ultimately show ?thesis
    using load s2 s3 s4 sig
    by (simp add: Modify_def Modify_write_def args digest_eq [OF env_okD(2) [OF E]] idx Let_def r)
qed

lemma Modify_load_next:
  assumes "env_ok E" and "inv s" and "latest \<noteq> []"
    and ip: "ip = inode_pdu E n f bmn k sealed" and bp: "bp = blockmap_pdu E n' f' old names"
    and l1: "lookup s dc latest = Some (ser_pdu (cdc E) ip)" "rvalid latest (ser_pdu (cdc E) ip)"
    and l2: "lookup s dc bmn = Some (ser_pdu (cdc E) bp)" "rvalid bmn (ser_pdu (cdc E) bp)"
    and sz: "length sealed = 32" "length f = 32" "length bmn = 32" "length f' = 32" "names \<noteq> []"
    and hs: "\<forall>h \<in> set (old @ names). length h = 32" and cover: "length (old @ names) \<le> 512"
  shows "\<exists>s'. Modify_load E srv s dc latest aes_key =
      Ret (NO_ERR, \<lparr>isize = 0, blockmap_hash = bmn, ino_key = take 16 sealed\<rparr>,
        \<lparr>data_hashes = old @ names, hash_to_latest_data_block = last names\<rparr>, s')
      \<and> inv s' \<and> lookup s' = lookup s \<and> known s' = known s \<and> fresh s' = fresh s"
proof -
  have last: "length (last names) = 32" using hs sz(5) by simp
  have cat: "length (concat (old @ names)) \<le> 32 * 512"
    using length_concat_hashes [OF hs] cover by simp
  have len1: "length (ser_pdu (cdc E) ip) \<le> 1024"
    using record_pdu_bound [OF assms(1), of "[f, bmn]" n INODE "u64_bytes (of_nat k * 16 * 1024) @ sealed"] sz
    by (simp add: ip inode_pdu_def)
  have len2: "length (ser_pdu (cdc E) bp) \<le> 1024 + 32 * 512"
    using record_pdu_bound [OF assms(1), of "[f', last names]" n' BLOCKMAP "concat (old @ names)"] sz last cat
    by (simp add: bp blockmap_pdu_def)
  have p1: "parse_pdu (cdc E) (ser_pdu (cdc E) ip) = ip"
    unfolding ip inode_pdu_def by (rule record_pdu_parse [OF assms(1)]) (use sz in auto)
  have p2: "parse_pdu (cdc E) (ser_pdu (cdc E) bp) = bp"
    unfolding bp blockmap_pdu_def by (rule record_pdu_parse [OF assms(1)]) (use sz last cat in auto)
  obtain s1 where r1: "ReadRecord srv s dc latest 1024 = Ret (NO_ERR, ser_pdu (cdc E) ip, s1)" "inv s1"
    "lookup s1 = lookup s" "known s1 = known s" "fresh s1 = fresh s"
    using read_returns [OF assms(2) l1 len1] by blast
  obtain s2 where r2: "ReadRecord srv s1 dc bmn (1024 + 32 * 512) = Ret (NO_ERR, ser_pdu (cdc E) bp, s2)" "inv s2"
    "lookup s2 = lookup s" "known s2 = known s" "fresh s2 = fresh s"
    using read_returns [OF r1(2) _ l2(2) len2, of dc] l2(1) r1(3-5) by auto
  have key: "cread (c_str (u64_bytes sz' @ sealed)) 8 16 = Ret (take 16 sealed)" for sz'
    using sz(1) by (simp add: cread_c_str)
  show ?thesis
    using r1 r2 p1 p2 key assms(3) split_hashes_concat [OF hs]
    by (simp add: Modify_load_def Let_def ip bp inode_pdu_def blockmap_pdu_def vec_at_def)
qed

end

section \<open>On the simulated server, and in general\<close>

lemma composed_ok:
  "env_ok E \<Longrightarrow> composeRecord E n META [] None = Ret (rc, out, name) \<Longrightarrow> rc = NO_ERR \<and> length name = 32"
  by (auto simp: composeRecord_def digest_eq [OF env_okD(2)] Let_def length_digest [OF env_okD(2)])

lemma push_data_tick:
  "Modify_push_data E srv dc latest n prev s ds = Ret (rc, blocks, n', s') \<Longrightarrow> n \<le> n'"
proof (induction ds arbitrary: latest n prev s blocks rc n' s')
  case (Cons d ds)
  from Cons.prems show ?case
    by (auto simp: outcome_simps Let_def split: if_splits prod.splits dest!: Cons.IH)
qed simp

text \<open>Composing does not return an error: its failures overwrite the stack.\<close>

lemma composeRecord_code: "composeRecord E n t hs desc = Ret (rc, out, name) \<Longrightarrow> rc = NO_ERR"
  by (auto simp: composeRecord_def hash256_def Let_def outcome_simps split: option.splits)

lemma all_written_append:
  "all_written srv dc s (ws @ ws') s' \<longleftrightarrow> (\<exists>s1. all_written srv dc s ws s1 \<and> all_written srv dc s1 ws' s')"
  by (induction ws arbitrary: s) (auto split: outcome.splits)

lemma refused_after_append:
  "all_written srv dc s ws s1 \<Longrightarrow> refused_after srv dc s1 ws' rc s' \<Longrightarrow> refused_after srv dc s (ws @ ws') rc s'"
  unfolding refused_after_def all_written_append by blast

lemma refused_first: "WriteRecord srv s dc name out = Ret (rc, s') \<Longrightarrow> rc < 0 \<Longrightarrow> refused_after srv dc s [] rc s'"
  by (auto simp: refused_after_def)

text \<open>Each part of \<open>Modify\<close> stops at the first record that the server refuses, with the server's code.\<close>

lemma push_data_writes:
  assumes "Modify_push_data E srv dc latest n prev s ds = Ret (rc, blocks, n', s')"
  shows "\<exists>ws. if rc < 0 then refused_after srv dc s ws rc s' \<and> length ws < length ds
    else rc = NO_ERR \<and> all_written srv dc s ws s' \<and> length ws = length ds"
  using assms
proof (induction ds arbitrary: n prev s blocks)
  case (Cons d ds)
  from Cons.prems obtain out name r s1 where w: "WriteRecord srv s dc name out = Ret (r, s1)"
    and rest: "(if r < 0 then Ret (r, [], Suc n, s1) else bindO (Modify_push_data E srv dc latest (Suc n) name s1 ds)
      (\<lambda>(ret, bl, n', s2). Ret (ret, (file_offset d, name) # bl, n', s2))) = Ret (rc, blocks, n', s')"
    by (auto simp: Let_def dest!: composeRecord_code elim!: bindO_RetE)
  show ?case
  proof (cases "r < 0")
    case True
    then show ?thesis using rest refused_first [OF w] by (intro exI [of _ "[]"]) auto
  next
    case False
    then obtain bl where "Modify_push_data E srv dc latest (Suc n) name s1 ds = Ret (rc, bl, n', s')"
      using rest by (auto elim!: bindO_RetE)
    from Cons.IH [OF this] obtain ws where ws: "if rc < 0 then refused_after srv dc s1 ws rc s' \<and> length ws < length ds
      else rc = NO_ERR \<and> all_written srv dc s1 ws s' \<and> length ws = length ds" by blast
    have "all_written srv dc s [(name, out)] s1" using w False by simp
    then show ?thesis using ws w False refused_after_append [of srv dc s "[(name, out)]" s1 ws rc s']
      by (intro exI [of _ "(name, out) # ws"]) (auto split: if_splits)
  qed
qed simp

lemma push_one_writes:
  assumes "composeRecord E n t hs desc = Ret x"
    and "(case x of (ret, out, name) \<Rightarrow> if ret < 0 then Ret (ret, [], s)
      else bindO (WriteRecord srv s dc name out) (\<lambda>(ret, s'). if ret < 0 then Ret (ret, [], s') else Ret (NO_ERR, name, s')))
    = Ret (rc, name, s')"
  shows "if rc < 0 then refused_after srv dc s [] rc s' else rc = NO_ERR \<and> (\<exists>out. all_written srv dc s [(name, out)] s')"
  using assms by (cases x) (auto dest!: composeRecord_code elim!: bindO_RetE intro!: refused_first exI [of _ "fst (snd x)"] split: if_splits)

lemma push_blockmap_writes:
  assumes "Modify_push_blockmap E srv dc n s ino bm blocks = Ret (rc, name, s')"
  shows "if rc < 0 then refused_after srv dc s [] rc s' else rc = NO_ERR \<and> (\<exists>out. all_written srv dc s [(name, out)] s')"
  using assms unfolding Modify_push_blockmap_def Let_def by (elim bindO_RetE) (rule push_one_writes, assumption+)

lemma push_inode_writes:
  assumes "Modify_push_inode E srv m dc n s ino latest bm_name k = Ret (rc, name, s')"
  shows "if rc < 0 then refused_after srv dc s [] rc s' else rc = NO_ERR \<and> (\<exists>out. all_written srv dc s [(name, out)] s')"
  using assms unfolding Modify_push_inode_def Let_def by (elim bindO_RetE) (rule push_one_writes, assumption+)

lemma Modify_load_code: "Modify_load E srv s dc latest key = Ret (rc, ino, bm, s') \<Longrightarrow> rc < 0 \<or> rc = NO_ERR"
  by (auto simp: Modify_load_def Let_def split: if_splits elim!: bindO_RetE)

lemma Modify_write_writes:
  assumes "Modify_write E srv m s dc latest descs ino bm = Ret (rc, m', s')"
  shows "\<exists>ws. if rc = NO_ERR
    then all_written srv dc s ws s' \<and> length ws = length descs + 2 \<and> mid_index m' = (mid_index m)(dc \<mapsto> fst (last ws))
    else refused_after srv dc s ws rc s' \<and> length ws < length descs + 2"
proof -
  obtain r1 blocks n s1 where d: "Modify_push_data E srv dc (hash_to_latest_data_block bm) (mid_tick m) [] s descs = Ret (r1, blocks, n, s1)"
    using assms unfolding Modify_write_def by (elim bindO_RetE) auto
  from push_data_writes [OF d] obtain ws1 where ws1: "if r1 < 0 then refused_after srv dc s ws1 r1 s1 \<and> length ws1 < length descs
    else all_written srv dc s ws1 s1 \<and> length ws1 = length descs" by (auto split: if_splits)
  show ?thesis
  proof (cases "r1 < 0")
    case True
    then show ?thesis using assms ws1 by (intro exI [of _ ws1]) (simp add: Modify_write_def d)
  next
    case f1: False
    obtain r2 bmn s2 where b: "Modify_push_blockmap E srv dc n s1 ino bm blocks = Ret (r2, bmn, s2)"
      using assms f1 by (auto simp: Modify_write_def d elim!: bindO_RetE)
    note w2 = push_blockmap_writes [OF b]
    show ?thesis
    proof (cases "r2 < 0")
      case True
      then show ?thesis using assms ws1 f1 w2 refused_after_append [of srv dc s ws1 s1 "[]"]
        by (intro exI [of _ ws1]) (auto simp: Modify_write_def d b)
    next
      case f2: False
      obtain r3 name s3 where i: "Modify_push_inode E srv m dc (Suc n) s2 ino latest bmn (length descs) = Ret (r3, name, s3)"
        using assms f1 f2 by (auto simp: Modify_write_def d b elim!: bindO_RetE)
      obtain out2 where a2: "all_written srv dc s (ws1 @ [(bmn, out2)]) s2"
        using w2 f1 f2 ws1 by (auto simp only: all_written_append if_False)
      show ?thesis
      proof (cases "r3 < 0")
        case True
        then show ?thesis using assms ws1 f1 f2 push_inode_writes [OF i] refused_after_append [OF a2, of "[]"]
          by (intro exI [of _ "ws1 @ [(bmn, out2)]"]) (auto simp: Modify_write_def d b i)
      next
        case False
        then obtain out3 where "all_written srv dc s ((ws1 @ [(bmn, out2)]) @ [(name, out3)]) s3"
          using push_inode_writes [OF i] a2 by (auto simp only: all_written_append if_False)
        then show ?thesis using assms ws1 f1 f2 False
          by (intro exI [of _ "(ws1 @ [(bmn, out2)]) @ [(name, out3)]"]) (auto simp: Modify_write_def d b i)
      qed
    qed
  qed
qed

lemma Modify_write_state:
  assumes "Modify_write E srv m s dc latest descs ino bm = Ret (rc, m', s')"
  shows "(\<forall>c. c \<noteq> dc \<longrightarrow> mid_index m' c = mid_index m c) \<and> (rc \<noteq> NO_ERR \<longrightarrow> mid_index m' = mid_index m) \<and>
         symmetric_middleware_key m' = symmetric_middleware_key m \<and> mid_tick m \<le> mid_tick m'"
proof -
  from assms obtain r1 blocks n s1 where
    d: "Modify_push_data E srv dc (hash_to_latest_data_block bm) (mid_tick m) [] s descs = Ret (r1, blocks, n, s1)"
    and rest: "(if r1 < 0 then Ret (r1, m\<lparr>mid_tick := n\<rparr>, s1)
      else bindO (Modify_push_blockmap E srv dc n s1 ino bm blocks) (\<lambda>(ret, bm_name, s2).
     if ret < 0 then Ret (ret, m\<lparr>mid_tick := Suc n\<rparr>, s2)
     else bindO (Modify_push_inode E srv m dc (Suc n) s2 ino latest bm_name (length descs))
       (\<lambda>(ret, ino_name, s3).
     if ret < 0 then Ret (ret, m\<lparr>mid_tick := Suc (Suc n)\<rparr>, s3)
     else Ret (NO_ERR, m\<lparr>mid_tick := Suc (Suc n), mid_index := (mid_index m)(dc \<mapsto> ino_name)\<rparr>, s3))))
     = Ret (rc, m', s')"
    unfolding Modify_write_def by (elim bindO_RetE) auto
  from rest push_data_tick [OF d] show ?thesis
    by (auto split: if_splits prod.splits elim!: bindO_RetE)
qed

lemma Modify_index:
  assumes "Modify E srv m s dc descs ih key sig = Ret (rc, m', s')"
  shows "(\<forall>c. c \<noteq> dc \<longrightarrow> mid_index m' c = mid_index m c) \<and>
         (rc \<noteq> NO_ERR \<longrightarrow> mid_index m' dc = mid_index m dc \<or> (mid_index m dc = None \<and> mid_index m' dc = Some [])) \<and>
         symmetric_middleware_key m' = symmetric_middleware_key m \<and> mid_tick m \<le> mid_tick m'"
proof -
  let ?latest = "case mid_index m dc of None \<Rightarrow> [] | Some l \<Rightarrow> l"
  let ?m1 = "m\<lparr>mid_index := (mid_index m)(dc \<mapsto> ?latest)\<rparr>"
  from assms have "m' = m \<or> (rc \<noteq> NO_ERR \<and> m' = ?m1) \<or>
      (\<exists>s1 ino bm. Modify_write E srv ?m1 s1 dc ?latest descs ino bm = Ret (rc, m', s'))"
    unfolding Modify_def Let_def by (elim bindO_RetE) (auto split: if_splits prod.splits elim!: bindO_RetE)
  then show ?thesis
    by (auto dest!: Modify_write_state split: option.splits)
qed

lemma Modify_accepted:
  assumes "Modify E srv m s dc descs ih key sig = Ret (NO_ERR, m', s')"
  shows "ih = (case mid_index m dc of None \<Rightarrow> [] | Some l \<Rightarrow> l)"
  using assms unfolding Modify_def Let_def by (elim bindO_RetE) (auto split: if_splits elim!: bindO_RetE)

lemma signed_args_eq:
  "list_all2 (\<lambda>d b. desc_bytes d = Ret b) descs bs \<Longrightarrow> signed_args dc descs ih key = Ret (dc @ concat bs @ ih @ key)"
  by (simp add: signed_args_def mapO_Ret_iff [THEN iffD2])

lemma Modify_refused:
  assumes "env_ok E" and "signed_args dc descs ih key = Ret args"
    and "verify (ossl E) (no_sign E) (mid_client_key_pair m) (Some (digest E args)) sig = Ret ok"
  shows "(\<not> ok \<longrightarrow> Modify E srv m s dc descs ih key sig = Ret (ERR_VERIFY, m, s)) \<and>
    (ok \<and> mid_index m dc = Some latest \<and> ih \<noteq> latest \<longrightarrow>
       Modify E srv m s dc descs ih key sig = Ret (-1, m, s))"
  using assms(2,3)
  by (auto simp: Modify_def digest_eq [OF env_okD(2) [OF assms(1)]] Let_def fun_upd_idem)

lemma batch_record:
  assumes "p \<in> set (batch_records E n link f1 f2 old sealed bs)"
  obtains k t hs d where "p = record_pdu E k t hs d"
proof -
  from assms obtain i where "i < length bs + 2" "p = batch_records E n link f1 f2 old sealed bs ! i"
    by (metis batch_records_length in_set_conv_nth)
  then show thesis using batch_records_shape that by metis
qed

lemma batch_name_nonempty:
  "sha_ok (ossl E) \<Longrightarrow> p \<in> set (batch_records E n link f1 f2 old sealed bs) \<Longrightarrow> header_hash p \<noteq> []"
  by (metis batch_record record_name_nonempty)

text \<open>Every record of a batch is small and has a payload.\<close>

lemma data_chain_record:
  assumes "sha_ok (ossl E)" and "length link = 32" and "p \<in> set (data_chain E n link bs)"
  shows "\<exists>k l. \<exists>d \<in> set bs. p = record_pdu E k DATABLOCK [l] d \<and> length l = 32"
proof -
  from assms(3) obtain i where i: "i < length bs" "p = data_chain E n link bs ! i"
    by (metis data_chain_length in_set_conv_nth)
  have "length (if i = 0 then link else header_hash (data_chain E n link bs ! (i - 1))) = 32"
    using assms(2) i(1) data_chain_name_length [OF assms(1), of "data_chain E n link bs ! (i - 1)" n link bs] by simp
  with i data_chain_nth [OF i(1), of E n link] show ?thesis using nth_mem by metis
qed

lemma batch_record_bounds:
  assumes E: "env_ok E" and len: "length link = 32" "length f1 = 32" "length f2 = 32" "length sealed = 32"
    and bs: "bs \<noteq> []" "\<forall>d \<in> set bs. d \<noteq> [] \<and> length d \<le> m" "length (old @ bs) \<le> 512" "m < 2 ^ 29"
    and old: "\<forall>h \<in> set old. length h = 32" and p: "p \<in> set (batch_records E n link f1 f2 old sealed bs)"
  obtains k t hs d where "p = record_pdu E k t hs d" and "\<forall>h \<in> set hs. length h \<le> 32" and "length hs \<le> 2"
    and "d \<noteq> []" and "length d < 2 ^ 30"
proof -
  note sha = env_okD(2) [OF E]
  let ?ch = "data_chain E n link bs"
  let ?names = "map header_hash ?ch"
  have names: "\<forall>h \<in> set ?names. length h = 32" using data_chain_name_length [OF sha] by auto
  have "\<forall>h \<in> set (old @ ?names). length h = 32" using names old by auto
  then have c: "length (concat (old @ ?names)) = 32 * length (old @ bs)" "?names \<noteq> []"
    using length_concat_hashes [of "old @ ?names"] bs(1) by simp_all
  define bmp where "bmp = blockmap_pdu E (n + length bs) f1 old ?names"
  have bl: "length (header_hash bmp) = 32" by (simp add: bmp_def blockmap_pdu_def length_record_name [OF sha])
  have "p \<in> set ?ch \<or> p = bmp \<or> p = inode_pdu E (Suc (n + length bs)) f2 (header_hash bmp) (length bs) sealed"
    using p by (auto simp: batch_records_def Let_def bmp_def)
  then consider (data) "p \<in> set ?ch" | (bm) "p = bmp"
    | (ino) "p = inode_pdu E (Suc (n + length bs)) f2 (header_hash bmp) (length bs) sealed" by blast
  then show thesis
  proof cases
    case data
    then obtain k l d where "d \<in> set bs" "p = record_pdu E k DATABLOCK [l] d" "length l = 32"
      using data_chain_record [OF sha len(1)] by blast
    with bs(2,4) show thesis by (intro that [of k DATABLOCK "[l]" d]) fastforce+
  next
    case bm
    have "length (last ?names) = 32" using names c(2) last_in_set by blast
    moreover have "concat (old @ ?names) \<noteq> []" using c(1) bs(1) by (metis Nil_is_append_conv length_greater_0_conv mult_pos_pos zero_less_numeral)
    ultimately show thesis using bm c(1) bs(3) len(2)
      by (intro that [of "n + length bs" BLOCKMAP "[f1, last ?names]" "concat (old @ ?names)"]) (auto simp: bmp_def blockmap_pdu_def simp del: concat_eq_Nil_conv concat_append)
  next
    case ino
    with len bl show thesis
      by (intro that [OF ino [unfolded inode_pdu_def]]) auto
  qed
qed

lemma batch_record_small:
  assumes "env_ok E" and "length link = 32" "length f1 = 32" "length f2 = 32" "length sealed = 32"
    and "bs \<noteq> []" "\<forall>d \<in> set bs. d \<noteq> [] \<and> length d \<le> m" "length bs \<le> 512" "m < 2 ^ 29"
    and "p \<in> set (batch_records E n link f1 f2 [] sealed bs)"
  obtains k t hs d where "p = record_pdu E k t hs d" and "\<forall>h \<in> set hs. length h \<le> 32" and "length hs \<le> 2"
    and "d \<noteq> []" and "length d < 2 ^ 30"
  by (rule batch_record_bounds [OF assms(1-7) _ assms(9) _ assms(10)]) (use assms(8) that in auto)

lemma sim_writable:
  assumes "sha_ok (ossl E)" and "distinct (map header_hash recs)"
    and "recs = batch_records E n link f1 f2 old sealed bs"
  shows "sim.writable E s recs"
  using assms batch_name_nonempty [OF assms(1)] by (auto simp: sim.writable_def)

lemma sim_first_modify:
  assumes "env_ok E" and "sim_healthy s" and "sim_known s dc" and "mid_index m dc = Some []"
    and "length (symmetric_middleware_key m) = 16" and "length key = 16"
    and "list_all2 (\<lambda>d b. desc_bytes d = Ret b) descs bs" and "descs \<noteq> []"
    and "verify (ossl E) (no_sign E) (mid_client_key_pair m) (Some (digest E (dc @ concat bs @ key))) sig = Ret True"
    and "recs = batch_records E (mid_tick m) dc dc dc [] (sealed_key E (symmetric_middleware_key m) key) bs"
    and "distinct (map header_hash recs)"
  shows "\<exists>s'. Modify E sim_server m s dc descs [] key sig =
      Ret (NO_ERR, m\<lparr>mid_index := (mid_index m)(dc \<mapsto> header_hash (last recs)),
                     mid_tick := mid_tick m + length descs + 2\<rparr>, s') \<and> sim.extends E dc s recs s'"
proof -
  have load: "Modify_load E sim_server s dc [] key =
     Ret (NO_ERR, \<lparr>isize = 0, blockmap_hash = [], ino_key = key\<rparr>,
          \<lparr>data_hashes = [], hash_to_latest_data_block = []\<rparr>, s)"
    using Modify_load_first [of key E sim_server s dc] assms(6) by simp
  have args: "signed_args dc descs [] key = Ret (dc @ concat bs @ key)"
    using signed_args_eq [OF assms(7)] by simp
  have w: "sim.writable E s recs"
    by (rule sim_writable [OF env_okD(2) [OF assms(1)] assms(11,10)])
  show ?thesis
    by (rule sim.modify_batch [OF assms(1) args assms(9,4,5) load assms(2,3) _ _ _ assms(7,8) _ w])
       (use assms(6,10) in simp_all)
qed

lemma sample_verify:
  "verify (ossl sample_env) (no_sign sample_env) (Some ''key'') (Some (digest sample_env a)) sig = Ret (sig = sample_sig a)"
  by (simp add: verify_def sample_env_def sample_openssl_def sample_sig_def)

lemma sample_descs: "list_all2 (\<lambda>d b. desc_bytes d = Ret b) (map sample_desc bs) bs"
  by (simp add: list_all2_conv_all_nth sample_desc_def desc_bytes_whole)

lemma sample_known:
  obtains s where "sim_healthy s" and "sim_known s sample_dc"
  using sim.write_stores [of sim_init sample_dc sample_dc "[]"] sim_init_healthy
  by (auto simp: sample_dc_def)

lemma sample_first_batch:
  obtains s s' recs where
    "Modify sample_env sim_server sample_mid s sample_dc [sample_desc ''hello''] [] sample_key
       (sample_sig (sample_dc @ ''hello'' @ sample_key)) =
     Ret (NO_ERR, sample_mid\<lparr>mid_index := [sample_dc \<mapsto> header_hash (last recs)], mid_tick := 6\<rparr>, s')"
    and "recs = batch_records sample_env 3 sample_dc sample_dc sample_dc []
      (sealed_key sample_env (replicate 16 CHR ''M'') sample_key) [''hello'']"
    and "sim.extends sample_env sample_dc s recs s'"
proof -
  obtain s where s: "sim_healthy s" "sim_known s sample_dc" by (rule sample_known)
  define recs where "recs = batch_records sample_env (mid_tick sample_mid) sample_dc sample_dc sample_dc []
    (sealed_key sample_env (symmetric_middleware_key sample_mid) sample_key) [''hello'']"
  have d: "list_all2 (\<lambda>d b. desc_bytes d = Ret b) [sample_desc ''hello''] [''hello'']"
    using sample_descs [of "[''hello'']"] by simp
  have dist: "distinct (map header_hash recs)"
    unfolding recs_def by (rule sample_batch_distinct) (simp add: sample_mid_def)
  have m: "mid_index sample_mid sample_dc = Some []" "length (symmetric_middleware_key sample_mid) = 16"
    "mid_client_key_pair sample_mid = Some ''key''" "length sample_key = 16"
    "mid_tick sample_mid = 3" "mid_index sample_mid = [sample_dc \<mapsto> []]"
    "symmetric_middleware_key sample_mid = replicate 16 CHR ''M''"
    by (simp_all add: sample_mid_def sample_key_def)
  obtain s' where "Modify sample_env sim_server sample_mid s sample_dc [sample_desc ''hello''] [] sample_key
       (sample_sig (sample_dc @ ''hello'' @ sample_key)) =
     Ret (NO_ERR, sample_mid\<lparr>mid_index := [sample_dc \<mapsto> header_hash (last recs)], mid_tick := 6\<rparr>, s')"
     "sim.extends sample_env sample_dc s recs s'"
    using sim_first_modify [OF sample_env_ok s m(1,2,4) d _ _ recs_def dist,
      of "sample_sig (sample_dc @ ''hello'' @ sample_key)"] by (auto simp: m sample_verify)
  then show thesis using that recs_def m by metis
qed

text \<open>The same request when the files of the server cannot be opened.\<close>

lemma sample_modify_refused:
  obtains s m' s' where "Modify sample_env sim_server sample_mid s sample_dc [sample_desc ''hello''] [] sample_key
     (sample_sig (sample_dc @ ''hello'' @ sample_key)) = Ret (ERR_IO, m', s')"
proof -
  obtain s0 where s0: "sim_healthy s0" "sim_known s0 sample_dc" by (rule sample_known)
  define s where "s = s0\<lparr>sim_open_fails := \<lambda>_. True\<rparr>"
  have "dc_path s = dc_path s0" by (simp add: s_def dc_path_def fun_eq_iff)
  then have p: "dc_path s (hex_encode sample_dc) \<in> sim_dirs s" "\<not> sim_stat_throws s q" "sim_open_fails s q" for q
    using s0 by (simp_all add: s_def sim_known_def sim_healthy_def)
  have w: "WriteRecord sim_server s sample_dc name out = Ret (ERR_IO, s)" for name out
    using p by (simp add: sim_server_def DCServerSim_WriteRecord_def Let_def)
  have d: "list_all2 (\<lambda>d b. desc_bytes d = Ret b) [sample_desc ''hello''] [''hello'']"
    using sample_descs [of "[''hello'']"] by simp
  have m: "mid_index sample_mid = [sample_dc \<mapsto> []]" "mid_client_key_pair sample_mid = Some ''key''" "mid_tick sample_mid = 3"
    by (simp_all add: sample_mid_def)
  have c: "composeRecord sample_env n DATABLOCK [sample_dc] (Some (sample_desc ''hello'')) =
      Ret (NO_ERR, ser_pdu (cdc sample_env) (record_pdu sample_env n DATABLOCK [sample_dc] ''hello''),
        header_hash (record_pdu sample_env n DATABLOCK [sample_dc] ''hello''))" for n
    by (rule composeRecord_eq [OF env_okD(2) [OF sample_env_ok]]) (use d in simp)
  show thesis
    using that [of s] signed_args_eq [OF d, of sample_dc "[]" sample_key] w c m
    by (simp add: Modify_def digest_eq [OF env_okD(2) [OF sample_env_ok]] sample_verify Modify_load_def Modify_write_def
        cread_c_str sample_key_def Let_def)
qed

section \<open>Properties\<close>

text \<open>
  Creating a file, whatever the record server does: if the server refuses the meta record,
  the error is returned and the index is unchanged; otherwise the new capsule's name has
  32 bytes, its entry is empty, every other entry is unchanged and the key is a fresh key of
  16 bytes.
\<close>

theorem create_new:
  assumes "env_ok E" and "CreateNew E srv m s = Ret (rc, name, key, m', s')"
  shows "length name = 32 \<and>
    (if rc < 0 then mid_index m' = mid_index m \<and> key = []
     else rc = NO_ERR \<and> mid_index m' = (mid_index m)(name \<mapsto> []) \<and> length key = 16 \<and>
          RAND_bytes (ossl E) (Suc (mid_tick m)) = (1, key))"
proof -
  obtain r where "RAND_bytes (ossl E) (Suc (mid_tick m)) = (1, r)" "length r = 16"
    using env_okD(4) [OF assms(1)] unfolding rand_ok_def by blast
  with assms(2) composed_ok [OF assms(1)] show ?thesis
    by (auto simp: CreateNew_def outcome_simps Let_def generate_symmetric_key_def
        split: if_splits prod.splits)
qed

theorem create_new_witness:
  "\<exists>name key m' s'. CreateNew sample_env sim_server sample_mid sim_init = Ret (NO_ERR, name, key, m', s') \<and>
     length name = 32 \<and> mid_index m' name = Some [] \<and> length key = 16"
proof -
  have "composeRecord sample_env 3 META [] None = Ret (NO_ERR, out, name) \<Longrightarrow> name \<noteq> []" for out name
    using composed_ok [OF sample_env_ok] by fastforce
  moreover obtain out name where c: "composeRecord sample_env 3 META [] None = Ret (NO_ERR, out, name)"
    by (auto simp: composeRecord_def digest_eq [OF env_okD(2) [OF sample_env_ok]] Let_def)
  ultimately obtain s' where "WriteRecord sim_server sim_init name name out = Ret (NO_ERR, s')"
    using sim.write_stores [of sim_init name name out] sim_init_healthy by blast
  with c have "\<exists>key m'. CreateNew sample_env sim_server sample_mid sim_init = Ret (NO_ERR, name, key, m', s')"
    by (simp add: CreateNew_def sample_mid_def Let_def)
  then show ?thesis using create_new [OF sample_env_ok] by fastforce
qed

text \<open>
  C16. A request that must be refused is refused without effect: with a signature that does not
  verify, \<open>Modify\<close> returns \<open>ERR_VERIFY\<close> and changes neither the index nor the server; with a
  valid signature but the name of an inode record that is not the latest one (a replayed or
  concurrent request), it returns \<open>-1\<close>, writes nothing to the server and keeps every entry of
  the index.
\<close>

theorem modify_refuses:
  assumes "env_ok E" and "signed_args dc descs ih key = Ret args"
    and "verify (ossl E) (no_sign E) (mid_client_key_pair m) (Some (digest E args)) sig = Ret ok"
  shows "(\<not> ok \<longrightarrow> Modify E srv m s dc descs ih key sig = Ret (ERR_VERIFY, m, s)) \<and>
    (ok \<and> mid_index m dc = Some latest \<and> ih \<noteq> latest \<longrightarrow>
       Modify E srv m s dc descs ih key sig = Ret (-1, m, s))"
  by (rule Modify_refused [OF assms])

theorem modify_refuses_witness:
  "Modify sample_env sim_server sample_mid sim_init sample_dc [sample_desc ''x''] [] sample_key ''forged''
     = Ret (ERR_VERIFY, sample_mid, sim_init) \<and>
   Modify sample_env sim_server sample_mid sim_init sample_dc [sample_desc ''x''] ''stale'' sample_key
     (sample_sig (sample_dc @ ''x'' @ ''stale'' @ sample_key)) = Ret (-1, sample_mid, sim_init)"
proof -
  have d: "list_all2 (\<lambda>d b. desc_bytes d = Ret b) [sample_desc ''x''] [''x'']"
    using sample_descs [of "[''x'']"] by simp
  have k: "mid_client_key_pair sample_mid = Some ''key''" "mid_index sample_mid sample_dc = Some []"
    by (simp_all add: sample_mid_def)
  have forged: "''forged'' \<noteq> sample_sig a" for a by (simp add: sample_sig_def)
  show ?thesis
    using modify_refuses [OF sample_env_ok signed_args_eq [OF d], where m = sample_mid and ok = False
        and sig = "''forged''" and srv = sim_server and s = sim_init and dc = sample_dc and ih = "[]" and key = sample_key]
      modify_refuses [OF sample_env_ok signed_args_eq [OF d], where m = sample_mid and ok = True
        and sig = "sample_sig (sample_dc @ ''x'' @ ''stale'' @ sample_key)" and srv = sim_server and s = sim_init
        and dc = sample_dc and ih = "''stale''" and key = sample_key and latest = "[]"]
      k forged
    by (simp add: sample_verify)
qed

text \<open>
  C15. The index commits last, whatever the record server answers. A call of \<open>Modify\<close> returns \<open>NO_ERR\<close> only
  when the server has accepted, one after the other, one record per buffer and two more, and the index
  then names the last of them. A call that returns anything else leaves the latest inode record of
  every file as it was (an unknown capsule gains an empty entry), and its code is that of the refusal:
  nothing was read or written, or the server refused to return one of the two old records, or it
  accepted some records and refused the next one, with this code. No other entry changes.
\<close>

theorem modify_commits_last:
  assumes "Modify E srv m s dc descs ih key sig = Ret (rc, m', s')"
  shows "(\<forall>c. c \<noteq> dc \<longrightarrow> mid_index m' c = mid_index m c) \<and>
    (if rc = NO_ERR
     then \<exists>ino bm s1 ws. Modify_load E srv s dc ih key = Ret (NO_ERR, ino, bm, s1) \<and> all_written srv dc s1 ws s' \<and>
        length ws = length descs + 2 \<and> mid_index m' dc = Some (fst (last ws))
     else (mid_index m' dc = mid_index m dc \<or> (mid_index m dc = None \<and> mid_index m' dc = Some [])) \<and> rc < 0 \<and>
       (rc \<in> {ERR_VERIFY, -1} \<and> s' = s \<or> (\<exists>ino bm. Modify_load E srv s dc ih key = Ret (rc, ino, bm, s')) \<or>
        (\<exists>ino bm s1 ws. Modify_load E srv s dc ih key = Ret (NO_ERR, ino, bm, s1) \<and> length ws < length descs + 2 \<and>
           refused_after srv dc s1 ws rc s')))"
proof -
  let ?latest = "case mid_index m dc of None \<Rightarrow> [] | Some l \<Rightarrow> l"
  let ?m1 = "m\<lparr>mid_index := (mid_index m)(dc \<mapsto> ?latest)\<rparr>"
  from assms consider "rc \<in> {ERR_VERIFY, -1}" "s' = s" | ino bm where "rc < 0" "Modify_load E srv s dc ih key = Ret (rc, ino, bm, s')"
    | lrc ino bm s1 where "Modify_load E srv s dc ih key = Ret (lrc, ino, bm, s1)" "\<not> lrc < 0"
        "Modify_write E srv ?m1 s1 dc ih descs ino bm = Ret (rc, m', s')"
    unfolding Modify_def Let_def by (elim bindO_RetE) (auto split: if_splits elim!: bindO_RetE)
  then show ?thesis
  proof cases
    case (3 lrc ino bm s1)
    have load: "Modify_load E srv s dc ih key = Ret (NO_ERR, ino, bm, s1)" using Modify_load_code [OF 3(1)] 3(1,2) by simp
    from Modify_write_writes [OF 3(3)] obtain ws where ws: "if rc = NO_ERR
      then all_written srv dc s1 ws s' \<and> length ws = length descs + 2 \<and> mid_index m' = (mid_index ?m1)(dc \<mapsto> fst (last ws))
      else refused_after srv dc s1 ws rc s' \<and> length ws < length descs + 2" by blast
    show ?thesis
    proof (cases "rc = NO_ERR")
      case True
      with ws load Modify_index [OF assms] show ?thesis by simp blast
    next
      case False
      with ws load Modify_index [OF assms] show ?thesis by (simp add: refused_after_def) blast
    qed
  qed (use Modify_index [OF assms] in auto)
qed

theorem modify_commits_last_witness:
  "\<exists>s t m1 s1 m2 s2. Modify sample_env sim_server sample_mid s sample_dc [sample_desc ''hello''] [] sample_key
     (sample_sig (sample_dc @ ''hello'' @ sample_key)) = Ret (NO_ERR, m1, s1) \<and>
   (\<exists>ws. all_written sim_server sample_dc s ws s1 \<and> length ws = 3 \<and> mid_index m1 sample_dc = Some (fst (last ws))) \<and>
   Modify sample_env sim_server sample_mid t sample_dc [sample_desc ''hello''] [] sample_key
     (sample_sig (sample_dc @ ''hello'' @ sample_key)) = Ret (ERR_IO, m2, s2) \<and> mid_index m2 sample_dc = mid_index sample_mid sample_dc"
proof -
  obtain s s' recs where r: "Modify sample_env sim_server sample_mid s sample_dc [sample_desc ''hello''] [] sample_key
       (sample_sig (sample_dc @ ''hello'' @ sample_key)) =
     Ret (NO_ERR, sample_mid\<lparr>mid_index := [sample_dc \<mapsto> header_hash (last recs)], mid_tick := 6\<rparr>, s')"
    and "recs = batch_records sample_env 3 sample_dc sample_dc sample_dc []
      (sealed_key sample_env (replicate 16 CHR ''M'') sample_key) [''hello'']"
    and "sim.extends sample_env sample_dc s recs s'"
    by (rule sample_first_batch)
  have l: "\<exists>ino bm. Modify_load sample_env sim_server x sample_dc [] sample_key = Ret (NO_ERR, ino, bm, x)" for x
    by (simp add: Modify_load_def cread_c_str sample_key_def)
  obtain ws where ws: "all_written sim_server sample_dc s ws s'" "length ws = 3" "header_hash (last recs) = fst (last ws)"
    using modify_commits_last [OF r] l [of s] by auto
  obtain t m2 s2 where f: "Modify sample_env sim_server sample_mid t sample_dc [sample_desc ''hello''] [] sample_key
     (sample_sig (sample_dc @ ''hello'' @ sample_key)) = Ret (ERR_IO, m2, s2)"
    by (rule sample_modify_refused)
  have "mid_index m2 sample_dc = mid_index sample_mid sample_dc"
    using modify_commits_last [OF f] by (simp add: sample_mid_def)
  moreover have "mid_index (sample_mid\<lparr>mid_index := [sample_dc \<mapsto> header_hash (last recs)], mid_tick := 6\<rparr>) sample_dc = Some (fst (last ws))"
    using ws(3) by simp
  ultimately show ?thesis using r ws(1,2) f by blast
qed

text \<open>
  C13. The first \<open>Modify\<close> of a file on the simulated server succeeds and writes exactly the
  records of the batch: one data record per buffer, each naming its predecessor and the first
  naming the capsule, then a block map that lists the data records in order, then an inode
  record that names the block map and carries the size and the sealed key. The index names the
  new inode record, every record can be looked up under its name, and no other record changes.
\<close>

theorem first_modify:
  assumes "env_ok E" and "sim_healthy s" and "sim_known s dc" and "mid_index m dc = Some []"
    and "length (symmetric_middleware_key m) = 16" and "length key = 16"
    and "list_all2 (\<lambda>d b. desc_bytes d = Ret b) descs bs" and "descs \<noteq> []"
    and "verify (ossl E) (no_sign E) (mid_client_key_pair m) (Some (digest E (dc @ concat bs @ key))) sig = Ret True"
    and "recs = batch_records E (mid_tick m) dc dc dc [] (sealed_key E (symmetric_middleware_key m) key) bs"
    and "distinct (map header_hash recs)"
  shows "\<exists>s'. Modify E sim_server m s dc descs [] key sig =
      Ret (NO_ERR, m\<lparr>mid_index := (mid_index m)(dc \<mapsto> header_hash (last recs)),
                     mid_tick := mid_tick m + length descs + 2\<rparr>, s') \<and> sim_healthy s' \<and>
      (\<forall>p \<in> set recs. sim_lookup s' dc (header_hash p) = Some (ser_pdu (cdc E) p)) \<and>
      (\<forall>c r. r \<notin> header_hash ` set recs \<longrightarrow> sim_lookup s' c r = sim_lookup s c r)"
  using sim_first_modify [OF assms] unfolding sim.extends_def by blast

theorem first_modify_witness:
  "\<exists>s s' recs. Modify sample_env sim_server sample_mid s sample_dc [sample_desc ''hello'', sample_desc ''world''] [] sample_key
       (sample_sig (sample_dc @ ''helloworld'' @ sample_key)) =
     Ret (NO_ERR, sample_mid\<lparr>mid_index := [sample_dc \<mapsto> header_hash (last recs)], mid_tick := 7\<rparr>, s') \<and>
   length recs = 4 \<and> sim_lookup s' sample_dc (header_hash (recs ! 1)) = Some (ser_pdu sample_codec (recs ! 1)) \<and>
   payload_in_transit (recs ! 1) = ''world''"
proof -
  obtain s where s: "sim_healthy s" "sim_known s sample_dc" by (rule sample_known)
  let ?bs = "[''hello'', ''world'']"
  define recs where "recs = batch_records sample_env (mid_tick sample_mid) sample_dc sample_dc sample_dc []
    (sealed_key sample_env (symmetric_middleware_key sample_mid) sample_key) ?bs"
  have d: "list_all2 (\<lambda>d b. desc_bytes d = Ret b) (map sample_desc ?bs) ?bs" by (rule sample_descs)
  have dist: "distinct (map header_hash recs)"
    unfolding recs_def by (rule sample_batch_distinct) (simp add: sample_mid_def)
  have m: "mid_index sample_mid sample_dc = Some []" "length (symmetric_middleware_key sample_mid) = 16"
    "mid_client_key_pair sample_mid = Some ''key''" "length sample_key = 16"
    "mid_tick sample_mid = 3" "mid_index sample_mid = [sample_dc \<mapsto> []]"
    by (simp_all add: sample_mid_def sample_key_def)
  have len: "length recs = 4" "payload_in_transit (recs ! 1) = ''world''"
    by (simp_all add: recs_def batch_records_def Let_def)
  have "cdc sample_env = sample_codec" by (simp add: sample_env_def)
  moreover have "recs ! 1 \<in> set recs" using len by (intro nth_mem) simp
  moreover note first_modify [OF sample_env_ok s m(1,2,4) d _ _ recs_def dist,
      of "sample_sig (sample_dc @ ''helloworld'' @ sample_key)"]
  ultimately obtain s' where "Modify sample_env sim_server sample_mid s sample_dc [sample_desc ''hello'', sample_desc ''world'']
      [] sample_key (sample_sig (sample_dc @ ''helloworld'' @ sample_key)) =
     Ret (NO_ERR, sample_mid\<lparr>mid_index := [sample_dc \<mapsto> header_hash (last recs)], mid_tick := 7\<rparr>, s')"
    "sim_lookup s' sample_dc (header_hash (recs ! 1)) = Some (ser_pdu sample_codec (recs ! 1))"
    by (auto simp: m sample_verify)
  with len show ?thesis by blast
qed

text \<open>
  A later \<open>Modify\<close> of a file with a stored inode record and block map never replaces a block:
  the new block map lists all old hashes and then the new ones, whatever file offsets the new
  blocks have; the new inode record's size counts the new blocks only; and its sealed key is
  not the file's key but the first half of the old sealed key, sealed again.
\<close>

theorem later_modify:
  assumes "env_ok E" and "sim_healthy s" and "sim_known s dc" and "mid_index m dc = Some latest" and "latest \<noteq> []"
    and "length (symmetric_middleware_key m) = 16" and "length sealed = 32" and "length bmn = 32"
    and "length f = 32" and "length f' = 32" and "names \<noteq> []"
    and "sim_lookup s dc latest = Some (ser_pdu (cdc E) (inode_pdu E n f bmn k sealed))"
    and "sim_lookup s dc bmn = Some (ser_pdu (cdc E) (blockmap_pdu E n' f' old names))"
    and "\<forall>h \<in> set (old @ names). length h = 32" and "length (old @ names) \<le> 512"
    and "list_all2 (\<lambda>d b. desc_bytes d = Ret b) descs bs" and "descs \<noteq> []"
    and "verify (ossl E) (no_sign E) (mid_client_key_pair m) (Some (digest E (dc @ concat bs @ latest @ key))) sig = Ret True"
    and "recs = batch_records E (mid_tick m) (last names) bmn latest (old @ names)
           (sealed_key E (symmetric_middleware_key m) (take 16 sealed)) bs"
    and "distinct (map header_hash recs)"
  shows "\<exists>s'. Modify E sim_server m s dc descs latest key sig =
      Ret (NO_ERR, m\<lparr>mid_index := (mid_index m)(dc \<mapsto> header_hash (last recs)),
                     mid_tick := mid_tick m + length descs + 2\<rparr>, s') \<and> sim_healthy s' \<and>
      (\<forall>p \<in> set recs. sim_lookup s' dc (header_hash p) = Some (ser_pdu (cdc E) p)) \<and>
      payload_in_transit (recs ! length bs) = concat (old @ names @ map header_hash (take (length bs) recs)) \<and>
      payload_in_transit (last recs) = u64_bytes (of_nat (length bs) * 16 * 1024)
        @ sealed_key E (symmetric_middleware_key m) (take 16 sealed)"
proof -
  have "length (last names) = 32" using assms(11,14) by simp
  then have "last names \<noteq> []" by auto
  have rv: "latest \<noteq> []" "bmn \<noteq> []" using assms(5,8) by auto
  obtain s1 where load: "Modify_load E sim_server s dc latest key =
      Ret (NO_ERR, \<lparr>isize = 0, blockmap_hash = bmn, ino_key = take 16 sealed\<rparr>,
        \<lparr>data_hashes = old @ names, hash_to_latest_data_block = last names\<rparr>, s1)"
    and s1: "sim_healthy s1" "sim_known s1 = sim_known s"
    using sim.Modify_load_next [OF assms(1,2,5) refl refl assms(12) _ assms(13) _ assms(7,9,8,10,11,14,15), of key] rv
    by auto
  have args: "signed_args dc descs latest key = Ret (dc @ concat bs @ latest @ key)"
    by (rule signed_args_eq [OF assms(16)])
  have w: "sim.writable E s1 recs"
    by (rule sim_writable [OF env_okD(2) [OF assms(1)] assms(20,19)])
  have shape: "payload_in_transit (recs ! length bs) = concat (old @ names @ map header_hash (take (length bs) recs))"
    "payload_in_transit (last recs) = u64_bytes (of_nat (length bs) * 16 * 1024)
        @ sealed_key E (symmetric_middleware_key m) (take 16 sealed)"
    by (simp_all add: assms(19) batch_records_def Let_def nth_append blockmap_pdu_def inode_pdu_def)
  have "\<exists>s'. Modify E sim_server m s dc descs latest key sig =
      Ret (NO_ERR, m\<lparr>mid_index := (mid_index m)(dc \<mapsto> header_hash (last recs)),
                     mid_tick := mid_tick m + length descs + 2\<rparr>, s') \<and> sim.extends E dc s1 recs s'"
    by (rule sim.modify_batch [OF assms(1) args assms(18,4,6) load s1(1) _ _ _ _ assms(16,17) _ w])
       (use assms(3,7,14,19) s1(2) \<open>last names \<noteq> []\<close> rv in simp_all)
  then show ?thesis using shape unfolding sim.extends_def by blast
qed

end
