(* ===== verification/Dc_Client.thy ===== *)
theory Dc_Client
  imports Midware
begin

text \<open>
  The networked client of \<open>src/src/dc-client\<close>: \<open>ClientComm\<close> (addresses, sockets, the handlers of
  the listening thread) and \<open>DCClient\<close> (blocking \<open>Put\<close> and \<open>Get\<close> over a table of outstanding
  operations), and \<open>DCServerNet\<close> of \<open>src/src/fs/backend_real.cpp\<close> on top of them.

  The calling thread and the listening thread share the tables. A call is cut at its wait on a
  condition variable: \<open>Put_start\<close> and \<open>Get_start\<close> run up to the wait, \<open>Put_finish\<close> and \<open>Get_finish\<close>
  after it, and \<open>handle_ack\<close> and \<open>handle_get_resp\<close> are what the listening thread does with one
  message in between. The network is a parameter, the record \<open>network\<close>: sending a message, and the
  messages the listening thread receives while a call waits. The generated message classes of
  \<open>request.proto\<close> are the record \<open>req_codec\<close>.
\<close>

section \<open>Messages\<close>

record client_get_request =
  req_hash :: string
  req_replyaddr :: string
  fresh_req :: bool
  metaonly_req :: bool

record client_get_response =
  resp_success :: bool
  resp_hash :: string
  resp_record :: capsule_pdu
  targetAddr :: string
  fresh_resp :: bool
  fresh_hashes :: "string list"

record req_codec =
  ser_get_req :: "client_get_request \<Rightarrow> string"
  parse_get_resp :: "string \<Rightarrow> client_get_response"
  ser_fresh :: "string list \<Rightarrow> string"

text \<open>One message on one of the two listening sockets.\<close>

datatype incoming = Ack_msg string | Resp_msg string

section \<open>Server addresses\<close>

text \<open>\<open>std::string::find\<close> of one character.\<close>

fun find_char :: "char \<Rightarrow> string \<Rightarrow> nat option" where
  "find_char c [] = None"
| "find_char c (x # xs) = (if x = c then Some 0 else map_option Suc (find_char c xs))"

text \<open>\<open>std::stoi\<close>: white space, a sign, decimal digits; no digits and values out of range throw.\<close>

definition decimal_digits :: string where
  "decimal_digits = ''0123456789''"

fun digits_val :: "nat \<Rightarrow> string \<Rightarrow> nat" where
  "digits_val acc [] = acc"
| "digits_val acc (c # cs) =
     (if c \<in> set decimal_digits then digits_val (10 * acc + (of_char c - 48)) cs else acc)"

definition stoi :: "string \<Rightarrow> int outcome" where
  "stoi s =
     (let t = dropWhile isspace s;
          neg = (take 1 t = ''-'');
          d = (if take 1 t = ''-'' \<or> take 1 t = ''+'' then tl t else t) in
      if d = [] \<or> hd d \<notin> set decimal_digits then Fault Uncaught_exception
      else
        let v = (if neg then - int (digits_val 0 d) else int (digits_val 0 d)) in
        if - (2 ^ 31) \<le> v \<and> v < 2 ^ 31 then Ret v else Fault Uncaught_exception)"

text \<open>
  One \<open>ip:count\<close> entry. Without a colon \<open>pos\<close> is -1, so the address and the number are both read
  from the whole entry.
\<close>

definition ip_count_entry :: "string \<Rightarrow> (string \<times> int) outcome" where
  "ip_count_entry s =
     (case find_char CHR '':'' s of
        None \<Rightarrow> bindO (stoi s) (\<lambda>n. Ret (s, n))
      | Some pos \<Rightarrow> bindO (stoi (drop (Suc pos) s)) (\<lambda>n. Ret (take pos s, n)))"

lemma find_char_less: "find_char c s = Some k \<Longrightarrow> k < length s"
  by (induction s arbitrary: k) (auto split: if_splits)

function server_ip_counts :: "string \<Rightarrow> (string \<times> int) list outcome" where
  "server_ip_counts s =
     (case find_char CHR '','' s of
        None \<Rightarrow> bindO (ip_count_entry s) (\<lambda>e. Ret [e])
      | Some nxt \<Rightarrow>
          bindO (ip_count_entry (take nxt s)) (\<lambda>e.
          bindO (server_ip_counts (drop (Suc nxt) s)) (\<lambda>es. Ret (e # es))))"
  by pat_completeness auto
termination
  by (relation "measure length") (auto dest: find_char_less)

declare server_ip_counts.simps [simp del]

text \<open>
  The addresses of an entry: \<open>i = INIT_DC_SERVER_ID, ..., count + INIT_DC_SERVER_ID - 1\<close>. A port
  that is out of range is refused before its number could overflow.
\<close>

definition entry_addrs :: "nat \<Rightarrow> string \<Rightarrow> int \<Rightarrow> string list" where
  "entry_addrs base ip count =
     map (\<lambda>i. ip @ '':'' @ to_string (base + i)) [INIT_DC_SERVER_ID..<INIT_DC_SERVER_ID + nat count]"

text \<open>
  The loops that connect one socket per server: \<open>connect\<close> of the ZeroMQ library throws for an
  address that it does not accept.
\<close>

fun connect_servers :: "env \<Rightarrow> nat \<Rightarrow> (string \<times> int) list \<Rightarrow> string list outcome" where
  "connect_servers E base [] = Ret []"
| "connect_servers E base ((ip, count) # es) =
     bindO (validO (count + int INIT_DC_SERVER_ID < 2 ^ 31)) (\<lambda>_.
     if \<not> (\<forall>addr \<in> set (entry_addrs base ip count). zmq_connects E (''tcp://'' @ addr)) then Fault Uncaught_exception
     else bindO (connect_servers E base es) (\<lambda>addrs. Ret (entry_addrs base ip count @ addrs)))"

section \<open>State of the client\<close>

text \<open>
  The status of an outstanding operation. \<open>put_asleep\<close> and \<open>get_asleep\<close> stand for the condition variable
  \<open>cv\<close>: whether the calling thread is blocked on it. The status fields \<open>timestamp\<close>, \<open>is_fresh_req\<close> and
  \<open>is_metaonly_req\<close> are not read after the request was sent.
\<close>

record put_status =
  put_done :: bool
  put_ret :: int
  put_asleep :: bool

record get_status =
  get_done :: bool
  get_ret :: int
  get_srl :: "string option"
  get_asleep :: bool

abbreviation new_put :: put_status where
  "new_put \<equiv> \<lparr>put_done = False, put_ret = 0, put_asleep = False\<rparr>"

abbreviation new_get :: get_status where
  "new_get \<equiv> \<lparr>get_done = False, get_ret = 0, get_srl = None, get_asleep = False\<rparr>"

text \<open>
  \<open>cv.wait(lk, pred)\<close> tests the predicate under the lock and blocks while it is false; once woken it
  tests again. \<open>notify_all\<close> wakes every thread that is blocked. A call can go on when it is awake and
  its predicate holds.
\<close>

definition wait_put :: "put_status \<Rightarrow> put_status" where
  "wait_put st = (if put_done st then st else st\<lparr>put_asleep := True\<rparr>)"

definition wait_get :: "get_status \<Rightarrow> get_status" where
  "wait_get st = (if get_done st then st else st\<lparr>get_asleep := True\<rparr>)"

definition notify_put :: "put_status \<Rightarrow> put_status" where
  "notify_put st = st\<lparr>put_asleep := False\<rparr>"

definition notify_get :: "get_status \<Rightarrow> get_status" where
  "notify_get st = st\<lparr>get_asleep := False\<rparr>"

abbreviation put_ready :: "put_status \<Rightarrow> bool" where
  "put_ready st \<equiv> put_done st \<and> \<not> put_asleep st"

abbreviation get_ready :: "get_status \<Rightarrow> bool" where
  "get_ready st \<equiv> get_done st \<and> \<not> get_asleep st"

text \<open>
  The socket maps are their address lists, each address once; \<open>draws\<close> counts calls of \<open>rand()\<close>.
  The counts of \<open>recv_ack_map\<close> stay far below the range of \<open>int\<close>: one hash would have to be
  acknowledged 2^31 times.
\<close>

record dc_client =
  dc_server_dc_sockets :: "string list"
  dc_server_serve_sockets :: "string list"
  recv_ack_addr :: string
  recv_get_resp_addr :: string
  recv_ack_map :: "string \<Rightarrow> int option"
  put_map :: "string \<Rightarrow> put_status option"
  get_map :: "string \<times> bool \<Rightarrow> get_status option"
  draws :: nat

text \<open>The constructor of \<open>ClientComm\<close>, with the empty tables of \<open>DCClient\<close>.\<close>

definition ClientComm :: "env \<Rightarrow> string \<Rightarrow> nat \<Rightarrow> dc_client outcome" where
  "ClientComm E ip client_id =
     (if ip = [] then Fault Exit_failure
      else
        let ips = load_dcserver_ip (option_map E) in
        if ips = [] then Fault Exit_failure
        else bindO (server_ip_counts ips) (\<lambda>es.
          bindO (connect_servers E NET_DC_SERVER_BASE_PORT es) (\<lambda>dc_addrs.
          bindO (connect_servers E NET_SERVE_PORT es) (\<lambda>serve_addrs.
          Ret \<lparr>dc_server_dc_sockets = remdups dc_addrs, dc_server_serve_sockets = remdups serve_addrs,
               recv_ack_addr = ip @ '':'' @ to_string (NET_CLIENT_RECV_ACK_PORT + client_id),
               recv_get_resp_addr = ip @ '':'' @ to_string (NET_CLIENT_RECV_GET_RESP_PORT + client_id),
               recv_ack_map = Map.empty, put_map = Map.empty, get_map = Map.empty, draws = 0\<rparr>))))"

definition DCClient :: "env \<Rightarrow> nat \<Rightarrow> dc_client outcome" where
  "DCClient E client_id = ClientComm E (load_client_ip (option_map E)) client_id"

section \<open>The network\<close>

record 'n network =
  transmit :: "'n \<Rightarrow> string \<Rightarrow> string \<Rightarrow> 'n"
  arrivals :: "'n \<Rightarrow> incoming list \<times> 'n"
  net_rand :: "nat \<Rightarrow> nat"

definition mcast_dc :: "'n network \<Rightarrow> dc_client \<Rightarrow> 'n \<Rightarrow> string \<Rightarrow> 'n" where
  "mcast_dc N c w msg = fold (\<lambda>addr w. transmit N w addr msg) (dc_server_dc_sockets c) w"

text \<open>\<open>rand() % size\<close> divides by zero when there is no server.\<close>

definition send_get_req :: "'n network \<Rightarrow> dc_client \<Rightarrow> 'n \<Rightarrow> string \<Rightarrow> (dc_client \<times> 'n) outcome" where
  "send_get_req N c w msg =
     bindO (validO (dc_server_serve_sockets c \<noteq> [])) (\<lambda>_.
     let i = net_rand N (draws c) mod length (dc_server_serve_sockets c) in
     Ret (c\<lparr>draws := Suc (draws c)\<rparr>, transmit N w (dc_server_serve_sockets c ! i) msg))"

section \<open>Operations\<close>

definition CommitAck :: "dc_client \<Rightarrow> string \<Rightarrow> bool \<times> dc_client" where
  "CommitAck c h =
     (case put_map c h of
        None \<Rightarrow> (False, c)
      | Some st \<Rightarrow> (True, c\<lparr>put_map := (put_map c)(h \<mapsto> notify_put (st\<lparr>put_done := True, put_ret := 0\<rparr>))\<rparr>))"

definition CommitGetResp :: "env \<Rightarrow> dc_client \<Rightarrow> string \<Rightarrow> capsule_pdu \<Rightarrow> bool \<times> dc_client" where
  "CommitGetResp E c h pdu =
     (let gk = (h, length (payload_in_transit pdu) = 0) in
      case get_map c gk of
        None \<Rightarrow> (False, c)
      | Some st \<Rightarrow>
          (True, c\<lparr>get_map := (get_map c)(gk \<mapsto> notify_get (st\<lparr>get_done := True, get_ret := 0, get_srl := Some (ser_pdu (cdc E) pdu)\<rparr>))\<rparr>))"

text \<open>
  The two parts of \<open>CommitAck\<close> and \<open>CommitGetResp\<close>: the block under the lock, and \<open>notify_all\<close> through
  the iterator that was found before, which dangles once the entry is erased.
\<close>

definition commit_put :: "dc_client \<Rightarrow> string \<Rightarrow> dc_client" where
  "commit_put c h = c\<lparr>put_map := (put_map c)(h := map_option (\<lambda>st. st\<lparr>put_done := True, put_ret := 0\<rparr>) (put_map c h))\<rparr>"

definition notify_all_put :: "dc_client \<Rightarrow> string \<Rightarrow> dc_client outcome" where
  "notify_all_put c h = bindO (deref (put_map c h)) (\<lambda>st. Ret (c\<lparr>put_map := (put_map c)(h \<mapsto> notify_put st)\<rparr>))"

definition commit_get :: "env \<Rightarrow> dc_client \<Rightarrow> string \<times> bool \<Rightarrow> capsule_pdu \<Rightarrow> dc_client" where
  "commit_get E c gk pdu =
     c\<lparr>get_map := (get_map c)(gk := map_option (\<lambda>st. st\<lparr>get_done := True, get_ret := 0, get_srl := Some (ser_pdu (cdc E) pdu)\<rparr>) (get_map c gk))\<rparr>"

definition notify_all_get :: "dc_client \<Rightarrow> string \<times> bool \<Rightarrow> dc_client outcome" where
  "notify_all_get c gk = bindO (deref (get_map c gk)) (\<lambda>st. Ret (c\<lparr>get_map := (get_map c)(gk \<mapsto> notify_get st)\<rparr>))"

definition CommitFreshResp :: "req_codec \<Rightarrow> dc_client \<Rightarrow> string \<Rightarrow> string list \<Rightarrow> bool \<times> dc_client" where
  "CommitFreshResp M c h hashes =
     (case get_map c (h, False) of
        None \<Rightarrow> (False, c)
      | Some st \<Rightarrow>
          (True, c\<lparr>get_map := (get_map c)((h, False) \<mapsto> notify_get (st\<lparr>get_done := True, get_ret := 0, get_srl := Some (ser_fresh M hashes)\<rparr>))\<rparr>))"

text \<open>
  The log message of \<open>handle_ack\<close> prints 32 bytes of the hash, however long it is; the message is put
  together in every build.
\<close>

definition handle_ack :: "env \<Rightarrow> dc_client \<Rightarrow> string \<Rightarrow> dc_client outcome" where
  "handle_ack E c msg =
     (let ack = parse_pdu (cdc E) msg; h = header_hash ack in
      bindO (assertO (msgtype (header ack) = REPLICATION_ACK)) (\<lambda>_.
      let n = (case recv_ack_map c h of None \<Rightarrow> 0 | Some k \<Rightarrow> k) + 1;
          c1 = c\<lparr>recv_ack_map := (recv_ack_map c)(h \<mapsto> n)\<rparr> in
      if n = WRITE_THRESHOLD
      then bindO (binary_to_hex_string (c_str h) 32) (\<lambda>_. Ret (snd (CommitAck c1 h)))
      else Ret c1))"

definition handle_get_resp :: "env \<Rightarrow> req_codec \<Rightarrow> dc_client \<Rightarrow> string \<Rightarrow> dc_client outcome" where
  "handle_get_resp E M c msg =
     (let resp = parse_get_resp M msg in
      if fresh_resp resp
      then Ret (if resp_success resp then snd (CommitFreshResp M c (resp_hash resp) (fresh_hashes resp)) else c)
      else Ret (if resp_success resp then snd (CommitGetResp E c (resp_hash resp) (resp_record resp)) else c))"

text \<open>The listening thread on the messages that arrive, in their order.\<close>

fun handle_msg :: "env \<Rightarrow> req_codec \<Rightarrow> dc_client \<Rightarrow> incoming \<Rightarrow> dc_client outcome" where
  "handle_msg E M c (Ack_msg msg) = handle_ack E c msg"
| "handle_msg E M c (Resp_msg msg) = handle_get_resp E M c msg"

fun listen :: "env \<Rightarrow> req_codec \<Rightarrow> dc_client \<Rightarrow> incoming list \<Rightarrow> dc_client outcome" where
  "listen E M c [] = Ret c"
| "listen E M c (m # ms) = bindO (handle_msg E M c m) (\<lambda>c'. listen E M c' ms)"

definition Put_start :: "'n network \<Rightarrow> dc_client \<Rightarrow> 'n \<Rightarrow> string \<Rightarrow> string \<Rightarrow> dc_client \<times> 'n" where
  "Put_start N c w h srl_pdu =
     (case put_map c h of
        Some st \<Rightarrow> (c, w)
      | None \<Rightarrow>
          let c1 = c\<lparr>put_map := (put_map c)(h \<mapsto> new_put)\<rparr> in
          (c1, mcast_dc N c1 w srl_pdu))"

definition Put_wait :: "dc_client \<Rightarrow> string \<Rightarrow> dc_client" where
  "Put_wait c h = c\<lparr>put_map := (put_map c)(h := map_option wait_put (put_map c h))\<rparr>"

definition Put_finish :: "dc_client \<Rightarrow> string \<Rightarrow> dc_client" where
  "Put_finish c h = c\<lparr>put_map := (put_map c)(h := None)\<rparr>"

definition Get_start ::
    "req_codec \<Rightarrow> 'n network \<Rightarrow> dc_client \<Rightarrow> 'n \<Rightarrow> string \<Rightarrow> bool \<Rightarrow> bool \<Rightarrow> (dc_client \<times> 'n) outcome" where
  "Get_start M N c w h is_fresh_req is_metaonly_req =
     bindO (assertO (\<not> is_fresh_req \<or> length h = 0)) (\<lambda>_.
     bindO (assertO (\<not> (is_fresh_req \<and> is_metaonly_req))) (\<lambda>_.
     case get_map c (h, is_metaonly_req) of
       Some st \<Rightarrow> Ret (c, w)
     | None \<Rightarrow>
         let c1 = c\<lparr>get_map := (get_map c)((h, is_metaonly_req) \<mapsto> new_get)\<rparr>;
             req = \<lparr>req_hash = h, req_replyaddr = recv_get_resp_addr c1, fresh_req = is_fresh_req,
                    metaonly_req = is_metaonly_req\<rparr> in
         send_get_req N c1 w (ser_get_req M req)))"

definition Get_wait :: "dc_client \<Rightarrow> string \<Rightarrow> bool \<Rightarrow> dc_client" where
  "Get_wait c h is_metaonly_req =
     c\<lparr>get_map := (get_map c)((h, is_metaonly_req) := map_option wait_get (get_map c (h, is_metaonly_req)))\<rparr>"

definition Get_finish :: "dc_client \<Rightarrow> string \<Rightarrow> bool \<Rightarrow> string option" where
  "Get_finish c h is_metaonly_req =
     (case get_map c (h, is_metaonly_req) of
        None \<Rightarrow> None
      | Some st \<Rightarrow> if get_ret st = 0 then get_srl st else None)"

section \<open>The record server of the file system\<close>

record 'n server_net =
  net_client :: dc_client
  net_world :: 'n

text \<open>The constructor; \<open>w\<close> is the network the listening thread is started on.\<close>

definition DCServerNet :: "env \<Rightarrow> 'n \<Rightarrow> 'n server_net outcome" where
  "DCServerNet E w = bindO (DCClient E CLIENT_ID) (\<lambda>c. Ret \<lparr>net_client = c, net_world = w\<rparr>)"

text \<open>
  The calling thread goes to sleep unless its operation is done already, and the messages that
  arrive are handled. If it is then still asleep, or was woken and its operation is not done, it
  waits for ever. \<open>dcname\<close> is not used.
\<close>

definition DCServerNet_WriteRecord ::
    "env \<Rightarrow> req_codec \<Rightarrow> 'n network \<Rightarrow> 'n server_net \<Rightarrow> string \<Rightarrow> string \<Rightarrow> string \<Rightarrow> (err_t \<times> 'n server_net) outcome" where
  "DCServerNet_WriteRecord E M N s dcname recordname data =
     (let (c, w) = Put_start N (net_client s) (net_world s) recordname data;
          (msgs, w') = arrivals N w in
      bindO (listen E M (Put_wait c recordname) msgs) (\<lambda>c'.
      bindO (deref (put_map c' recordname)) (\<lambda>st.
      if put_ready st then Ret (NO_ERR, \<lparr>net_client = Put_finish c' recordname, net_world = w'\<rparr>)
      else Fault Blocked_forever)))"

definition DCServerNet_ReadRecord ::
    "env \<Rightarrow> req_codec \<Rightarrow> 'n network \<Rightarrow> 'n server_net \<Rightarrow> string \<Rightarrow> string \<Rightarrow> nat \<Rightarrow> (err_t \<times> string \<times> 'n server_net) outcome" where
  "DCServerNet_ReadRecord E M N s dcname recordname n =
     bindO (Get_start M N (net_client s) (net_world s) recordname False False) (\<lambda>(c, w).
     let (msgs, w') = arrivals N w in
     bindO (listen E M (Get_wait c recordname False) msgs) (\<lambda>c'.
     bindO (deref (get_map c' (recordname, False))) (\<lambda>st.
     if \<not> get_ready st then Fault Blocked_forever
     else
       let s' = \<lparr>net_client = c', net_world = w'\<rparr> in
       case Get_finish c' recordname False of
         None \<Rightarrow> Ret (ERR_IO, [], s')
       | Some out \<Rightarrow> bindO (assertO (length out \<le> n)) (\<lambda>_. Ret (NO_ERR, out, s')))))"

definition net_server :: "env \<Rightarrow> req_codec \<Rightarrow> 'n network \<Rightarrow> 'n server_net dcserver" where
  "net_server E M N = \<lparr>ReadRecord = DCServerNet_ReadRecord E M N, WriteRecord = DCServerNet_WriteRecord E M N\<rparr>"

section \<open>Calls that return\<close>

lemma WriteRecord_RetE:
  assumes "DCServerNet_WriteRecord E M N s dc h d = Ret (rc, s')"
  obtains c w ms w' c' st where "Put_start N (net_client s) (net_world s) h d = (c, w)" and "arrivals N w = (ms, w')"
    and "listen E M (Put_wait c h) ms = Ret c'" and "put_map c' h = Some st" and "put_ready st" and "rc = NO_ERR"
    and "s' = \<lparr>net_client = Put_finish c' h, net_world = w'\<rparr>"
  using assms unfolding DCServerNet_WriteRecord_def by (auto simp: outcome_simps split: prod.splits if_splits)

lemma ReadRecord_RetE:
  assumes "DCServerNet_ReadRecord E M N s dc h n = Ret (NO_ERR, out, s')"
  obtains c w ms w' c' st where "Get_start M N (net_client s) (net_world s) h False False = Ret (c, w)"
    and "listen E M (Get_wait c h False) ms = Ret c'" and "get_map c' (h, False) = Some st" and "get_ready st"
    and "s' = \<lparr>net_client = c', net_world = w'\<rparr>" and "Get_finish c' h False = Some out"
proof -
  obtain c w where c: "Get_start M N (net_client s) (net_world s) h False False = Ret (c, w)"
    using assms unfolding DCServerNet_ReadRecord_def by (elim bindO_RetE) auto
  obtain ms w' where a: "arrivals N w = (ms, w')" by (cases "arrivals N w")
  obtain c' where l: "listen E M (Get_wait c h False) ms = Ret c'"
    using assms unfolding DCServerNet_ReadRecord_def c by (auto simp: a elim: bindO_RetE)
  obtain st where st: "get_map c' (h, False) = Some st"
    using assms unfolding DCServerNet_ReadRecord_def c by (auto simp: a l outcome_simps)
  from assms show thesis
    unfolding DCServerNet_ReadRecord_def c
    by (auto simp: a l st Let_def outcome_simps split: if_splits option.splits intro: that [OF c l st])
qed

section \<open>What the listening thread does to the tables\<close>

text \<open>A message that acknowledges \<open>h\<close>; a message that returns \<open>p\<close> for \<open>h\<close>.\<close>

fun acks :: "env \<Rightarrow> string \<Rightarrow> incoming \<Rightarrow> bool" where
  "acks E h (Ack_msg a) = (header_hash (parse_pdu (cdc E) a) = h)"
| "acks E h (Resp_msg r) = False"

fun returns :: "req_codec \<Rightarrow> string \<Rightarrow> capsule_pdu \<Rightarrow> incoming \<Rightarrow> bool" where
  "returns M h p (Ack_msg a) = False"
| "returns M h p (Resp_msg r) =
     (let q = parse_get_resp M r in resp_success q \<and> \<not> fresh_resp q \<and> resp_hash q = h \<and> resp_record q = p)"

text \<open>
  Messages of servers that hold the records \<open>stored\<close>: acknowledgements of stored records, and
  responses that failed or carry the stored record.
\<close>

fun valid_msg :: "env \<Rightarrow> req_codec \<Rightarrow> (string \<Rightarrow> capsule_pdu option) \<Rightarrow> incoming \<Rightarrow> bool" where
  "valid_msg E M stored (Ack_msg a) =
     (let p = parse_pdu (cdc E) a in
      msgtype (header p) = REPLICATION_ACK \<and> length (header_hash p) = HASHLEN_IN_BYTES \<and> stored (header_hash p) \<noteq> None)"
| "valid_msg E M stored (Resp_msg r) =
     (let q = parse_get_resp M r in resp_success q \<longrightarrow> \<not> fresh_resp q \<and> stored (resp_hash q) = Some (resp_record q))"

text \<open>The tables agree with the records \<open>stored\<close>.\<close>

definition tables_ok :: "env \<Rightarrow> (string \<Rightarrow> capsule_pdu option) \<Rightarrow> dc_client \<Rightarrow> bool" where
  "tables_ok E stored c \<longleftrightarrow>
     (\<forall>h. recv_ack_map c h \<noteq> None \<longrightarrow> stored h \<noteq> None) \<and>
     (\<forall>h m st. get_map c (h, m) = Some st \<and> get_done st \<longrightarrow>
        \<not> get_asleep st \<and> get_ret st = 0 \<and> (\<exists>p. stored h = Some p \<and> get_srl st = Some (ser_pdu (cdc E) p)))"

lemma CommitAck_simps:
  "recv_ack_map (snd (CommitAck c h)) = recv_ack_map c" "get_map (snd (CommitAck c h)) = get_map c"
  "dc_server_dc_sockets (snd (CommitAck c h)) = dc_server_dc_sockets c"
  "dc_server_serve_sockets (snd (CommitAck c h)) = dc_server_serve_sockets c"
  "put_map (snd (CommitAck c h)) = (case put_map c h of None \<Rightarrow> put_map c | Some st \<Rightarrow> (put_map c)(h \<mapsto> st\<lparr>put_done := True, put_ret := 0, put_asleep := False\<rparr>))"
  by (simp_all add: CommitAck_def notify_put_def split: option.splits)

text \<open>Without another thread in between, the two parts are the whole.\<close>

lemma CommitAck_parts:
  "CommitAck c h = (case put_map c h of None \<Rightarrow> (False, c) | Some st \<Rightarrow> (True, case notify_all_put (commit_put c h) h of Ret c' \<Rightarrow> c' | Fault e \<Rightarrow> c))"
  by (auto simp: CommitAck_def commit_put_def notify_all_put_def notify_put_def split: option.split)

lemma CommitGetResp_parts:
  "CommitGetResp E c h pdu = (let gk = (h, payload_in_transit pdu = []) in case get_map c gk of None \<Rightarrow> (False, c)
     | Some st \<Rightarrow> (True, case notify_all_get (commit_get E c gk pdu) gk of Ret c' \<Rightarrow> c' | Fault e \<Rightarrow> c))"
  by (auto simp: CommitGetResp_def commit_get_def notify_all_get_def notify_get_def Let_def split: option.split)

text \<open>Reading 32 bytes of the hash of an acknowledgement: the terminating zero byte is the last that may be read.\<close>

lemma hex_of_hash: "binary_to_hex_string (c_str h) 32 = (if 31 \<le> length h then Ret (hex_encode (take 32 (c_str h))) else Fault Undefined_behaviour)"
  by (auto simp: binary_to_hex_string_def cread_def c_str_def)

lemma handle_ack_effect:
  assumes "handle_ack E c a = Ret c'" and "h = header_hash (parse_pdu (cdc E) a)"
  shows "msgtype (header (parse_pdu (cdc E) a)) = REPLICATION_ACK" and "get_map c' = get_map c"
    and "recv_ack_map c' = (recv_ack_map c)(h \<mapsto> (case recv_ack_map c h of None \<Rightarrow> 0 | Some k \<Rightarrow> k) + 1)"
    and "put_map c' = (case put_map c h of Some st \<Rightarrow>
           if (case recv_ack_map c h of None \<Rightarrow> 0 | Some k \<Rightarrow> k) = 0 then (put_map c)(h \<mapsto> st\<lparr>put_done := True, put_ret := 0, put_asleep := False\<rparr>) else put_map c
         | None \<Rightarrow> put_map c)"
    and "dc_server_dc_sockets c' = dc_server_dc_sockets c" and "dc_server_serve_sockets c' = dc_server_serve_sockets c"
  using assms by (auto simp: handle_ack_def Let_def outcome_simps CommitAck_simps hex_of_hash split: if_splits option.splits)

lemma handle_ack_returns:
  assumes "msgtype (header (parse_pdu (cdc E) a)) = REPLICATION_ACK" and "31 \<le> length (header_hash (parse_pdu (cdc E) a))"
  shows "\<exists>c'. handle_ack E c a = Ret c'"
  using assms by (auto simp: handle_ack_def Let_def hex_of_hash split: if_split)

text \<open>A first acknowledgement with a shorter hash makes the client read past the end of it.\<close>

lemma handle_ack_short:
  assumes "msgtype (header (parse_pdu (cdc E) a)) = REPLICATION_ACK" and "length (header_hash (parse_pdu (cdc E) a)) < 31"
    and "recv_ack_map c (header_hash (parse_pdu (cdc E) a)) = None"
  shows "handle_ack E c a = Fault Undefined_behaviour"
  using assms by (simp add: handle_ack_def Let_def hex_of_hash)

lemma handle_resp_effect:
  assumes "handle_get_resp E M c r = Ret c'"
  shows "put_map c' = put_map c" and "recv_ack_map c' = recv_ack_map c"
    and "dc_server_dc_sockets c' = dc_server_dc_sockets c" and "dc_server_serve_sockets c' = dc_server_serve_sockets c"
    and "\<not> (resp_success (parse_get_resp M r) \<and> fresh_resp (parse_get_resp M r)) \<Longrightarrow> get_map c' =
      (let q = parse_get_resp M r; gk = (resp_hash q, length (payload_in_transit (resp_record q)) = 0) in
       if \<not> resp_success q then get_map c
       else case get_map c gk of None \<Rightarrow> get_map c
         | Some st \<Rightarrow> (get_map c)(gk \<mapsto> st\<lparr>get_done := True, get_ret := 0, get_srl := Some (ser_pdu (cdc E) (resp_record q)), get_asleep := False\<rparr>))"
  using assms
  by (auto simp: handle_get_resp_def Let_def CommitFreshResp_def CommitGetResp_def notify_get_def split: if_splits option.splits)

lemma handle_msg_valid:
  assumes "tables_ok E stored c" and "valid_msg E M stored m"
  shows "\<exists>c'. handle_msg E M c m = Ret c' \<and> tables_ok E stored c'"
proof (cases m)
  case (Ack_msg a)
  with assms(2) obtain c' where c': "handle_ack E c a = Ret c'"
    using handle_ack_returns [of E a c] by (auto simp: Let_def)
  note e = handle_ack_effect [OF c' refl]
  have "tables_ok E stored c'"
    using assms Ack_msg by (auto simp: tables_ok_def e(2,3) Let_def)
  then show ?thesis using Ack_msg c' by simp
next
  case (Resp_msg r)
  obtain c' where c': "handle_get_resp E M c r = Ret c'"
    by (cases "fresh_resp (parse_get_resp M r)") (simp_all add: handle_get_resp_def Let_def)
  note e = handle_resp_effect [OF c']
  have v: "\<not> (resp_success (parse_get_resp M r) \<and> fresh_resp (parse_get_resp M r))"
    "resp_success (parse_get_resp M r) \<Longrightarrow> stored (resp_hash (parse_get_resp M r)) = Some (resp_record (parse_get_resp M r))"
    using assms(2) Resp_msg by (auto simp: Let_def)
  have "tables_ok E stored c'"
    using assms(1) v(2) unfolding tables_ok_def e(2) e(5) [OF v(1)] by (auto simp: Let_def split: if_splits option.splits)
  then show ?thesis using Resp_msg c' by simp
qed

lemma listen_valid:
  assumes "tables_ok E stored c" and "\<forall>m \<in> set msgs. valid_msg E M stored m"
  shows "\<exists>c'. listen E M c msgs = Ret c' \<and> tables_ok E stored c'"
  using assms
proof (induction msgs arbitrary: c)
  case (Cons m msgs)
  then obtain c1 where "handle_msg E M c m = Ret c1" "tables_ok E stored c1" using handle_msg_valid [of E stored c M m] by auto
  with Cons.IH [of c1] Cons.prems(2) show ?case by auto
qed simp

text \<open>The addresses and the keys of the tables never change while listening.\<close>

lemma handle_msg_frame:
  assumes "handle_msg E M c m = Ret c'"
  shows "dc_server_dc_sockets c' = dc_server_dc_sockets c \<and> dc_server_serve_sockets c' = dc_server_serve_sockets c \<and>
    dom (put_map c') = dom (put_map c) \<and> dom (get_map c') = dom (get_map c) \<and>
    (\<forall>g st. get_map c g = Some st \<and> get_ready st \<longrightarrow> (\<exists>st'. get_map c' g = Some st' \<and> get_ready st'))"
proof (cases m)
  case (Ack_msg a)
  then show ?thesis using assms handle_ack_effect [of E c a c' _] by (auto split: option.splits if_splits)
next
  case (Resp_msg r)
  then show ?thesis
    using assms by (auto simp: handle_get_resp_def Let_def CommitFreshResp_def CommitGetResp_def notify_get_def split: if_splits option.splits)
qed

lemma listen_frame:
  "listen E M c msgs = Ret c' \<Longrightarrow>
   dc_server_dc_sockets c' = dc_server_dc_sockets c \<and> dc_server_serve_sockets c' = dc_server_serve_sockets c \<and>
   dom (put_map c') = dom (put_map c) \<and> dom (get_map c') = dom (get_map c) \<and>
   (\<forall>g st. get_map c g = Some st \<and> get_ready st \<longrightarrow> (\<exists>st'. get_map c' g = Some st' \<and> get_ready st'))"
proof (induction msgs arbitrary: c)
  case (Cons m msgs)
  then obtain c1 where m: "handle_msg E M c m = Ret c1" "listen E M c1 msgs = Ret c'" by (auto simp: outcome_simps)
  from handle_msg_frame [OF m(1)] Cons.IH [OF m(2)] show ?case by metis
qed simp

text \<open>The first acknowledgement of a hash ends the wait of its \<open>Put\<close>.\<close>

lemma listen_put:
  assumes "listen E M c msgs = Ret c'" and "put_map c h = Some st"
    and "put_ready st \<or> recv_ack_map c h = None \<and> (\<exists>m \<in> set msgs. acks E h m)"
  shows "\<exists>st'. put_map c' h = Some st' \<and> put_ready st'"
  using assms
proof (induction msgs arbitrary: c st)
  case (Cons m msgs)
  then obtain c1 where m: "handle_msg E M c m = Ret c1" "listen E M c1 msgs = Ret c'" by (auto simp: outcome_simps)
  have "\<exists>st1. put_map c1 h = Some st1 \<and> (put_ready st1 \<or> recv_ack_map c1 h = None \<and> (\<exists>m \<in> set msgs. acks E h m))"
  proof (cases m)
    case (Ack_msg a)
    then have ack: "handle_ack E c a = Ret c1" using m(1) by simp
    show ?thesis using handle_ack_effect [OF ack refl] Cons.prems(2,3) Ack_msg by (auto split: option.splits)
  next
    case (Resp_msg r)
    then show ?thesis using handle_resp_effect(1,2) [of E M c r c1] m(1) Cons.prems(2,3) by auto
  qed
  then show ?case using Cons.IH [OF m(2)] by blast
qed auto

text \<open>A successful response with a payload ends the wait of a \<open>Get\<close> for its hash.\<close>

lemma listen_get:
  assumes "listen E M c msgs = Ret c'" and "get_map c (h, False) = Some st" and "payload_in_transit p \<noteq> []"
    and "get_ready st \<or> (\<exists>m \<in> set msgs. returns M h p m)"
  shows "\<exists>st'. get_map c' (h, False) = Some st' \<and> get_ready st'"
  using assms
proof (induction msgs arbitrary: c st)
  case (Cons m msgs)
  then obtain c1 where m: "handle_msg E M c m = Ret c1" "listen E M c1 msgs = Ret c'" by (auto simp: outcome_simps)
  have d: "(h, False) \<in> dom (get_map c1)" using handle_msg_frame [OF m(1)] Cons.prems(2) by auto
  show ?case
  proof (cases "get_ready st \<or> returns M h p m")
    case True
    have "\<exists>st1. get_map c1 (h, False) = Some st1 \<and> get_ready st1"
    proof (cases "get_ready st")
      case False
      then obtain r where r: "m = Resp_msg r" using True by (cases m) auto
      then have "handle_get_resp E M c r = Ret c1" using m(1) by simp
      from handle_resp_effect(5) [OF this] False True r Cons.prems(2,3) show ?thesis by (auto simp: Let_def)
    qed (use handle_msg_frame [OF m(1)] Cons.prems(2) in blast)
    then show ?thesis using listen_frame [OF m(2)] by blast
  next
    case False
    then show ?thesis using Cons.IH [OF m(2) _ Cons.prems(3)] Cons.prems(4) d by auto
  qed
qed auto

section \<open>Server addresses\<close>

text \<open>The option's format: \<open>ip:count\<close> entries, separated by commas.\<close>

definition print_entry :: "string \<times> nat \<Rightarrow> string" where
  "print_entry e = fst e @ '':'' @ to_string (snd e)"

fun print_entries :: "(string \<times> nat) list \<Rightarrow> string" where
  "print_entries [] = []"
| "print_entries [e] = print_entry e"
| "print_entries (e # es) = print_entry e @ '','' @ print_entries es"

lemma find_char_append: "c \<notin> set a \<Longrightarrow> find_char c (a @ c # b) = Some (length a)"
  by (induction a) auto

lemma find_char_None: "c \<notin> set a \<Longrightarrow> find_char c a = None"
  by (induction a) auto

lemma digit_chars: "d < 10 \<Longrightarrow> dec_digit d \<in> set decimal_digits \<and> of_char (dec_digit d) - 48 = d"
  using dec_digit_range [of d] nth_mem [of d decimal_digits] by (simp add: dec_digit_def decimal_digits_def)

lemma decimal_digits_D: "c \<in> set decimal_digits \<Longrightarrow> \<not> isspace c \<and> c \<noteq> CHR ''-'' \<and> c \<noteq> CHR ''+''"
  by (auto simp: decimal_digits_def isspace_def)

lemma digits_val_append:
  "\<forall>c \<in> set s. c \<in> set decimal_digits \<Longrightarrow> digits_val acc (s @ t) = digits_val (digits_val acc s) t"
  by (induction s arbitrary: acc) auto

lemma to_string_all_digits: "c \<in> set (to_string n) \<Longrightarrow> c \<in> set decimal_digits"
  using to_string_digits digit_chars by blast

lemma digits_val_to_string: "digits_val 0 (to_string n) = n"
proof (induction n rule: to_string.induct)
  case (1 n)
  show ?case
  proof (cases "n < 10")
    case True
    then show ?thesis using digit_chars [of n] by (simp add: to_string.simps [of n])
  next
    case False
    have "digits_val (n div 10) [dec_digit (n mod 10)] = n"
      using digit_chars [of "n mod 10"] by simp
    with 1 False show ?thesis
      using digits_val_append [of "to_string (n div 10)" 0] to_string_all_digits
      by (simp add: to_string.simps [of n] del: digits_val.simps)
  qed
qed

lemma digits_val_stop: "rest = [] \<or> hd rest \<notin> set decimal_digits \<Longrightarrow> digits_val acc rest = acc"
  by (cases rest) simp_all

text \<open>\<open>std::stoi\<close> reads back a printed number, whatever follows it that is not a digit.\<close>

lemma stoi_to_string:
  assumes "n < 2 ^ 31" and "rest = [] \<or> hd rest \<notin> set decimal_digits"
  shows "stoi (to_string n @ rest) = Ret (int n)"
proof -
  let ?s = "to_string n @ rest"
  note ne = to_string_nonempty [of n]
  have hd: "hd ?s \<in> set decimal_digits" "?s \<noteq> []"
    using to_string_all_digits [OF hd_in_set [OF ne]] ne by simp_all
  then have d: "dropWhile isspace ?s = ?s" "take 1 ?s \<noteq> ''-''" "take 1 ?s \<noteq> ''+''"
    using decimal_digits_D by (cases ?s; simp)+
  have "digits_val 0 ?s = n"
    using digits_val_append [of "to_string n" 0 rest] to_string_all_digits digits_val_stop [OF assms(2)]
    by (simp add: digits_val_to_string)
  then show ?thesis
    unfolding stoi_def Let_def d(1) using d(2,3) hd assms(1) by (simp del: One_nat_def)
qed

lemma ip_count_entry_print:
  "CHR '':'' \<notin> set ip \<Longrightarrow> n < 2 ^ 31 \<Longrightarrow> ip_count_entry (print_entry (ip, n)) = Ret (ip, int n)"
  by (simp add: ip_count_entry_def print_entry_def find_char_append stoi_to_string [where rest = "[]", simplified])

definition entry_ok :: "string \<times> nat \<Rightarrow> bool" where
  "entry_ok e \<longleftrightarrow> CHR '':'' \<notin> set (fst e) \<and> CHR '','' \<notin> set (fst e) \<and> snd e + 101 < 2 ^ 31"

lemma print_entry_no_comma: "entry_ok e \<Longrightarrow> CHR '','' \<notin> set (print_entry e)"
  using to_string_all_digits [of "CHR '',''" "snd e"] by (auto simp: entry_ok_def print_entry_def decimal_digits_def)

lemma server_ip_counts_print:
  "es \<noteq> [] \<Longrightarrow> \<forall>e \<in> set es. entry_ok e \<Longrightarrow> server_ip_counts (print_entries es) = Ret (map (\<lambda>(ip, n). (ip, int n)) es)"
proof (induction es rule: print_entries.induct)
  case (2 e)
  then show ?case
    using print_entry_no_comma [of e] ip_count_entry_print [of "fst e" "snd e"]
    by (subst server_ip_counts.simps) (simp add: find_char_None entry_ok_def split: prod.splits)
next
  case (3 e e' es)
  then have "find_char CHR '','' (print_entries (e # e' # es)) = Some (length (print_entry e))"
    using print_entry_no_comma [of e] by (simp add: find_char_append)
  moreover have "ip_count_entry (print_entry e) = Ret (fst e, int (snd e))"
    using 3 ip_count_entry_print [of "fst e" "snd e"] by (simp add: entry_ok_def)
  ultimately show ?case
    using 3 by (subst server_ip_counts.simps) (simp split: prod.splits)
qed simp

text \<open>The addresses of an option of \<open>ip:count\<close> entries.\<close>

definition listed_addrs :: "nat \<Rightarrow> (string \<times> nat) list \<Rightarrow> string list" where
  "listed_addrs base es = [a @ '':'' @ to_string (base + i). (a, n) \<leftarrow> es, i \<leftarrow> [101..<101 + n]]"

lemma connect_entries:
  assumes "\<forall>e \<in> set es. entry_ok e"
  shows "connect_servers E base (map (\<lambda>(ip, n). (ip, int n)) es) =
    (if \<forall>a \<in> set (listed_addrs base es). zmq_connects E (''tcp://'' @ a) then Ret (listed_addrs base es) else Fault Uncaught_exception)"
  using assms
proof (induction es)
  case (Cons e es)
  obtain ip n where e: "e = (ip, n)" by (cases e)
  have "int n + int INIT_DC_SERVER_ID < 2 ^ 31" using Cons.prems by (simp add: e entry_ok_def)
  moreover have "entry_addrs base ip (int n) = map (\<lambda>i. ip @ '':'' @ to_string (base + i)) [101..<101 + n]"
    by (simp add: entry_addrs_def del: upt_Suc)
  then have "listed_addrs base (e # es) = entry_addrs base ip (int n) @ listed_addrs base es"
    by (simp add: listed_addrs_def e del: upt_Suc)
  ultimately show ?case using Cons by (simp add: e ball_Un)
qed (simp add: listed_addrs_def)

text \<open>The client for such an option.\<close>

lemma DCClient_entries:
  assumes "es \<noteq> []" and "\<forall>e \<in> set es. entry_ok e" and "option_map E ''dcserver_ip'' = Some (print_entries es)"
    and "option_map E ''client_ip'' = Some ip" and "ip \<noteq> []"
  shows "DCClient E k =
    (if \<forall>a \<in> set (listed_addrs 4001 es @ listed_addrs 4300 es). zmq_connects E (''tcp://'' @ a)
     then Ret \<lparr>dc_server_dc_sockets = remdups (listed_addrs 4001 es), dc_server_serve_sockets = remdups (listed_addrs 4300 es),
       recv_ack_addr = ip @ '':'' @ to_string (5001 + k), recv_get_resp_addr = ip @ '':'' @ to_string (5101 + k),
       recv_ack_map = Map.empty, put_map = Map.empty, get_map = Map.empty, draws = 0\<rparr>
     else Fault Uncaught_exception)"
proof -
  have "print_entries es \<noteq> []" using assms(1) by (induction es rule: print_entries.induct) (auto simp: print_entry_def)
  then show ?thesis
    using assms(3,4,5) server_ip_counts_print [OF assms(1,2)] connect_entries [OF assms(2), of E]
    by (simp add: DCClient_def ClientComm_def Let_def load_client_ip_def load_dcserver_ip_def ball_Un)
qed

section \<open>Properties\<close>

text \<open>
  C37. The addresses of the servers: for a client address and an option of \<open>ip:count\<close> entries
  separated by commas, the client opens for each entry one write socket and one read socket per
  server, on consecutive ports from 4001 + 101 and 4300 + 101, with empty tables, and throws if the
  library does not accept one of these addresses; without a client address or without the option
  the program exits.
\<close>

theorem client_addresses:
  assumes "es \<noteq> []" and "\<forall>e \<in> set es. entry_ok e" and "option_map E ''dcserver_ip'' = Some (print_entries es)"
    and "option_map E ''client_ip'' = Some ip" and "ip \<noteq> []"
    and "dcs = [a @ '':'' @ to_string (4001 + i). (a, n) \<leftarrow> es, i \<leftarrow> [101..<101 + n]]"
    and "serves = [a @ '':'' @ to_string (4300 + i). (a, n) \<leftarrow> es, i \<leftarrow> [101..<101 + n]]"
  shows "(if \<forall>a \<in> set dcs \<union> set serves. zmq_connects E (''tcp://'' @ a)
     then \<exists>c. DCClient E k = Ret c \<and> dc_server_dc_sockets c = remdups dcs \<and> dc_server_serve_sockets c = remdups serves \<and>
       recv_ack_addr c = ip @ '':'' @ to_string (5001 + k) \<and> recv_get_resp_addr c = ip @ '':'' @ to_string (5101 + k) \<and>
       recv_ack_map c = Map.empty \<and> put_map c = Map.empty \<and> get_map c = Map.empty
     else DCClient E k = Fault Uncaught_exception) \<and>
    (\<forall>m. DCClient (E\<lparr>option_map := (option_map E)(''client_ip'' := None)\<rparr>) m = Fault Exit_failure) \<and>
    (\<forall>m. DCClient (E\<lparr>option_map := (option_map E)(''dcserver_ip'' := None)\<rparr>) m = Fault Exit_failure)"
proof -
  have "DCClient (E\<lparr>option_map := (option_map E)(''client_ip'' := None)\<rparr>) m = Fault Exit_failure"
    "DCClient (E\<lparr>option_map := (option_map E)(''dcserver_ip'' := None)\<rparr>) m = Fault Exit_failure" for m
    using assms(4,5) by (simp_all add: DCClient_def ClientComm_def load_client_ip_def load_dcserver_ip_def)
  then show ?thesis
    using DCClient_entries [OF assms(1-5), of k, unfolded listed_addrs_def, folded assms(6,7)] by (simp add: ball_Un)
qed

theorem client_addresses_witness:
  "\<exists>E c. option_map E ''dcserver_ip'' = Some ''10.4.0.10:2,10.4.0.11:1'' \<and> DCClient E 0 = Ret c \<and>
     dc_server_dc_sockets c = [''10.4.0.10:4102'', ''10.4.0.10:4103'', ''10.4.0.11:4102'']"
proof -
  define E where "E = sample_env\<lparr>option_map := [''client_ip'' \<mapsto> ''10.0.0.1'', ''dcserver_ip'' \<mapsto> ''10.4.0.10:2,10.4.0.11:1'']\<rparr>"
  let ?es = "[(''10.4.0.10'', 2), (''10.4.0.11'', 1)]"
  have p: "print_entries ?es = ''10.4.0.10:2,10.4.0.11:1''"
    by (simp add: print_entry_def to_string.simps dec_digit_def)
  have ok: "\<forall>e \<in> set ?es. entry_ok e" by (simp add: entry_ok_def)
  have o: "option_map E ''dcserver_ip'' = Some (print_entries ?es)" "option_map E ''client_ip'' = Some ''10.0.0.1''"
    unfolding p by (simp_all add: E_def)
  have z: "zmq_connects E (''tcp://'' @ a)" for a by (simp add: E_def sample_env_def)
  have a: "[a @ '':'' @ to_string (4001 + i). (a, n) \<leftarrow> ?es, i \<leftarrow> [101..<101 + n]] =
      [''10.4.0.10:4102'', ''10.4.0.10:4103'', ''10.4.0.11:4102'']"
    by (simp add: upt_rec to_string.simps dec_digit_def)
  obtain c where c: "DCClient E 0 = Ret c" "dc_server_dc_sockets c =
      remdups [a @ '':'' @ to_string (4001 + i). (a, n) \<leftarrow> ?es, i \<leftarrow> [101..<101 + n]]"
    using client_addresses [OF _ ok o _ refl refl, of 0] z by (simp del: upt_Suc append.simps append_Cons) blast
  have "dc_server_dc_sockets c = [''10.4.0.10:4102'', ''10.4.0.10:4103'', ''10.4.0.11:4102'']"
    unfolding c(2) a by simp
  with c(1) o(1) show ?thesis unfolding p by blast
qed

text \<open>
  An entry without a colon is not rejected: the number of servers is then read from the
  beginning of the address itself.
\<close>

theorem entry_without_count:
  assumes "CHR '':'' \<notin> set rest" and "rest = [] \<or> hd rest \<notin> set decimal_digits" and "n < 2 ^ 31"
  shows "ip_count_entry (to_string n @ rest) = Ret (to_string n @ rest, int n)"
proof -
  have "CHR '':'' \<notin> set (to_string n @ rest)"
    using assms(1) to_string_all_digits [of "CHR '':''" n] by (auto simp: decimal_digits_def)
  then show ?thesis using stoi_to_string [OF assms(3,2)] by (simp add: ip_count_entry_def find_char_None)
qed

theorem entry_without_count_witness: "ip_count_entry ''10.4.0.10'' = Ret (''10.4.0.10'', 10)"
  using entry_without_count [of "''.4.0.10''" 10] by (simp add: to_string.simps dec_digit_def decimal_digits_def)

end
