(* ===== verification/Logging.thy ===== *)
theory Logging
  imports Dc_Client "HOL-Library.Sublist"
begin

text \<open>
  The logger of \<open>src/src/util/logging.cpp\<close>: one line per message, appended to the file that was
  opened when the program started. The result of \<open>fopen\<close> is not tested. The other theories leave the
  log calls out: the program never reads its log, and a call returns when the file could be opened.
\<close>

section \<open>Definitions\<close>

datatype log_level = LDEBUG | INFO | WARNING | ERROR

text \<open>The file behind \<open>log_stream\<close>: its contents, or \<open>None\<close> for the null pointer of a failed \<open>fopen\<close>.\<close>

type_synonym log_stream = "string option"

text \<open>\<open>fprintf\<close> of a line: the time, the level and the message up to its first zero byte.\<close>

fun level_tag :: "log_level \<Rightarrow> string" where
  "level_tag LDEBUG = '' [ DEBUG ] ''"
| "level_tag INFO = '' [ INFO ] ''"
| "level_tag WARNING = '' [ WARNING ] ''"
| "level_tag ERROR = '' [ ERROR ] ''"

definition log_line :: "nat \<Rightarrow> log_level \<Rightarrow> string \<Rightarrow> string" where
  "log_line time level message = to_string time @ level_tag level @ takeWhile (\<lambda>c. c \<noteq> NUL) message @ [CHR 0x0A]"

text \<open>
  \<open>Logger::log\<close>; \<open>debug\<close> is the build flag \<open>DEBUG\<close> and \<open>time\<close> the clock in milliseconds. \<open>fflush\<close> of the
  null pointer is defined, \<open>fprintf\<close> to it is not.
\<close>

definition log_write :: "bool \<Rightarrow> log_stream \<Rightarrow> nat \<Rightarrow> log_level \<Rightarrow> string \<Rightarrow> log_stream outcome" where
  "log_write debug stream time level message =
     (if level = LDEBUG \<and> \<not> debug then Ret stream
      else bindO (deref stream) (\<lambda>old. Ret (Some (old @ log_line time level message))))"

fun log_writes :: "bool \<Rightarrow> log_stream \<Rightarrow> (nat \<times> log_level \<times> string) list \<Rightarrow> log_stream outcome" where
  "log_writes debug stream [] = Ret stream"
| "log_writes debug stream ((time, level, message) # es) =
     bindO (log_write debug stream time level message) (\<lambda>stream'. log_writes debug stream' es)"

section \<open>Reading a log\<close>

text \<open>A reader of the format: lines, and in each line the number, the level and the rest.\<close>

fun lines :: "string \<Rightarrow> string list" where
  "lines [] = []"
| "lines (c # cs) =
     (if c = CHR 0x0A then [] # lines cs
      else case lines cs of [] \<Rightarrow> [[c]] | l # ls \<Rightarrow> (c # l) # ls)"

definition read_line :: "string \<Rightarrow> (nat \<times> log_level \<times> string) option" where
  "read_line s =
     (let rest = dropWhile (\<lambda>c. c \<in> set decimal_digits) s in
      map_option (\<lambda>l. (digits_val 0 s, l, drop (length (level_tag l)) rest))
        (find (\<lambda>l. prefix (level_tag l) rest) [LDEBUG, INFO, WARNING, ERROR]))"

definition read_log :: "string \<Rightarrow> (nat \<times> log_level \<times> string) option list" where
  "read_log s = map read_line (lines s)"

text \<open>A message that fits into one line; what a build writes at all.\<close>

definition one_line :: "string \<Rightarrow> bool" where
  "one_line m \<longleftrightarrow> CHR 0x0A \<notin> set m \<and> NUL \<notin> set m"

definition logged :: "bool \<Rightarrow> nat \<times> log_level \<times> string \<Rightarrow> bool" where
  "logged debug e \<longleftrightarrow> debug \<or> fst (snd e) \<noteq> LDEBUG"

section \<open>Lemmas\<close>

lemma lines_append: "CHR 0x0A \<notin> set l \<Longrightarrow> lines (l @ CHR 0x0A # rest) = l # lines rest"
  by (induction l) auto

lemma level_tag_parts: "hd (level_tag l) = CHR '' ''" "level_tag l \<noteq> []" "CHR 0x0A \<notin> set (level_tag l)"
  by (cases l; simp)+

lemma level_tag_prefix: "prefix (level_tag l) (level_tag l' @ m) \<longleftrightarrow> l = l'"
  by (cases l; cases l'; simp)

lemma read_line_entry:
  assumes "one_line m"
  shows "read_line (to_string t @ level_tag l @ m) = Some (t, l, m)"
proof -
  have "CHR '' '' \<notin> set decimal_digits" by (simp add: decimal_digits_def)
  then have stop: "level_tag l @ m \<noteq> []" "hd (level_tag l @ m) \<notin> set decimal_digits"
    using level_tag_parts [of l] by auto
  have d: "\<forall>c \<in> set (to_string t). c \<in> set decimal_digits" using to_string_all_digits by blast
  have "dropWhile (\<lambda>c. c \<in> set decimal_digits) (to_string t @ level_tag l @ m) = level_tag l @ m"
    using d stop by (simp add: dropWhile_append2 dropWhile_eq_self_iff)
  moreover have "digits_val 0 (to_string t @ level_tag l @ m) = t"
    using digits_val_append [OF d, of 0] digits_val_stop [OF disjI2 [OF stop(2)]] by (simp add: digits_val_to_string)
  moreover have "find (\<lambda>k. prefix (level_tag k) (level_tag l @ m)) [LDEBUG, INFO, WARNING, ERROR] = Some l"
    unfolding level_tag_prefix by (cases l) simp_all
  ultimately show ?thesis by (simp add: read_line_def Let_def del: find.simps)
qed

lemma read_log_line:
  assumes "one_line m"
  shows "read_log (log_line t l m @ rest) = Some (t, l, m) # read_log rest"
proof -
  let ?s = "to_string t @ level_tag l @ m"
  have "takeWhile (\<lambda>c. c \<noteq> NUL) m = m" using assms by (auto simp: one_line_def takeWhile_eq_all_conv)
  then have "log_line t l m @ rest = ?s @ CHR 0x0A # rest" by (simp add: log_line_def)
  moreover have "CHR 0x0A \<notin> set (to_string t)" using to_string_all_digits [of "CHR 0x0A" t] by (auto simp: decimal_digits_def)
  then have "CHR 0x0A \<notin> set ?s" using assms level_tag_parts(3) by (simp add: one_line_def)
  ultimately show ?thesis using lines_append [of ?s rest] read_line_entry [OF assms, of t l] by (simp add: read_log_def)
qed

section \<open>Properties\<close>

text \<open>
  C38. The log can be read back: if the file was opened, every sequence of log calls with messages of one
  line appends to it, and from what was appended the times, levels and messages can be read in their
  order, without those of level \<open>LDEBUG\<close> unless the build has the flag \<open>DEBUG\<close>. If the file could not be
  opened, the first call that writes is undefined.
\<close>

theorem log_reads_back:
  assumes "\<forall>(t, l, m) \<in> set es. one_line m"
  shows "(\<exists>new. log_writes debug (Some old) es = Ret (Some (old @ new)) \<and>
      read_log new = map Some (filter (logged debug) es)) \<and>
    log_writes debug None es = (if filter (logged debug) es = [] then Ret None else Fault Undefined_behaviour)"
  using assms
proof (induction es arbitrary: old)
  case (Cons e es)
  obtain t l m where e: "e = (t, l, m)" by (cases e)
  show ?case
  proof (cases "logged debug e")
    case True
    then have "log_write debug s t l m = bindO (deref s) (\<lambda>old. Ret (Some (old @ log_line t l m)))" for s
      by (auto simp: log_write_def logged_def e)
    moreover obtain new where "log_writes debug (Some (old @ log_line t l m)) es = Ret (Some ((old @ log_line t l m) @ new))"
      "read_log new = map Some (filter (logged debug) es)"
      using Cons.IH [of "old @ log_line t l m"] Cons.prems by auto
    ultimately show ?thesis
      using True Cons.prems read_log_line [of m t l new] by (auto simp: e deref_def)
  next
    case False
    then have "log_write debug s t l m = Ret s" for s by (simp add: log_write_def logged_def e)
    with False Cons show ?thesis by (simp add: e)
  qed
qed (simp add: read_log_def)

theorem log_reads_back_witness:
  "\<exists>new. log_writes False (Some ''x'') [(7, INFO, ''up''), (8, LDEBUG, ''poll''), (9, ERROR, ''down'')] = Ret (Some (''x'' @ new)) \<and>
     read_log new = [Some (7, INFO, ''up''), Some (9, ERROR, ''down'')]"
  using log_reads_back [of "[(7, INFO, ''up''), (8, LDEBUG, ''poll''), (9, ERROR, ''down'')]" False "''x''"]
  by (simp add: one_line_def logged_def)

end
