(* ===== verification/Crypto_Test.thy ===== *)
theory Crypto_Test
  imports Crypto
begin

text \<open>
  The repository's test of its cryptographic helpers, \<open>src/test/cryptotest.cpp\<close>: a round trip of the
  symmetric cipher with an initialisation vector, and of a signature. Both are shown to pass with a
  library that behaves as documented.
\<close>

section \<open>Definitions\<close>

text \<open>\<open>compare_buf\<close>: the index of the first different byte, or \<open>-1\<close>.\<close>

fun compare_from :: "nat \<Rightarrow> string \<Rightarrow> string \<Rightarrow> int" where
  "compare_from i (a # as) (b # bs) = (if a \<noteq> b then int i else compare_from (Suc i) as bs)"
| "compare_from i as bs = -1"

definition compare_buf :: "string \<Rightarrow> string \<Rightarrow> nat \<Rightarrow> int outcome" where
  "compare_buf buf1 buf2 n =
     bindO (cread buf1 0 n) (\<lambda>a. bindO (cread buf2 0 n) (\<lambda>b. Ret (compare_from 0 a b)))"

text \<open>
  \<open>data\<close> is what \<open>init_buf\<close> puts into the array, \<open>key0\<close>, \<open>iv0\<close> and \<open>out0\<close> are the bytes that the local
  arrays happen to hold, \<open>n\<close> numbers the random draws.
\<close>

definition test_symmetric_encryption :: "openssl \<Rightarrow> nat \<Rightarrow> string \<Rightarrow> string \<Rightarrow> string \<Rightarrow> string \<Rightarrow> int outcome" where
  "test_symmetric_encryption os n data key0 iv0 out0 =
     (let (rk, key) = generate_symmetric_key os n key0 in
      if rk \<le> 0 then Ret (-1)
      else let (ri, iv) = generate_symmetric_key os (Suc n) iv0 in
      if ri \<le> 0 then Ret (-1)
      else let (re, enc) = encrypt_symmetric os key (Some iv) data in
      bindO (validO (case enc of None \<Rightarrow> True | Some e \<Rightarrow> length e \<le> 1024 + 16)) (\<lambda>_.
      if re \<le> 0 then Ret (-1)
      else bindO (deref enc) (\<lambda>e.
      let (rd, dec) = decrypt_symmetric os key (Some iv) e in
      bindO (validO (case dec of None \<Rightarrow> True | Some d \<Rightarrow> length d \<le> 1024 + 16)) (\<lambda>_.
      if rd \<le> 0 then Ret (-1)
      else bindO (deref dec) (\<lambda>d.
      bindO (compare_buf data (d @ drop (length d) out0) 1024) (\<lambda>c.
      if c \<noteq> -1 then Ret (-1) else Ret 0))))))"

definition test_dsa :: "openssl \<Rightarrow> bool \<Rightarrow> nat \<Rightarrow> string \<Rightarrow> int outcome" where
  "test_dsa os no_sign n data =
     (case EC_KEY_new os n of
        None \<Rightarrow> Ret (-1)
      | Some k \<Rightarrow>
          (case EC_KEY_generate os k n of
             None \<Rightarrow> Ret (-1)
           | Some eckey \<Rightarrow>
               bindO (sign os no_sign (Some eckey) (Some data)) (\<lambda>sig.
               case sig of
                 None \<Rightarrow> Ret (-1)
               | Some s \<Rightarrow>
                   bindO (verify os no_sign (Some eckey) (Some data) s) (\<lambda>verified.
                   if \<not> verified then Ret (-1) else Ret 0))))"

section \<open>Lemmas\<close>

lemma compare_from_same: "compare_from i a a = -1"
  by (induction a arbitrary: i) simp_all

section \<open>Properties\<close>

text \<open>
  The repository's own cryptographic tests pass with a library that behaves as documented: the
  symmetric test returns 0 for every array of 1024 bytes, because what is decrypted is what was
  encrypted and no array is overrun, and the signature test returns 0 in a build that signs. In a
  \<open>NO_SIGN\<close> build the signature test fails, since \<open>sign\<close> returns no signature.
\<close>

theorem crypto_tests_pass:
  assumes "aes_ok os" and "rand_ok os" and "length data = 1024" and "length out0 = 1024 + 16"
    and "generate_ECDSA_key os n = (0, Some k)" and "ecdsa_ok os k"
  shows "test_symmetric_encryption os n data key0 iv0 out0 = Ret 0 \<and>
    test_dsa os no_sign n data = Ret (if no_sign then -1 else 0)"
proof -
  obtain key iv where r: "RAND_bytes os n = (1, key)" "length key = 16" "RAND_bytes os (Suc n) = (1, iv)" "length iv = 16"
    using assms(2) unfolding rand_ok_def by blast
  obtain c where c: "encrypt_symmetric os key (Some iv) data = (1, Some c)" "length c = length data + pad_len (length data)"
    "decrypt_symmetric os key (Some iv) c = (1, Some data)"
    by (rule aes_okE [OF assms(1) r(2), of "Some iv" data]) (use r(4) assms(3) in simp_all)
  have "length c = 1024 + 16" using c(2) assms(3) by (simp add: pad_len_def)
  with c r have "test_symmetric_encryption os n data key0 iv0 out0 = Ret 0"
    using assms(3) by (simp add: test_symmetric_encryption_def generate_symmetric_key_def deref_def validO_def
        compare_buf_def cread_def compare_from_same)
  moreover obtain k0 where "EC_KEY_new os n = Some k0" "EC_KEY_generate os k0 n = Some k"
    using assms(5) by (auto simp: generate_ECDSA_key_def split: option.splits)
  moreover obtain s where "ECDSA_sign os k data = Some s" "ECDSA_verify os k data s"
    using assms(6) unfolding ecdsa_ok_def by blast
  ultimately show ?thesis by (simp add: test_dsa_def sign_def verify_def deref_def)
qed

theorem crypto_tests_pass_witness:
  "test_symmetric_encryption sample_openssl 0 (replicate 1024 CHR ''x'') [] [] (replicate 1040 NUL) = Ret 0 \<and>
   test_dsa sample_openssl True 0 (replicate 1024 CHR ''x'') = Ret (-1)"
  using crypto_tests_pass [OF sample_aes_ok sample_rand_ok, of "replicate 1024 CHR ''x''" "replicate 1040 NUL" 0 "''key''" "[]" "[]" True]
    sample_ecdsa_ok [of "''key''"] by (simp add: generate_ECDSA_key_def sample_openssl_def)

end
