(* ===== verification/Requests.thy ===== *)
theory Requests
  imports Midware
begin

text \<open>
  Sequences of requests to the middleware, from any number of clients and over any record server:
  the requests of the class \<open>DCFSMid\<close> that change its state, in the order it serves them. A \<open>Modify\<close>
  names the inode record it was made against, and the comment on \<open>WriteRecord\<close> in
  \<open>src/src/fs/backend.hpp\<close> promises that this defends against replays. The accepted requests on a
  capsule are shown to form one chain of versions.
\<close>

section \<open>Serving requests\<close>

datatype mid_req =
    Create_req
  | Modify_req string "buf_desc_t list" string string string

text \<open>What happened: the result, and for \<open>Modify\<close> the version it was made against and the latest one after it.\<close>

datatype mid_event =
    Created err_t string
  | Modified string string err_t string

definition latest_version :: "midware \<Rightarrow> string \<Rightarrow> string" where
  "latest_version m dc = (case mid_index m dc of None \<Rightarrow> [] | Some l \<Rightarrow> l)"

fun serve :: "env \<Rightarrow> 's dcserver \<Rightarrow> midware \<Rightarrow> 's \<Rightarrow> mid_req \<Rightarrow> (mid_event \<times> midware \<times> 's) outcome" where
  "serve E srv m s Create_req =
     bindO (CreateNew E srv m s) (\<lambda>(rc, name, key, m', s'). Ret (Created rc name, m', s'))"
| "serve E srv m s (Modify_req dc descs ih key sig) =
     bindO (Modify E srv m s dc descs ih key sig) (\<lambda>(rc, m', s').
     Ret (Modified dc ih rc (latest_version m' dc), m', s'))"

fun serve_all ::
    "env \<Rightarrow> 's dcserver \<Rightarrow> midware \<Rightarrow> 's \<Rightarrow> mid_req list \<Rightarrow> (mid_event list \<times> midware \<times> 's) outcome" where
  "serve_all E srv m s [] = Ret ([], m, s)"
| "serve_all E srv m s (r # rs) =
     bindO (serve E srv m s r) (\<lambda>(e, m1, s1).
     bindO (serve_all E srv m1 s1 rs) (\<lambda>(es, m2, s2). Ret (e # es, m2, s2)))"

text \<open>The accepted requests on \<open>dc\<close>: the versions they were made against and the versions they made.\<close>

fun accepted :: "string \<Rightarrow> mid_event list \<Rightarrow> (string \<times> string) list" where
  "accepted dc [] = []"
| "accepted dc (Created rc name # es) = accepted dc es"
| "accepted dc (Modified c ih rc v # es) =
     (if c = dc \<and> rc = NO_ERR then (ih, v) # accepted dc es else accepted dc es)"

section \<open>One request\<close>

lemma CreateNew_index:
  assumes "CreateNew E srv m s = Ret (rc, name, key, m', s')" and "dc \<noteq> name"
  shows "latest_version m' dc = latest_version m dc"
  using assms unfolding CreateNew_def Let_def latest_version_def
  by (auto split: if_splits prod.splits elim!: bindO_RetE)

lemma serve_chain:
  assumes "serve E srv m s r = Ret (e, m', s')" and "\<forall>rc name. e = Created rc name \<longrightarrow> name \<noteq> dc"
  shows "map fst (accepted dc [e]) @ [latest_version m' dc] = latest_version m dc # map snd (accepted dc [e])"
proof (cases r)
  case Create_req
  with assms show ?thesis
    by (auto dest: CreateNew_index [where dc = dc] elim!: bindO_RetE)
next
  case (Modify_req c descs ih key sig)
  with assms obtain rc where mo: "Modify E srv m s c descs ih key sig = Ret (rc, m', s')"
    and e: "e = Modified c ih rc (latest_version m' c)"
    by (auto elim!: bindO_RetE)
  show ?thesis
  proof (cases "c = dc \<and> rc = NO_ERR")
    case True
    with mo Modify_accepted [of E srv m s c descs ih key sig m' s'] show ?thesis
      by (simp add: e latest_version_def)
  next
    case False
    with Modify_index [OF mo] have "latest_version m' dc = latest_version m dc"
      by (cases "c = dc") (auto simp: latest_version_def)
    with False e show ?thesis by auto
  qed
qed

lemma accepted_Cons: "accepted dc (e # es) = accepted dc [e] @ accepted dc es"
  by (cases e) auto

section \<open>Properties\<close>

text \<open>
  C11. No lost updates and no replays, over every record server: the requests on a capsule that the
  middleware accepts form one chain. Each was made against the version that the previous one made,
  the first against the version at the start, and the last one's version is the latest at the end.
  So where the names of the versions differ, no two accepted requests name the same version: of two
  clients that write against one version at most one succeeds, and a request sent again is refused.
\<close>

theorem versions_form_a_chain:
  assumes "serve_all E srv m s reqs = Ret (evs, m', s')"
    and "\<forall>rc name. Created rc name \<in> set evs \<longrightarrow> name \<noteq> dc"
  shows "map fst (accepted dc evs) @ [latest_version m' dc] = latest_version m dc # map snd (accepted dc evs) \<and>
    (distinct (latest_version m dc # map snd (accepted dc evs)) \<longrightarrow> distinct (map fst (accepted dc evs)))"
proof -
  have chain: "map fst (accepted dc evs) @ [latest_version m' dc] = latest_version m dc # map snd (accepted dc evs)"
    using assms
  proof (induction reqs arbitrary: m s evs)
    case (Cons r rs)
    then obtain e m1 s1 es where one: "serve E srv m s r = Ret (e, m1, s1)"
      and more: "serve_all E srv m1 s1 rs = Ret (es, m', s')" and evs: "evs = e # es"
      by (auto elim!: bindO_RetE)
    have "map fst (accepted dc [e]) @ [latest_version m1 dc] = latest_version m dc # map snd (accepted dc [e])"
      by (rule serve_chain [OF one]) (use Cons.prems(2) evs in auto)
    moreover have "map fst (accepted dc es) @ [latest_version m' dc] = latest_version m1 dc # map snd (accepted dc es)"
      by (rule Cons.IH [OF more]) (use Cons.prems(2) evs in auto)
    ultimately show ?case
      unfolding evs by (subst (1 2) accepted_Cons) (metis append_Cons append_Nil append_assoc map_append)
  qed simp
  then have "distinct (map fst (accepted dc evs) @ [latest_version m' dc]) =
      distinct (latest_version m dc # map snd (accepted dc evs))"
    by (rule arg_cong)
  with chain show ?thesis by (metis distinct_append)
qed

theorem versions_form_a_chain_witness:
  "\<exists>s evs m' s' v. let r = Modify_req sample_dc [sample_desc ''hello''] [] sample_key (sample_sig (sample_dc @ ''hello'' @ sample_key)) in
     serve_all sample_env sim_server sample_mid s [r, r] = Ret (evs, m', s') \<and>
     evs = [Modified sample_dc [] NO_ERR v, Modified sample_dc [] (-1) v] \<and> v \<noteq> [] \<and>
     map fst (accepted sample_dc evs) @ [latest_version m' sample_dc] =
       latest_version sample_mid sample_dc # map snd (accepted sample_dc evs)"
proof -
  obtain s s' recs where r: "Modify sample_env sim_server sample_mid s sample_dc [sample_desc ''hello''] [] sample_key
       (sample_sig (sample_dc @ ''hello'' @ sample_key)) =
     Ret (NO_ERR, sample_mid\<lparr>mid_index := [sample_dc \<mapsto> header_hash (last recs)], mid_tick := 6\<rparr>, s')"
    and recs: "recs = batch_records sample_env 3 sample_dc sample_dc sample_dc []
      (sealed_key sample_env (replicate 16 CHR ''M'') sample_key) [''hello'']"
    and "sim.extends sample_env sample_dc s recs s'"
    by (rule sample_first_batch)
  let ?m = "sample_mid\<lparr>mid_index := [sample_dc \<mapsto> header_hash (last recs)], mid_tick := 6\<rparr>"
  let ?sig = "sample_sig (sample_dc @ ''hello'' @ sample_key)"
  let ?r = "Modify_req sample_dc [sample_desc ''hello''] [] sample_key ?sig"
  have ne: "header_hash (last recs) \<noteq> []"
    unfolding recs batch_records_def inode_pdu_def Let_def
    by (simp add: record_name_nonempty [OF env_okD(2) [OF sample_env_ok]])
  have d: "signed_args sample_dc [sample_desc ''hello''] [] sample_key = Ret (sample_dc @ ''hello'' @ sample_key)"
    using signed_args_eq [OF sample_descs [of "[''hello'']"]] by simp
  have k: "mid_client_key_pair ?m = Some ''key''" "mid_index ?m sample_dc = Some (header_hash (last recs))"
    by (simp_all add: sample_mid_def)
  have again: "Modify sample_env sim_server ?m s' sample_dc [sample_desc ''hello''] [] sample_key ?sig = Ret (-1, ?m, s')"
    using Modify_refused [OF sample_env_ok d, where m = ?m and ok = True and sig = ?sig and srv = sim_server
        and s = s' and latest = "header_hash (last recs)"] k ne
    by (simp add: sample_verify)
  let ?v = "header_hash (last recs)"
  have run: "serve_all sample_env sim_server sample_mid s [?r, ?r] =
      Ret ([Modified sample_dc [] NO_ERR ?v, Modified sample_dc [] (-1) ?v], ?m, s')"
    using r again by (simp add: latest_version_def)
  from versions_form_a_chain [OF run, of sample_dc] run ne show ?thesis
    unfolding Let_def by (intro exI conjI) (assumption | rule refl | simp)+
qed

end
