(* ===== verification/Storage.thy ===== *)
theory Storage
  imports Midware
begin

text \<open>
  \<open>StorageBackend\<close> of \<open>src/src/fs/backend.cpp\<close>: the client side of the middleware and of the
  record server. It signs its requests, hands them to the middleware, and reads records from
  the server directly.
\<close>

section \<open>Definitions\<close>

record 's backend =
  be_mid :: midware
  be_srv :: 's
  be_client_key_pair :: "string option"

text \<open>
  The constructor: a key pair of the client, shared with the middleware; the result code of
  the key generation is ignored. \<open>s\<close> is the state of the record server it creates.
\<close>

definition StorageBackend :: "env \<Rightarrow> 's \<Rightarrow> 's backend" where
  "StorageBackend E s =
     (let key = snd (generate_ECDSA_key (ossl E) 0)
      in \<lparr>be_mid = DCFSMidSim E key 1, be_srv = s, be_client_key_pair = key\<rparr>)"

text \<open>
  \<open>ReadFileMeta\<close>: the error code, the inode record's name, the size, the key, the block map's
  name. The error code of \<open>ReadRecord\<close> is not checked; after a failed read \<open>read_size\<close> is still
  0, so the empty byte string is parsed.
\<close>

definition ReadFileMeta ::
    "env \<Rightarrow> 's dcserver \<Rightarrow> 's backend \<Rightarrow> string \<Rightarrow>
     (err_t \<times> string \<times> u64 \<times> string \<times> string \<times> 's backend) outcome" where
  "ReadFileMeta E srv b hashname =
     bindO (hash256 (ossl E) hashname False) (\<lambda>h.
     bindO (sign (ossl E) (no_sign E) (be_client_key_pair b) h) (\<lambda>sig.
     case sig of None \<Rightarrow> Ret (ERR_SIGN, [], 0, [], [], b) | Some sg \<Rightarrow>
       bindO (GetInodeName E (be_mid b) hashname sg) (\<lambda>(ret, recordname).
       if ret < 0 then Ret (ret, recordname, 0, [], [], b)
       else
         bindO (ReadRecord srv (be_srv b) hashname recordname MAX_INODE_RECORD_SIZE) (\<lambda>(ret, data, s').
         let pdu = parse_pdu (cdc E) data; b' = b\<lparr>be_srv := s'\<rparr> in
         bindO (assertO (length (prevhash (header pdu)) = 2)) (\<lambda>_.
         bindO (cread (c_str (payload_in_transit pdu)) 0 8) (\<lambda>szb.
         bindO (cread (c_str (payload_in_transit pdu)) INODE_AES_KEY_OFFSET (AES_KEY_LEN + AES_PAD_LEN)) (\<lambda>enc.
         bindO (DecryptAESKey E (be_mid b) enc) (\<lambda>(rc, key).
         Ret (ret, recordname, bytes_u64 szb, key, prevhash (header pdu) ! 1, b')))))))))"

definition StorageBackend_ReadRecord ::
    "'s dcserver \<Rightarrow> 's backend \<Rightarrow> string \<Rightarrow> string \<Rightarrow> nat \<Rightarrow> (err_t \<times> string \<times> 's backend) outcome" where
  "StorageBackend_ReadRecord srv b dcname recordname n =
     bindO (ReadRecord srv (be_srv b) dcname recordname n) (\<lambda>(ret, data, s').
     let b' = b\<lparr>be_srv := s'\<rparr> in
     if ret < 0 then Ret (ret, [], b')
     else if n < length data then Ret (ERR_BUF_TOO_SMALL, data, b')
     else Ret (NO_ERR, data, b'))"

text \<open>\<open>ReadRecordData\<close>: the payload of a record, into a buffer of \<open>n\<close> bytes.\<close>

definition ReadRecordData ::
    "env \<Rightarrow> 's dcserver \<Rightarrow> 's backend \<Rightarrow> string \<Rightarrow> string \<Rightarrow> nat \<Rightarrow> (err_t \<times> string \<times> 's backend) outcome" where
  "ReadRecordData E srv b dcname recordname n =
     bindO (ReadRecord srv (be_srv b) dcname recordname (n + RECORD_HEADER_SIZE + SPARE_HASH_SPACE))
       (\<lambda>(ret, data, s').
     let b' = b\<lparr>be_srv := s'\<rparr> in
     if ret < 0 then Ret (ret, [], b')
     else
       let payload = payload_in_transit (parse_pdu (cdc E) data) in
       if n < length payload then Ret (ERR_BUF_TOO_SMALL, [], b') else Ret (NO_ERR, payload, b'))"

text \<open>\<open>WriteRecord\<close>: sign all arguments and ask the middleware to modify the file.\<close>

definition StorageBackend_WriteRecord ::
    "env \<Rightarrow> 's dcserver \<Rightarrow> 's backend \<Rightarrow> string \<Rightarrow> buf_desc_t list \<Rightarrow> string \<Rightarrow> string \<Rightarrow>
     (err_t \<times> 's backend) outcome" where
  "StorageBackend_WriteRecord E srv b dcname descs inode_recordname aes_key =
     (if descs = [] then Ret (NO_ERR, b)
      else
        bindO (signed_args dcname descs inode_recordname aes_key) (\<lambda>args.
        bindO (hash256 (ossl E) args False) (\<lambda>h.
        bindO (sign (ossl E) (no_sign E) (be_client_key_pair b) h) (\<lambda>sig.
        case sig of None \<Rightarrow> Ret (ERR_SIGN, b) | Some sg \<Rightarrow>
          bindO (Modify E srv (be_mid b) (be_srv b) dcname descs inode_recordname aes_key sg) (\<lambda>(ret, m', s').
          Ret (ret, b\<lparr>be_mid := m', be_srv := s'\<rparr>))))))"

definition CreateNewFile ::
    "env \<Rightarrow> 's dcserver \<Rightarrow> 's backend \<Rightarrow> (err_t \<times> string \<times> string \<times> 's backend) outcome" where
  "CreateNewFile E srv b =
     bindO (CreateNew E srv (be_mid b) (be_srv b)) (\<lambda>(err, hashname, aes_key, m', s').
     Ret (err, hashname, aes_key, b\<lparr>be_mid := m', be_srv := s'\<rparr>))"

text \<open>The client and the middleware hold the same key pair, and it works.\<close>

definition keys_ok :: "env \<Rightarrow> 's backend \<Rightarrow> bool" where
  "keys_ok E b \<longleftrightarrow> \<not> no_sign E \<and> length (symmetric_middleware_key (be_mid b)) = 16 \<and>
     mid_client_key_pair (be_mid b) = be_client_key_pair b \<and>
     (\<exists>k. be_client_key_pair b = Some k \<and> ecdsa_ok (ossl E) k)"

section \<open>Signing\<close>

lemma keys_ok_sign:
  assumes "keys_ok E b"
  obtains sg where "sign (ossl E) (no_sign E) (be_client_key_pair b) (Some d) = Ret (Some sg)"
    and "verify (ossl E) (no_sign E) (mid_client_key_pair (be_mid b)) (Some d) sg = Ret True"
  using assms unfolding keys_ok_def ecdsa_ok_def sign_def verify_def
  by (auto dest!: spec [of _ d])

lemma keys_okD: "keys_ok E b \<Longrightarrow> length (symmetric_middleware_key (be_mid b)) = 16"
  by (simp add: keys_ok_def)

lemma keys_ok_update:
  "keys_ok E b \<Longrightarrow> mid_client_key_pair m' = mid_client_key_pair (be_mid b) \<Longrightarrow>
   symmetric_middleware_key m' = symmetric_middleware_key (be_mid b) \<Longrightarrow>
   keys_ok E (b\<lparr>be_mid := m', be_srv := s'\<rparr>)"
  by (simp add: keys_ok_def)

lemma GetInodeName_signed:
  assumes "env_ok E" and "keys_ok E b"
  obtains sg where "sign (ossl E) (no_sign E) (be_client_key_pair b) (Some (digest E h)) = Ret (Some sg)"
    and "GetInodeName E (be_mid b) h sg =
      Ret (case mid_index (be_mid b) h of None \<Rightarrow> (ERR_NOT_FOUND, []) | Some name \<Rightarrow> (NO_ERR, name))"
proof -
  obtain sg where "sign (ossl E) (no_sign E) (be_client_key_pair b) (Some (digest E h)) = Ret (Some sg)"
    "verify (ossl E) (no_sign E) (mid_client_key_pair (be_mid b)) (Some (digest E h)) sg = Ret True"
    using keys_ok_sign [OF assms(2)] by blast
  then show thesis
    by (intro that [of sg]) (auto simp: GetInodeName_def digest_eq [OF env_okD(2) [OF assms(1)]] split: option.splits)
qed

lemma write_record_eq_modify:
  assumes "env_ok E" and "keys_ok E b" and "list_all2 (\<lambda>d b. desc_bytes d = Ret b) descs bs" and "descs \<noteq> []"
  obtains sg where
    "verify (ossl E) (no_sign E) (mid_client_key_pair (be_mid b)) (Some (digest E (dc @ concat bs @ ih @ key))) sg = Ret True"
    and "StorageBackend_WriteRecord E srv b dc descs ih key =
      bindO (Modify E srv (be_mid b) (be_srv b) dc descs ih key sg)
        (\<lambda>(ret, m', s'). Ret (ret, b\<lparr>be_mid := m', be_srv := s'\<rparr>))"
proof -
  obtain sg where "sign (ossl E) (no_sign E) (be_client_key_pair b) (Some (digest E (dc @ concat bs @ ih @ key))) = Ret (Some sg)"
    "verify (ossl E) (no_sign E) (mid_client_key_pair (be_mid b)) (Some (digest E (dc @ concat bs @ ih @ key))) sg = Ret True"
    using keys_ok_sign [OF assms(2)] by blast
  then show thesis
    by (intro that [of sg])
       (simp_all add: StorageBackend_WriteRecord_def signed_args_eq [OF assms(3)] digest_eq [OF env_okD(2) [OF assms(1)]] assms(4))
qed

section \<open>Reading back what a batch wrote\<close>

context record_store
begin

lemma read_payload:
  assumes "env_ok E" and "inv (be_srv b)"
    and "lookup (be_srv b) dc (header_hash p) = Some (ser_pdu (cdc E) p)" "rvalid (header_hash p) (ser_pdu (cdc E) p)"
    and "p = record_pdu E n t hashes payload" and "\<forall>h \<in> set hashes. length h \<le> 32" and "length hashes \<le> 2"
    and "length payload \<le> k" and "k < 2 ^ 29"
  shows "\<exists>s'. ReadRecordData E srv b dc (header_hash p) k = Ret (NO_ERR, payload, b\<lparr>be_srv := s'\<rparr>) \<and> inv s' \<and>
           lookup s' = lookup (be_srv b) \<and> known s' = known (be_srv b) \<and> fresh s' = fresh (be_srv b)"
proof -
  have "length (ser_pdu (cdc E) p) \<le> k + 576"
    using record_pdu_bound [OF assms(1,6), of n t payload] assms(5,7,8) by simp
  from read_returns [OF assms(2,3,4) this]
  obtain s' where "ReadRecord srv (be_srv b) dc (header_hash p) (k + 576) = Ret (NO_ERR, ser_pdu (cdc E) p, s')"
    "inv s'" "lookup s' = lookup (be_srv b)" "known s' = known (be_srv b)" "fresh s' = fresh (be_srv b)" by blast
  moreover have "parse_pdu (cdc E) (ser_pdu (cdc E) p) = p"
    unfolding assms(5) by (rule record_pdu_parse [OF assms(1,6,7)]) (use assms(8,9) in simp)
  ultimately show ?thesis
    using assms(5,8) by (intro exI [of _ s']) (simp add: ReadRecordData_def add.assoc)
qed

lemma read_meta:
  assumes "env_ok E" and "keys_ok E b" and "inv (be_srv b)"
    and "mid_index (be_mid b) dc = Some latest"
    and "lookup (be_srv b) dc latest = Some (ser_pdu (cdc E) p)" "rvalid latest (ser_pdu (cdc E) p)"
    and "p = inode_pdu E n f bmn k (sealed_key E (symmetric_middleware_key (be_mid b)) key)"
    and "length f = 32" "length bmn = 32" "length key = 16"
  shows "\<exists>s'. ReadFileMeta E srv b dc =
      Ret (NO_ERR, latest, of_nat k * 16 * 1024, key, bmn, b\<lparr>be_srv := s'\<rparr>) \<and> inv s' \<and>
      lookup s' = lookup (be_srv b) \<and> known s' = known (be_srv b) \<and> fresh s' = fresh (be_srv b)"
proof -
  let ?sealed = "sealed_key E (symmetric_middleware_key (be_mid b)) key"
  note sl = sealed_key_length [OF assms(1) keys_okD [OF assms(2)] assms(10)]
  obtain sg where sg: "sign (ossl E) (no_sign E) (be_client_key_pair b) (Some (digest E dc)) = Ret (Some sg)"
    "GetInodeName E (be_mid b) dc sg = Ret (NO_ERR, latest)"
    using GetInodeName_signed [OF assms(1,2)] assms(4) by (metis option.simps(5))
  have "length (ser_pdu (cdc E) p) \<le> 1024"
    using record_pdu_bound [OF assms(1), of "[f, bmn]" n INODE "u64_bytes (of_nat k * 16 * 1024) @ ?sealed"]
      assms(7-9) sl by (simp add: inode_pdu_def)
  from read_returns [OF assms(3,5,6) this]
  obtain s' where r: "ReadRecord srv (be_srv b) dc latest 1024 = Ret (NO_ERR, ser_pdu (cdc E) p, s')"
    "inv s'" "lookup s' = lookup (be_srv b)" "known s' = known (be_srv b)" "fresh s' = fresh (be_srv b)" by blast
  have p: "parse_pdu (cdc E) (ser_pdu (cdc E) p) = p"
    unfolding assms(7) inode_pdu_def by (rule record_pdu_parse [OF assms(1)]) (use assms(8,9) sl in auto)
  have "DecryptAESKey E (be_mid b) ?sealed = Ret (NO_ERR, key)"
    using sl(2) assms(10) by (simp add: DecryptAESKey_def Let_def)
  then show ?thesis
    using r sg p sl assms(7)
    by (intro exI [of _ s']) (simp add: ReadFileMeta_def digest_eq [OF env_okD(2) [OF assms(1)]] Let_def inode_pdu_def cread_c_str)
qed

text \<open>The records of a first batch, read back through the backend.\<close>

lemma batch_readable:
  assumes E: "env_ok E" and K: "keys_ok E b" and inv: "inv (be_srv b)"
    and len: "length dc = 32" "length key = 16" "bs \<noteq> []" "length bs \<le> 512"
    and size: "\<forall>d \<in> set bs. length d \<le> n" "n < 2 ^ 29"
    and recs: "recs = batch_records E t dc dc dc [] (sealed_key E (symmetric_middleware_key (be_mid b)) key) bs"
    and look: "\<forall>p \<in> set recs. lookup (be_srv b) dc (header_hash p) = Some (ser_pdu (cdc E) p)"
    and rv: "\<forall>p \<in> set recs. rvalid (header_hash p) (ser_pdu (cdc E) p)"
    and idx: "mid_index (be_mid b) dc = Some (header_hash (last recs))"
  shows "\<exists>s'. ReadFileMeta E srv b dc = Ret (NO_ERR, header_hash (last recs), of_nat (length bs) * 16 * 1024, key,
           header_hash (recs ! length bs), b\<lparr>be_srv := s'\<rparr>) \<and> inv s' \<and> lookup s' = lookup (be_srv b) \<and>
           known s' = known (be_srv b)"
    and "\<exists>s'. ReadRecordData E srv b dc (header_hash (recs ! length bs)) (32 * 512) =
           Ret (NO_ERR, concat (map header_hash (take (length bs) recs)), b\<lparr>be_srv := s'\<rparr>) \<and> inv s' \<and> lookup s' = lookup (be_srv b)"
    and "i < length bs \<Longrightarrow> \<exists>s'. ReadRecordData E srv b dc (header_hash (recs ! i)) n = Ret (NO_ERR, bs ! i, b\<lparr>be_srv := s'\<rparr>) \<and>
           inv s' \<and> lookup s' = lookup (be_srv b)"
proof -
  note sha = env_okD(2) [OF E]
  define ch where "ch = data_chain E t dc bs"
  define bm where "bm = blockmap_pdu E (t + length bs) dc [] (map header_hash ch)"
  define ino where "ino = inode_pdu E (Suc (t + length bs)) dc (header_hash bm) (length bs)
    (sealed_key E (symmetric_middleware_key (be_mid b)) key)"
  have r: "recs = ch @ [bm, ino]" by (simp add: recs batch_records_def Let_def ch_def bm_def ino_def)
  have chl: "length ch = length bs" by (simp add: ch_def)
  have nth: "recs ! length bs = bm" "last recs = ino" "take (length bs) recs = ch"
    "i < length bs \<Longrightarrow> recs ! i = ch ! i"
    using chl by (simp_all add: r nth_append)
  have name: "length (header_hash p) = 32" if "p \<in> set ch" for p
    using that data_chain_name_length [OF sha] by (simp add: ch_def)
  have bml: "length (header_hash bm) = 32"
    by (simp add: bm_def blockmap_pdu_def length_record_name [OF sha])
  have mem: "ino \<in> set recs" "bm \<in> set recs" by (simp_all add: r)
  show "\<exists>s'. ReadFileMeta E srv b dc = Ret (NO_ERR, header_hash (last recs), of_nat (length bs) * 16 * 1024, key,
           header_hash (recs ! length bs), b\<lparr>be_srv := s'\<rparr>) \<and> inv s' \<and> lookup s' = lookup (be_srv b) \<and>
           known s' = known (be_srv b)"
    unfolding nth using read_meta [OF E K inv idx [unfolded nth] look [rule_format, OF mem(1)] rv [rule_format, OF mem(1)]
        ino_def len(1) bml len(2)] by blast
  have lst: "length (last (map header_hash ch)) = 32"
    using name len(3) by (simp add: ch_def last_map)
  have cat: "length (concat ([] @ map header_hash ch)) \<le> 32 * 512"
    using length_concat_hashes [of "map header_hash ch"] name len(4) chl by simp
  show "\<exists>s'. ReadRecordData E srv b dc (header_hash (recs ! length bs)) (32 * 512) =
           Ret (NO_ERR, concat (map header_hash (take (length bs) recs)), b\<lparr>be_srv := s'\<rparr>) \<and> inv s' \<and> lookup s' = lookup (be_srv b)"
    unfolding nth
    using read_payload [OF E inv look [rule_format, OF mem(2)] rv [rule_format, OF mem(2)] bm_def [unfolded blockmap_pdu_def] _ _ cat]
      len(1) lst by auto
  assume i: "i < length bs"
  let ?link = "if i = 0 then dc else header_hash (ch ! (i - 1))"
  have ci: "ch ! i = record_pdu E (t + i) DATABLOCK [?link] (bs ! i)"
    unfolding ch_def by (rule data_chain_nth [OF i])
  have "ch ! i \<in> set ch" "ch ! (i - 1) \<in> set ch" using i chl by simp_all
  then have "length ?link \<le> 32" "ch ! i \<in> set recs" using name len(1) r by fastforce+
  then show "\<exists>s'. ReadRecordData E srv b dc (header_hash (recs ! i)) n = Ret (NO_ERR, bs ! i, b\<lparr>be_srv := s'\<rparr>) \<and>
           inv s' \<and> lookup s' = lookup (be_srv b)"
    unfolding nth(4) [OF i]
    using read_payload [OF E inv look [rule_format] rv [rule_format] ci, where k = n] size i by auto
qed

text \<open>Writing a first batch through the backend.\<close>

lemma write_first_batch:
  assumes E: "env_ok E" and K: "keys_ok E b" and s: "inv (be_srv b)" "known (be_srv b) dc"
    and idx: "mid_index (be_mid b) dc = Some []" and key: "length key = 16"
    and d: "list_all2 (\<lambda>d b. desc_bytes d = Ret b) descs bs" "descs \<noteq> []"
    and recs: "recs = batch_records E (mid_tick (be_mid b)) dc dc dc [] (sealed_key E (symmetric_middleware_key (be_mid b)) key) bs"
    and w: "writable E (be_srv b) recs"
  obtains b' where "StorageBackend_WriteRecord E srv b dc descs [] key = Ret (NO_ERR, b')"
    and "keys_ok E b'" and "mid_index (be_mid b') = (mid_index (be_mid b))(dc \<mapsto> header_hash (last recs))"
    and "symmetric_middleware_key (be_mid b') = symmetric_middleware_key (be_mid b)"
    and "mid_tick (be_mid b') = mid_tick (be_mid b) + length descs + 2"
    and "extends E dc (be_srv b) recs (be_srv b')"
proof -
  let ?m = "be_mid b"
  obtain sg where v: "verify (ossl E) (no_sign E) (mid_client_key_pair ?m) (Some (digest E (dc @ concat bs @ [] @ key))) sg = Ret True"
    and wr: "StorageBackend_WriteRecord E srv b dc descs [] key =
      bindO (Modify E srv ?m (be_srv b) dc descs [] key sg)
        (\<lambda>(ret, m', s'). Ret (ret, b\<lparr>be_mid := m', be_srv := s'\<rparr>))"
    by (rule write_record_eq_modify [OF E K d])
  have load: "Modify_load E srv (be_srv b) dc [] key = Ret (NO_ERR, \<lparr>isize = 0, blockmap_hash = [], ino_key = key\<rparr>,
      \<lparr>data_hashes = [], hash_to_latest_data_block = []\<rparr>, be_srv b)"
    using Modify_load_first [of key E srv "be_srv b" dc] key by simp
  have args: "signed_args dc descs [] key = Ret (dc @ concat bs @ key)"
    using signed_args_eq [OF d(1)] by simp
  have "\<exists>s'. Modify E srv ?m (be_srv b) dc descs [] key sg =
      Ret (NO_ERR, ?m\<lparr>mid_index := (mid_index ?m)(dc \<mapsto> header_hash (last recs)),
                     mid_tick := mid_tick ?m + length descs + 2\<rparr>, s') \<and> extends E dc (be_srv b) recs s'"
    by (rule modify_batch [OF E args _ idx keys_okD [OF K] load s _ _ _ d _ w])
       (use key recs v in simp_all)
  then obtain s' where "Modify E srv ?m (be_srv b) dc descs [] key sg =
      Ret (NO_ERR, ?m\<lparr>mid_index := (mid_index ?m)(dc \<mapsto> header_hash (last recs)),
                     mid_tick := mid_tick ?m + length descs + 2\<rparr>, s')" "extends E dc (be_srv b) recs s'" by blast
  with wr K show thesis
    by (intro that [of "b\<lparr>be_mid := ?m\<lparr>mid_index := (mid_index ?m)(dc \<mapsto> header_hash (last recs)),
          mid_tick := mid_tick ?m + length descs + 2\<rparr>, be_srv := s'\<rparr>"]) (simp_all add: keys_ok_update)
qed

end

section \<open>Reads of the simulated server leave it as it is\<close>

lemma sim_read_keeps: "ReadRecord sim_server s dc r n = Ret (rc, d, s') \<Longrightarrow> s' = s"
  by (auto simp: sim_server_def DCServerSim_ReadRecord_def Let_def outcome_simps split: if_splits option.splits)

lemma sim_ReadRecordData_keeps: "ReadRecordData E sim_server b dc r n = Ret (rc, d, b') \<Longrightarrow> b' = b"
  by (auto simp: ReadRecordData_def Let_def outcome_simps split: if_splits prod.splits dest!: sim_read_keeps)

lemma sim_ReadFileMeta_keeps: "ReadFileMeta E sim_server b dc = Ret (rc, n, sz, k, bm, b') \<Longrightarrow> b' = b"
  by (auto simp: ReadFileMeta_def Let_def outcome_simps split: if_splits prod.splits option.splits dest!: sim_read_keeps)

lemma sim_batch_readable:
  assumes E: "env_ok E" and K: "keys_ok E b" and len: "length dc = 32" "length key = 16" "bs \<noteq> []" "length bs \<le> 512"
    and size: "\<forall>d \<in> set bs. length d \<le> n" "n < 2 ^ 29"
    and recs: "recs = batch_records E t dc dc dc [] (sealed_key E (symmetric_middleware_key (be_mid b)) key) bs"
    and ext: "sim.extends E dc s recs (be_srv b)" and idx: "mid_index (be_mid b) dc = Some (header_hash (last recs))"
  shows "ReadFileMeta E sim_server b dc = Ret (NO_ERR, header_hash (last recs), of_nat (length bs) * 16 * 1024, key,
           header_hash (recs ! length bs), b)"
    and "ReadRecordData E sim_server b dc (header_hash (recs ! length bs)) (32 * 512) =
           Ret (NO_ERR, concat (map header_hash (take (length bs) recs)), b)"
    and "i < length bs \<Longrightarrow> ReadRecordData E sim_server b dc (header_hash (recs ! i)) n = Ret (NO_ERR, bs ! i, b)"
proof -
  have look: "sim_healthy (be_srv b)" "\<forall>p \<in> set recs. sim_lookup (be_srv b) dc (header_hash p) = Some (ser_pdu (cdc E) p)"
    using ext by (simp_all add: sim.extends_def)
  have ne: "\<forall>p \<in> set recs. header_hash p \<noteq> []"
    using batch_name_nonempty [OF env_okD(2) [OF E]] recs by blast
  note r = sim.batch_readable [OF E K look(1) len size recs look(2) ne idx]
  show "ReadFileMeta E sim_server b dc = Ret (NO_ERR, header_hash (last recs), of_nat (length bs) * 16 * 1024, key,
           header_hash (recs ! length bs), b)"
    using r(1) sim_ReadFileMeta_keeps by fastforce
  show "ReadRecordData E sim_server b dc (header_hash (recs ! length bs)) (32 * 512) =
           Ret (NO_ERR, concat (map header_hash (take (length bs) recs)), b)"
    using r(2) sim_ReadRecordData_keeps by fastforce
  show "ReadRecordData E sim_server b dc (header_hash (recs ! i)) n = Ret (NO_ERR, bs ! i, b)" if "i < length bs"
    using r(3) [OF that] sim_ReadRecordData_keeps by fastforce
qed

lemma sim_write_record:
  assumes E: "env_ok E" and K: "keys_ok E b" and s: "sim_healthy (be_srv b)" "sim_known (be_srv b) dc"
    and idx: "mid_index (be_mid b) dc = Some []" and key: "length key = 16"
    and d: "list_all2 (\<lambda>d b. desc_bytes d = Ret b) descs bs" "descs \<noteq> []"
    and recs: "recs = batch_records E (mid_tick (be_mid b)) dc dc dc [] (sealed_key E (symmetric_middleware_key (be_mid b)) key) bs"
    and dist: "distinct (map header_hash recs)"
  obtains b' where "StorageBackend_WriteRecord E sim_server b dc descs [] key = Ret (NO_ERR, b')"
    and "keys_ok E b'" and "mid_index (be_mid b') = (mid_index (be_mid b))(dc \<mapsto> header_hash (last recs))"
    and "symmetric_middleware_key (be_mid b') = symmetric_middleware_key (be_mid b)"
    and "mid_tick (be_mid b') = mid_tick (be_mid b) + length descs + 2"
    and "sim.extends E dc (be_srv b) recs (be_srv b')"
  by (rule sim.write_first_batch [OF E K s idx key d recs sim_writable [OF env_okD(2) [OF E] dist recs]]) (rule that)

section \<open>A concrete backend\<close>

definition sample_backend :: "dcserver_sim \<Rightarrow> dcserver_sim backend" where
  "sample_backend s = \<lparr>be_mid = sample_mid, be_srv = s, be_client_key_pair = Some ''key''\<rparr>"

lemma sample_backend_simps [simp]:
  "be_mid (sample_backend s) = sample_mid" "be_srv (sample_backend s) = s"
  "be_client_key_pair (sample_backend s) = Some ''key''"
  by (simp_all add: sample_backend_def)

lemma sample_keys_ok: "keys_ok sample_env (sample_backend s)"
  using sample_ecdsa_ok [of "''key''"] by (simp add: keys_ok_def sample_mid_def sample_env_def)

section \<open>Properties\<close>

text \<open>
  The first write of a file can be read back: after \<open>WriteRecord\<close>, \<open>ReadFileMeta\<close> returns
  the name of the inode record just written, 16 KiB for every block, the file's own key and
  the name of the block map; the block map's payload is the concatenation of the blocks'
  names; and \<open>ReadRecordData\<close> of each of these names returns the block's bytes.
\<close>

theorem backend_round_trip:
  assumes "env_ok E" and "keys_ok E b" and "sim_healthy (be_srv b)" and "sim_known (be_srv b) dc"
    and "mid_index (be_mid b) dc = Some []" and "length dc = 32" and "length key = 16"
    and "list_all2 (\<lambda>d b. desc_bytes d = Ret b) descs bs" and "descs \<noteq> []" and "length bs \<le> 512"
    and "\<forall>d \<in> set bs. length d \<le> n" and "n < 2 ^ 29"
    and "recs = batch_records E (mid_tick (be_mid b)) dc dc dc []
           (sealed_key E (symmetric_middleware_key (be_mid b)) key) bs"
    and "distinct (map header_hash recs)"
  shows "\<exists>b'. StorageBackend_WriteRecord E sim_server b dc descs [] key = Ret (NO_ERR, b') \<and>
    ReadFileMeta E sim_server b' dc = Ret (NO_ERR, header_hash (last recs), of_nat (length bs) * 16 * 1024, key,
      header_hash (recs ! length bs), b') \<and>
    ReadRecordData E sim_server b' dc (header_hash (recs ! length bs)) (32 * 512) =
      Ret (NO_ERR, concat (map header_hash (take (length bs) recs)), b') \<and>
    (\<forall>i < length bs. ReadRecordData E sim_server b' dc (header_hash (recs ! i)) n = Ret (NO_ERR, bs ! i, b'))"
proof -
  obtain b' where b': "StorageBackend_WriteRecord E sim_server b dc descs [] key = Ret (NO_ERR, b')"
    "keys_ok E b'" "mid_index (be_mid b') = (mid_index (be_mid b))(dc \<mapsto> header_hash (last recs))"
    "symmetric_middleware_key (be_mid b') = symmetric_middleware_key (be_mid b)"
    "mid_tick (be_mid b') = mid_tick (be_mid b) + length descs + 2"
    "sim.extends E dc (be_srv b) recs (be_srv b')"
    by (rule sim_write_record [OF assms(1-5,7-9,13,14)])
  have bs: "bs \<noteq> []" using assms(8,9) by auto
  have idx: "mid_index (be_mid b') dc = Some (header_hash (last recs))" using b'(3) by simp
  note readable = sim_batch_readable [OF assms(1) b'(2) assms(6,7) bs assms(10-12)
      assms(13) [folded b'(4)] b'(6) idx]
  show ?thesis using b'(1) readable by blast
qed

theorem backend_round_trip_witness:
  "\<exists>s b' name. StorageBackend_WriteRecord sample_env sim_server (sample_backend s) sample_dc
       [sample_desc ''hello'', sample_desc ''world''] [] sample_key = Ret (NO_ERR, b') \<and>
     ReadRecordData sample_env sim_server b' sample_dc name 5 = Ret (NO_ERR, ''world'', b')"
proof -
  obtain s where s: "sim_healthy s" "sim_known s sample_dc" by (rule sample_known)
  let ?bs = "[''hello'', ''world'']"
  let ?b = "sample_backend s"
  define recs where "recs = batch_records sample_env (mid_tick (be_mid ?b)) sample_dc sample_dc sample_dc []
    (sealed_key sample_env (symmetric_middleware_key (be_mid ?b)) sample_key) ?bs"
  have d: "list_all2 (\<lambda>d b. desc_bytes d = Ret b) (map sample_desc ?bs) ?bs" by (rule sample_descs)
  have dist: "distinct (map header_hash recs)"
    unfolding recs_def by (rule sample_batch_distinct) (simp add: sample_mid_def)
  have m: "mid_index (be_mid ?b) sample_dc = Some []" "length sample_dc = 32" "length sample_key = 16"
    by (simp_all add: sample_mid_def sample_key_def sample_dc_def)
  have "\<exists>b'. StorageBackend_WriteRecord sample_env sim_server ?b sample_dc (map sample_desc ?bs) [] sample_key
      = Ret (NO_ERR, b') \<and> ReadRecordData sample_env sim_server b' sample_dc (header_hash (recs ! 1)) 5 = Ret (NO_ERR, ?bs ! 1, b')"
    using backend_round_trip [OF sample_env_ok sample_keys_ok _ _ m d _ _ _ _ recs_def dist, of 5] s by auto
  then show ?thesis by auto
qed

text \<open>
  C17. What reading the metadata of a file can run into. A capsule the middleware does not know
  gives \<open>ERR_NOT_FOUND\<close>. For a known one \<open>ReadFileMeta\<close> does not look at the result of
  \<open>ReadRecord\<close>: whenever the server reports an error, with nothing read, the call aborts in the
  assertion on the number of hashes of the (empty) record.
\<close>

theorem meta_failures:
  assumes "env_ok E" and "keys_ok E b"
  shows "(mid_index (be_mid b) dc = None \<longrightarrow> ReadFileMeta E srv b dc = Ret (ERR_NOT_FOUND, [], 0, [], [], b)) \<and>
    (\<forall>latest rc s'. mid_index (be_mid b) dc = Some latest \<and> ReadRecord srv (be_srv b) dc latest 1024 = Ret (rc, [], s') \<longrightarrow>
       ReadFileMeta E srv b dc = Fault Assertion_failed)"
proof -
  obtain sg where sg: "sign (ossl E) (no_sign E) (be_client_key_pair b) (Some (digest E dc)) = Ret (Some sg)"
    "GetInodeName E (be_mid b) dc sg =
      Ret (case mid_index (be_mid b) dc of None \<Rightarrow> (ERR_NOT_FOUND, []) | Some name \<Rightarrow> (NO_ERR, name))"
    by (rule GetInodeName_signed [OF assms])
  have "parse_pdu (cdc E) [] = empty_pdu" using env_okD(1) [OF assms(1)] by (simp add: codec_ok_def)
  with sg show ?thesis
    by (auto simp: ReadFileMeta_def digest_eq [OF env_okD(2) [OF assms(1)]] Let_def empty_pdu_def empty_header_def)
qed

theorem meta_failures_witness:
  "\<exists>b. mid_index (be_mid b) sample_dc = Some ''gone'' \<and>
     ReadFileMeta sample_env sim_server b sample_dc = Fault Assertion_failed \<and>
     ReadFileMeta sample_env sim_server b ''nobody'' = Ret (ERR_NOT_FOUND, [], 0, [], [], b)"
proof -
  define b where "b = (sample_backend sim_init)\<lparr>be_mid := sample_mid\<lparr>mid_index := [sample_dc \<mapsto> ''gone'']\<rparr>\<rparr>"
  have k: "keys_ok sample_env b"
    using sample_keys_ok [of sim_init] by (simp add: keys_ok_def b_def)
  have "''nobody'' \<noteq> sample_dc" by (simp add: sample_dc_def numeral_eq_Suc)
  then have i: "mid_index (be_mid b) sample_dc = Some ''gone''" "mid_index (be_mid b) ''nobody'' = None"
    by (simp_all add: b_def)
  have "ReadRecord sim_server (be_srv b) sample_dc ''gone'' 1024 = Ret (ERR_NOT_FOUND, [], be_srv b)"
    using sim_read_missing [OF sim_init_tidy sim_init_empty(1), of sample_dc "''gone''"]
    by (simp add: sim_server_def b_def) (simp add: sample_dc_def)
  with i meta_failures [OF sample_env_ok k, of sample_dc sim_server] meta_failures [OF sample_env_ok k, of "''nobody''" sim_server]
  show ?thesis by blast
qed

text \<open>
  In a build with \<open>NO_SIGN\<close> nothing can be read or written through the backend: \<open>sign\<close>
  reports an empty signature, which both callers take for a failure, and neither the
  middleware nor the server is asked. Writing no blocks at all is a successful no-op in every
  build.
\<close>

theorem no_sign_build:
  assumes "sha_ok (ossl E)" and "no_sign E" and "list_all2 (\<lambda>d b. desc_bytes d = Ret b) descs bs"
  shows "ReadFileMeta E srv b dc = Ret (ERR_SIGN, [], 0, [], [], b) \<and>
    StorageBackend_WriteRecord E srv b dc descs ih key = Ret (if descs = [] then NO_ERR else ERR_SIGN, b)"
  using assms
  by (simp add: ReadFileMeta_def StorageBackend_WriteRecord_def sign_def digest_eq signed_args_eq)

theorem no_sign_build_witness:
  "ReadFileMeta (sample_env\<lparr>no_sign := True\<rparr>) sim_server (sample_backend sim_init) sample_dc
     = Ret (ERR_SIGN, [], 0, [], [], sample_backend sim_init) \<and>
   StorageBackend_WriteRecord (sample_env\<lparr>no_sign := True\<rparr>) sim_server (sample_backend sim_init) sample_dc
     [sample_desc ''x''] [] sample_key = Ret (ERR_SIGN, sample_backend sim_init)"
proof -
  let ?E = "sample_env\<lparr>no_sign := True\<rparr>"
  have e: "sha_ok (ossl ?E)" "no_sign ?E" using env_okD(2) [OF sample_env_ok] by simp_all
  have d: "list_all2 (\<lambda>d b. desc_bytes d = Ret b) [sample_desc ''x''] [''x'']"
    using sample_descs [of "[''x'']"] by simp
  show ?thesis using no_sign_build [OF e d, of sim_server "sample_backend sim_init" sample_dc] by simp
qed

end
