(* ===== verification/Record_Cache.thy ===== *)
theory Record_Cache
  imports Storage
begin

text \<open>
  The in-memory file of \<open>src/src/fs/inode.hpp\<close> and \<open>inode.cpp\<close>: an \<open>Inode\<close> and its
  \<open>RecordCache\<close>, a write-back cache of decrypted blocks over the storage backend. The two
  objects own each other one to one and are one record here.

  Caller buffers are the accessible bytes at the pointer the caller passes: \<open>src\<close> for a write,
  \<open>dst\<close> for a read, whose new contents are part of the result. Addresses in the file are
  \<open>uint64_t\<close>; positions in vectors and blocks are the natural numbers they denote.
\<close>

section \<open>Definitions\<close>

record cstat =
  cached :: bool
  dirty :: bool

record inode =
  i_hashname :: string
  i_ino_recordname :: string
  i_size :: u64
  i_block_size :: u64
  i_bm_cover :: u64
  i_bm_recordname :: string
  i_aes_key :: string
  i_ref_count :: u64
  dcache_stats :: "cstat list"
  dcache_blocks :: "string option list"
  bm_buf :: "string option"

definition cstat_init :: cstat where
  "cstat_init = \<lparr>cached = False, dirty = False\<rparr>"

text \<open>
  The constructor of an inode loaded from its record, with that of its cache: one slot more
  than the size holds whole blocks. A block size of 0 divides by zero.
\<close>

definition Inode ::
    "string \<Rightarrow> string \<Rightarrow> string \<Rightarrow> u64 \<Rightarrow> u64 \<Rightarrow> u64 \<Rightarrow> string \<Rightarrow> inode outcome" where
  "Inode hashname ino_recordname bm_recordname kb bm_cover sz aes_key =
     (let bs = kb * 1024; slots = unat (sz div bs + 1) in
      bindO (validO (bs \<noteq> 0)) (\<lambda>_.
      Ret \<lparr>i_hashname = hashname, i_ino_recordname = ino_recordname, i_size = sz, i_block_size = bs,
           i_bm_cover = bm_cover, i_bm_recordname = bm_recordname, i_aes_key = aes_key, i_ref_count = 0,
           dcache_stats = replicate slots cstat_init, dcache_blocks = replicate slots None, bm_buf = None\<rparr>))"

definition Inode_fresh :: "string \<Rightarrow> u64 \<Rightarrow> u64 \<Rightarrow> string \<Rightarrow> inode outcome" where
  "Inode_fresh hashname kb bm_cover aes_key =
     Inode hashname [] [] kb bm_cover 0 aes_key"

definition BlockSize :: "inode \<Rightarrow> nat" where
  "BlockSize ino = unat (i_block_size ino)"

text \<open>
  \<open>fillBmcache\<close>: the block map is read once, into a zeroed buffer that stays in place when the
  read fails.
\<close>

definition fillBmcache :: "env \<Rightarrow> 's dcserver \<Rightarrow> inode \<Rightarrow> 's backend \<Rightarrow> (err_t \<times> inode \<times> 's backend) outcome" where
  "fillBmcache E srv ino b =
     (if bm_buf ino = None \<and> 0 < length (i_bm_recordname ino)
      then
        let n = HASHLEN_IN_BYTES * unat (i_bm_cover ino) in
        bindO (ReadRecordData E srv b (i_hashname ino) (i_bm_recordname ino) n) (\<lambda>(ret, data, b').
        if ret < 0 then Ret (ret, ino\<lparr>bm_buf := Some (replicate n NUL)\<rparr>, b')
        else bindO (memcpy (replicate n NUL) 0 data 0 (length data)) (\<lambda>m.
          Ret (ret, ino\<lparr>bm_buf := Some m\<rparr>, b')))
      else Ret (NO_ERR, ino, b))"

definition zero_str :: string where
  "zero_str = replicate HASHLEN_IN_BYTES NUL"

text \<open>\<open>bmCheck\<close>: the name stored for a block, unless it compares equal to the zero string.\<close>

definition bmCheck :: "inode \<Rightarrow> nat \<Rightarrow> string option outcome" where
  "bmCheck ino blk_idx =
     (case bm_buf ino of
        None \<Rightarrow> Ret None
      | Some m \<Rightarrow>
          if unat (i_bm_cover ino) \<le> blk_idx then Ret None
          else bindO (cread m (blk_idx * HASHLEN_IN_BYTES) HASHLEN_IN_BYTES) (\<lambda>h.
            Ret (if strcmp_eq h zero_str then None else Some h)))"

text \<open>
  The body of the loop of \<open>fillDcache\<close>. \<open>load_block\<close> gives the memory of a new block its contents:
  a block that the map names is read and decrypted, and the result of the decryption is not
  checked; any other block is zero filled. \<open>ret\<close> is the value of that variable before the
  iteration.
\<close>

definition load_block ::
    "env \<Rightarrow> 's dcserver \<Rightarrow> err_t \<Rightarrow> inode \<Rightarrow> 's backend \<Rightarrow> nat \<Rightarrow> string \<Rightarrow> string option \<Rightarrow>
     (err_t \<times> inode \<times> 's backend) outcome" where
  "load_block E srv ret ino b blk_idx mem found =
     (let bs = BlockSize ino;
          put = (\<lambda>blk. ino\<lparr>dcache_blocks := (dcache_blocks ino)[blk_idx := Some blk],
            dcache_stats := (dcache_stats ino)[blk_idx := (dcache_stats ino ! blk_idx)\<lparr>cached := True\<rparr>]\<rparr>) in
      case found of
        Some recordname \<Rightarrow>
          bindO (ReadRecordData E srv b (i_hashname ino) recordname (bs + AES_PAD_LEN)) (\<lambda>(ret, data, b').
          if ret < 0 then Ret (ret, ino, b')
          else
            bindO (assertO (length data \<le> bs + AES_PAD_LEN)) (\<lambda>_.
            bindO (cread (c_str (i_aes_key ino)) 0 AES_KEY_LEN) (\<lambda>key.
            let out = (case snd (decrypt_symmetric (ossl E) key None data) of None \<Rightarrow> [] | Some p \<Rightarrow> p) in
            bindO (memcpy mem 0 out 0 (length out)) (\<lambda>blk. Ret (ret, put blk, b')))))
      | None \<Rightarrow> bindO (memcpy mem 0 (replicate bs NUL) 0 bs) (\<lambda>blk. Ret (ret, put blk, b)))"

definition fill_block ::
    "env \<Rightarrow> 's dcserver \<Rightarrow> err_t \<Rightarrow> inode \<Rightarrow> 's backend \<Rightarrow> nat \<Rightarrow> (err_t \<times> inode \<times> 's backend) outcome" where
  "fill_block E srv ret ino0 b blk_idx =
     (let ino = (if length (dcache_stats ino0) \<le> blk_idx
                 then ino0\<lparr>dcache_stats := dcache_stats ino0 @ [cstat_init], dcache_blocks := dcache_blocks ino0 @ [None]\<rparr>
                 else ino0) in
      bindO (vec_at (dcache_stats ino) blk_idx) (\<lambda>st.
      if cached st then Ret (ret, ino, b)
      else
        let mem = fresh_mem E (BlockSize ino + AES_PAD_LEN) in
        bindO (vec_set (dcache_blocks ino) blk_idx (Some mem)) (\<lambda>blocks.
        bindO (bmCheck ino blk_idx) (\<lambda>found.
        load_block E srv ret (ino\<lparr>dcache_blocks := blocks\<rparr>) b blk_idx mem found))))"

fun fill_blocks ::
    "env \<Rightarrow> 's dcserver \<Rightarrow> err_t \<Rightarrow> inode \<Rightarrow> 's backend \<Rightarrow> nat list \<Rightarrow> (err_t \<times> inode \<times> 's backend) outcome" where
  "fill_blocks E srv ret ino b [] = Ret (ret, ino, b)"
| "fill_blocks E srv ret ino b (i # is) =
     bindO (fill_block E srv ret ino b i) (\<lambda>(ret, ino, b).
     if ret < 0 then Ret (ret, ino, b) else fill_blocks E srv ret ino b is)"

definition fillDcache ::
    "env \<Rightarrow> 's dcserver \<Rightarrow> inode \<Rightarrow> 's backend \<Rightarrow> u64 \<Rightarrow> u64 \<Rightarrow> (err_t \<times> inode \<times> 's backend) outcome" where
  "fillDcache E srv ino b offset sz =
     bindO (validO (i_block_size ino \<noteq> 0)) (\<lambda>_.
     let st = unat (offset div i_block_size ino);
         ed_block = unat ((offset + sz) div i_block_size ino);
         st_block = (if length (dcache_stats ino) < st then length (dcache_stats ino) else st) in
     bindO (fillBmcache E srv ino b) (\<lambda>(ret, ino, b).
     if ret < 0 then Ret (ret, ino, b)
     else fill_blocks E srv ret ino b [st_block..<Suc ed_block]))"

text \<open>
  The \<open>memcpy\<close> calls of \<open>RecordCache::Read\<close> (lines 199 to 212) and \<open>RecordCache::Write\<close> (lines
  231 to 252), which split a request the same way: block, offset in the block, offset in the
  caller's buffer, length. The last of several blocks gets \<open>ed_offset + 1\<close> bytes.
\<close>

fun whole_blocks :: "nat \<Rightarrow> nat \<Rightarrow> nat list \<Rightarrow> (nat \<times> nat \<times> nat \<times> nat) list \<times> nat" where
  "whole_blocks bs cur [] = ([], cur)"
| "whole_blocks bs cur (i # is) = (let (cs, cur') = whole_blocks bs (cur + bs) is in ((i, 0, cur, bs) # cs, cur'))"

definition copies :: "nat \<Rightarrow> nat \<Rightarrow> nat \<Rightarrow> nat \<Rightarrow> nat \<Rightarrow> nat \<Rightarrow> (nat \<times> nat \<times> nat \<times> nat) list" where
  "copies bs st_block ed_block st_offset ed_offset n =
     (if st_block = ed_block then [(st_block, st_offset, 0, n)]
      else if st_block + 1 = ed_block
      then [(st_block, st_offset, 0, bs - st_offset), (ed_block, 0, bs - st_offset, ed_offset + 1)]
      else
        let cur = bs - st_offset; (cs, cur') = whole_blocks bs cur [st_block + 1..<ed_block]
        in (st_block, st_offset, 0, bs - st_offset) # cs @ [(ed_block, 0, cur', ed_offset + 1)])"

definition request_copies :: "inode \<Rightarrow> u64 \<Rightarrow> u64 \<Rightarrow> (nat \<times> nat \<times> nat \<times> nat) list" where
  "request_copies ino offset sz =
     (let bs = i_block_size ino in
      copies (BlockSize ino) (unat (offset div bs)) (unat ((offset + sz) div bs)) (unat (offset mod bs))
        (unat ((offset + sz) mod bs)) (unat sz))"

fun copy_out :: "inode \<Rightarrow> string \<Rightarrow> (nat \<times> nat \<times> nat \<times> nat) list \<Rightarrow> string outcome" where
  "copy_out ino dst [] = Ret dst"
| "copy_out ino dst ((i, off, pos, n) # cs) =
     bindO (vec_at (dcache_blocks ino) i) (\<lambda>p.
     bindO (deref p) (\<lambda>blk.
     bindO (memcpy dst pos blk off n) (\<lambda>dst'. copy_out ino dst' cs)))"

fun copy_in :: "inode \<Rightarrow> string \<Rightarrow> (nat \<times> nat \<times> nat \<times> nat) list \<Rightarrow> inode outcome" where
  "copy_in ino src [] = Ret ino"
| "copy_in ino src ((i, off, pos, n) # cs) =
     bindO (vec_at (dcache_blocks ino) i) (\<lambda>p.
     bindO (deref p) (\<lambda>blk.
     bindO (memcpy blk off src pos n) (\<lambda>blk'.
     bindO (vec_at (dcache_stats ino) i) (\<lambda>st.
     copy_in (ino\<lparr>dcache_blocks := (dcache_blocks ino)[i := Some blk'],
                  dcache_stats := (dcache_stats ino)[i := st\<lparr>dirty := True\<rparr>]\<rparr>) src cs))))"

definition RecordCache_Read ::
    "env \<Rightarrow> 's dcserver \<Rightarrow> inode \<Rightarrow> 's backend \<Rightarrow> string \<Rightarrow> u64 \<Rightarrow> u64 \<Rightarrow> (err_t \<times> string \<times> inode \<times> 's backend) outcome" where
  "RecordCache_Read E srv ino b dst offset sz =
     bindO (assertO (0 < sz)) (\<lambda>_.
     bindO (fillDcache E srv ino b offset sz) (\<lambda>(ret, ino, b).
     if ret < 0 then Ret (ret, dst, ino, b)
     else bindO (copy_out ino dst (request_copies ino offset sz)) (\<lambda>dst'. Ret (ret, dst', ino, b))))"

text \<open>\<open>RecordCache::Write\<close> goes on after a failed \<open>fillDcache\<close> and returns its error at the end.\<close>

definition RecordCache_Write ::
    "env \<Rightarrow> 's dcserver \<Rightarrow> inode \<Rightarrow> 's backend \<Rightarrow> string \<Rightarrow> u64 \<Rightarrow> u64 \<Rightarrow> (err_t \<times> inode \<times> 's backend) outcome" where
  "RecordCache_Write E srv ino b src offset sz =
     bindO (assertO (0 < sz)) (\<lambda>_.
     bindO (fillDcache E srv ino b offset sz) (\<lambda>(ret, ino, b).
     bindO (copy_in ino src (request_copies ino offset sz)) (\<lambda>ino. Ret (ret, ino, b))))"

text \<open>The first loop of \<open>FlushCache\<close>: one encrypted buffer for every dirty block.\<close>

fun flush_descs :: "env \<Rightarrow> inode \<Rightarrow> nat list \<Rightarrow> (err_t \<times> buf_desc_t list) outcome" where
  "flush_descs E ino [] = Ret (NO_ERR, [])"
| "flush_descs E ino (i # is) =
     bindO (vec_at (dcache_stats ino) i) (\<lambda>st.
     if \<not> dirty st then flush_descs E ino is
     else
       bindO (cread (c_str (i_aes_key ino)) 0 AES_KEY_LEN) (\<lambda>key.
       bindO (vec_at (dcache_blocks ino) i) (\<lambda>p.
       bindO (deref p) (\<lambda>blk.
       bindO (cread blk 0 (BlockSize ino)) (\<lambda>plain.
       let (rc, enc) = encrypt_symmetric (ossl E) key None plain;
           out = (case enc of None \<Rightarrow> [] | Some c \<Rightarrow> c);
           mem = fresh_mem E (BlockSize ino + AES_PAD_LEN) in
       bindO (memcpy mem 0 out 0 (length out)) (\<lambda>mem'.
       if rc \<le> 0 then Ret (ERR_CRYPTO, [])
       else bindO (flush_descs E ino is) (\<lambda>(ret, ds).
         Ret (ret, \<lparr>buf = mem', desc_size = length out, file_offset = of_nat i * i_block_size ino\<rparr> # ds))))))))"

definition drop_caches :: "inode \<Rightarrow> inode" where
  "drop_caches ino =
     ino\<lparr>dcache_blocks := map (\<lambda>_. None) (dcache_blocks ino), dcache_stats := map (\<lambda>_. cstat_init) (dcache_stats ino)\<rparr>"

definition FlushCache :: "env \<Rightarrow> 's dcserver \<Rightarrow> inode \<Rightarrow> 's backend \<Rightarrow> (err_t \<times> inode \<times> 's backend) outcome" where
  "FlushCache E srv ino b =
     bindO (flush_descs E ino [0..<length (dcache_stats ino)]) (\<lambda>(ret, descs).
     if ret < 0 then Ret (ret, ino, b)
     else bindO (StorageBackend_WriteRecord E srv b (i_hashname ino) descs (i_ino_recordname ino) (i_aes_key ino))
       (\<lambda>(ret, b').
       if ret < 0 then Ret (ret, ino, b') else Ret (ret, drop_caches ino, b')))"

text \<open>\<open>Inode::Read\<close>: \<open>None\<close> is a \<open>*read_size\<close> left alone, at or beyond the end of the file.\<close>

definition Inode_Read ::
    "env \<Rightarrow> 's dcserver \<Rightarrow> inode \<Rightarrow> 's backend \<Rightarrow> string \<Rightarrow> u64 \<Rightarrow> u64 \<Rightarrow>
     (err_t \<times> u64 option \<times> string \<times> inode \<times> 's backend) outcome" where
  "Inode_Read E srv ino b dst offset sz =
     (if i_size ino \<le> offset then Ret (0, None, dst, ino, b)
      else
        let sz' = (if i_size ino < offset + sz then i_size ino - offset else sz) in
        bindO (RecordCache_Read E srv ino b dst offset sz') (\<lambda>(ret, dst', ino', b').
        Ret (ret, Some sz', dst', ino', b')))"

definition Inode_Write ::
    "env \<Rightarrow> 's dcserver \<Rightarrow> inode \<Rightarrow> 's backend \<Rightarrow> string \<Rightarrow> u64 \<Rightarrow> u64 \<Rightarrow>
     (err_t \<times> u64 \<times> inode \<times> 's backend) outcome" where
  "Inode_Write E srv ino b src offset0 sz =
     (let offset = (if i_size ino \<le> offset0 then i_size ino else offset0) in
      bindO (RecordCache_Write E srv ino b src offset sz) (\<lambda>(ret, ino', b').
      Ret (ret, sz,
        if ret = NO_ERR \<and> i_size ino' < offset + sz then ino'\<lparr>i_size := offset + sz\<rparr> else ino', b')))"

definition Ref :: "inode \<Rightarrow> inode" where
  "Ref ino = ino\<lparr>i_ref_count := i_ref_count ino + 1\<rparr>"

text \<open>\<open>Unref\<close>: the result of \<open>FlushCache\<close> is dropped; the count is returned as an \<open>int\<close>.\<close>

definition Unref :: "env \<Rightarrow> 's dcserver \<Rightarrow> inode \<Rightarrow> 's backend \<Rightarrow> (32 word \<times> inode \<times> 's backend) outcome" where
  "Unref E srv ino b =
     bindO (assertO (0 < i_ref_count ino)) (\<lambda>_.
     let ino1 = ino\<lparr>i_ref_count := i_ref_count ino - 1\<rparr> in
     if i_ref_count ino1 = 0
     then bindO (FlushCache E srv ino1 b) (\<lambda>(err, ino2, b'). Ret (ucast (i_ref_count ino2), ino2, b'))
     else Ret (ucast (i_ref_count ino1), ino1, b))"

section \<open>How a request is split\<close>

text \<open>
  Where the copy of block \<open>i\<close> of a request starts and ends, and the request's last byte: one
  byte too many as soon as a second block is touched.
\<close>

definition copy_from :: "nat \<Rightarrow> nat \<Rightarrow> nat \<Rightarrow> nat" where
  "copy_from bs off i = (if i = off div bs then off mod bs else 0)"

definition overrun :: "nat \<Rightarrow> nat \<Rightarrow> nat \<Rightarrow> nat" where
  "overrun bs off n = (if off div bs = (off + n) div bs then 0 else 1)"

definition copy_to :: "nat \<Rightarrow> nat \<Rightarrow> nat \<Rightarrow> nat \<Rightarrow> nat" where
  "copy_to bs off n i = (if i = (off + n) div bs then (off + n) mod bs + overrun bs off n else bs)"

definition copy_of :: "nat \<Rightarrow> nat \<Rightarrow> nat \<Rightarrow> nat \<Rightarrow> nat \<times> nat \<times> nat \<times> nat" where
  "copy_of bs off n i =
     (i, copy_from bs off i, i * bs + copy_from bs off i - off, copy_to bs off n i - copy_from bs off i)"

lemma whole_blocks_eq:
  "a \<le> b \<Longrightarrow> whole_blocks bs cur [a..<b] = (map (\<lambda>i. (i, 0, cur + (i - a) * bs, bs)) [a..<b], cur + (b - a) * bs)"
proof (induction "b - a" arbitrary: a cur)
  case 0
  then show ?case by simp
next
  case (Suc k)
  then have a: "a < b" "[a..<b] = a # [Suc a..<b]" by (simp_all add: upt_conv_Cons)
  have d: "cur + bs + (i - Suc a) * bs = cur + (i - a) * bs" if "a < i" for i
    using that by (metis Suc_diff_Suc ab_semigroup_add_class.add_ac(1) mult_Suc)
  have "whole_blocks bs (cur + bs) [Suc a..<b] =
      (map (\<lambda>i. (i, 0, cur + bs + (i - Suc a) * bs, bs)) [Suc a..<b], cur + bs + (b - Suc a) * bs)"
    using Suc.hyps(2) a(1) by (intro Suc.hyps(1)) linarith+
  then show ?case using a d by (auto simp: Let_def)
qed

lemma copies_eq:
  assumes bs: "0 < bs" and st: "off div bs \<le> (off + n) div bs"
  shows "copies bs (off div bs) ((off + n) div bs) (off mod bs) ((off + n) mod bs) n
    = map (copy_of bs off n) [off div bs..<Suc ((off + n) div bs)]"
proof -
  define st ed where "st = off div bs" and "ed = (off + n) div bs"
  have off: "off = st * bs + off mod bs" by (simp add: st_def)
  have m: "off mod bs < bs" using bs by simp
  have pos: "i * bs - off = bs - off mod bs + (i - Suc st) * bs" if "st < i" for i
  proof -
    have "i * bs = st * bs + bs + (i - Suc st) * bs"
      using that by (metis Suc_leI add.commute add_mult_distrib le_add_diff_inverse mult_Suc)
    then show ?thesis using off m by linarith
  qed
  consider "st = ed" | "ed = st + 1" | "st + 1 < ed" using st unfolding st_def ed_def by linarith
  then show ?thesis
  proof cases
    case 1
    then have "(off + n) mod bs - off mod bs = n"
      by (metis add_diff_cancel_left add_diff_cancel_left' div_mult_mod_eq ed_def st_def)
    moreover have "(off + n) div bs * bs + off mod bs = off" using 1 off by (simp add: ed_def)
    ultimately show ?thesis
      using 1 by (simp add: copies_def copy_of_def copy_from_def copy_to_def overrun_def st_def ed_def)
  next
    case 2
    then have u: "[st..<Suc ed] = [st, ed]" by simp
    show ?thesis
      unfolding st_def [symmetric] ed_def [symmetric] u
      using 2 pos [of ed] by (simp add: copies_def copy_of_def copy_from_def copy_to_def overrun_def st_def ed_def)
  next
    case 3
    then have u: "[st..<Suc ed] = st # [st + 1..<ed] @ [ed]" by (simp add: upt_conv_Cons)
    have mid: "copy_of bs off n i = (i, 0, bs - off mod bs + (i - Suc st) * bs, bs)" if "st < i" "i < ed" for i
      using that pos [of i] by (simp add: copy_of_def copy_from_def copy_to_def st_def ed_def)
    have ends: "copy_of bs off n st = (st, off mod bs, 0, bs - off mod bs)"
      "copy_of bs off n ed = (ed, 0, bs - off mod bs + (ed - (st + 1)) * bs, (off + n) mod bs + 1)"
      using 3 pos [of ed] by (auto simp: copy_of_def copy_from_def copy_to_def overrun_def st_def ed_def)
    show ?thesis
      unfolding st_def [symmetric] ed_def [symmetric] u copies_def
      using 3 by (auto simp: whole_blocks_eq mid ends Let_def simp del: upt_Suc)
  qed
qed

lemma copy_of_bounds:
  assumes "0 < bs" and "off div bs \<le> i" and "i \<le> (off + n) div bs" and "copy_of bs off n i = (j, o1, p, k)"
  shows "j = i" and "i * bs + o1 = off + p" and "o1 + k \<le> bs" and "p + k \<le> n + overrun bs off n"
    and "i < (off + n) div bs \<Longrightarrow> p + k \<le> n" and "i = (off + n) div bs \<Longrightarrow> p + k = n + overrun bs off n"
    and "q div bs = i \<Longrightarrow> o1 \<le> q mod bs \<and> q mod bs < o1 + k \<longleftrightarrow> off \<le> q \<and> q < off + n + overrun bs off n"
proof -
  define st ed where "st = off div bs" and "ed = (off + n) div bs"
  have c: "j = i" "o1 = copy_from bs off i" "p = i * bs + o1 - off" "k = copy_to bs off n i - o1"
    using assms(4) by (auto simp: copy_of_def)
  show "j = i" by (rule c(1))
  have off: "st * bs + off mod bs = off" "off mod bs < bs" using assms(1) by (simp_all add: st_def)
  have en: "ed * bs + (off + n) mod bs = off + n" "(off + n) mod bs < bs" using assms(1) by (simp_all add: ed_def)
  have st: "i * bs + o1 = off \<and> i = st \<or> off \<le> i * bs \<and> o1 = 0 \<and> st < i"
  proof (cases "i = st")
    case False
    then have "Suc st * bs \<le> i * bs" using assms(2) by (intro mult_le_mono1) (simp add: st_def)
    then have "off \<le> i * bs" using off by simp
    then show ?thesis using False assms(2) by (auto simp: c(2) copy_from_def st_def)
  qed (use off in \<open>simp add: c(2) copy_from_def st_def\<close>)
  then show ip: "i * bs + o1 = off + p" using c(3) by linarith
  have o1: "o1 \<le> copy_to bs off n i" "copy_to bs off n i \<le> bs"
  proof -
    show "copy_to bs off n i \<le> bs" using en(2) by (auto simp: copy_to_def overrun_def)
    show "o1 \<le> copy_to bs off n i"
    proof (cases "i = ed \<and> i = st")
      case True
      then have "off mod bs \<le> (off + n) mod bs" using off(1) en(1) by (metis add_le_cancel_left le_add1)
      then show ?thesis using True by (simp add: c(2) copy_from_def copy_to_def st_def ed_def)
    qed (use off in \<open>auto simp: c(2) copy_from_def copy_to_def st_def ed_def\<close>)
  qed
  then show "o1 + k \<le> bs" using c(4) by linarith
  have ed: "i = ed \<and> i * bs + copy_to bs off n i = off + n + overrun bs off n \<or>
      i < ed \<and> copy_to bs off n i = bs \<and> i * bs + bs \<le> off + n"
  proof (cases "i = ed")
    case False
    then have "Suc i * bs \<le> ed * bs" using assms(3) by (intro mult_le_mono1) (simp add: ed_def)
    then have "i * bs + bs \<le> off + n" using en by simp
    then show ?thesis using False assms(3) by (auto simp: copy_to_def ed_def)
  qed (use en in \<open>simp add: copy_to_def ed_def\<close>)
  then show "p + k \<le> n + overrun bs off n" using ip c(4) o1 by linarith
  show "p + k \<le> n" if "i < (off + n) div bs" using that ed ip c(4) o1 unfolding ed_def by linarith
  show "p + k = n + overrun bs off n" if "i = (off + n) div bs" using that ed ip c(4) o1 unfolding ed_def by linarith
  assume "q div bs = i"
  then have q: "i * bs + q mod bs = q" "q mod bs < bs" using assms(1) by (metis div_mult_mod_eq, simp)
  have "o1 \<le> q mod bs \<longleftrightarrow> off \<le> q" using st q by (auto)
  moreover have "q mod bs < o1 + k \<longleftrightarrow> q < off + n + overrun bs off n" using ed q c(4) o1 by auto
  ultimately show "o1 \<le> q mod bs \<and> q mod bs < o1 + k \<longleftrightarrow> off \<le> q \<and> q < off + n + overrun bs off n" by blast
qed

section \<open>The invariant of a cache\<close>

definition is_cached :: "inode \<Rightarrow> nat \<Rightarrow> bool" where
  "is_cached ino i \<longleftrightarrow> i < length (dcache_stats ino) \<and> cached (dcache_stats ino ! i)"

definition is_dirty :: "inode \<Rightarrow> nat \<Rightarrow> bool" where
  "is_dirty ino i \<longleftrightarrow> i < length (dcache_stats ino) \<and> dirty (dcache_stats ino ! i)"

text \<open>
  Slots in both vectors correspond; a slot that is cached or dirty has memory, and all memory
  has room for a block and its padding; the block map buffer has its full length.
\<close>

definition slot_ok :: "nat \<Rightarrow> cstat \<Rightarrow> string option \<Rightarrow> bool" where
  "slot_ok bs st p \<longleftrightarrow>
     (case p of None \<Rightarrow> \<not> cached st \<and> \<not> dirty st | Some blk \<Rightarrow> length blk = bs + AES_PAD_LEN)"

definition inode_ok :: "inode \<Rightarrow> bool" where
  "inode_ok ino \<longleftrightarrow>
     i_block_size ino \<noteq> 0 \<and> 1024 dvd BlockSize ino \<and> length (i_aes_key ino) = AES_KEY_LEN \<and>
     list_all2 (slot_ok (BlockSize ino)) (dcache_stats ino) (dcache_blocks ino) \<and>
     (case bm_buf ino of None \<Rightarrow> True | Some m \<Rightarrow> length m = HASHLEN_IN_BYTES * unat (i_bm_cover ino))"

text \<open>The fields of an inode that are not its cache.\<close>

definition meta :: "inode \<Rightarrow> inode" where
  "meta ino = ino\<lparr>dcache_stats := [], dcache_blocks := [], bm_buf := None\<rparr>"

definition block_byte :: "inode \<Rightarrow> nat \<Rightarrow> nat \<Rightarrow> char" where
  "block_byte ino i j = the (dcache_blocks ino ! i) ! j"

lemma BlockSize_pos: "inode_ok ino \<Longrightarrow> 0 < BlockSize ino"
  by (simp add: inode_ok_def BlockSize_def unat_gt_0)

lemma BlockSize_blocks [simp]: "BlockSize (ino\<lparr>dcache_blocks := B\<rparr>) = BlockSize ino"
  by (simp add: BlockSize_def)

lemma inode_okD:
  assumes "inode_ok ino"
  shows "i_block_size ino \<noteq> 0" and "length (i_aes_key ino) = 16"
    and "length (dcache_blocks ino) = length (dcache_stats ino)"
    and "i < length (dcache_stats ino) \<Longrightarrow> slot_ok (BlockSize ino) (dcache_stats ino ! i) (dcache_blocks ino ! i)"
  using assms by (auto simp: inode_ok_def list_all2_conv_all_nth)

lemma cached_block:
  assumes "inode_ok ino" and "is_cached ino i \<or> is_dirty ino i"
  obtains blk where "i < length (dcache_blocks ino)" and "i < length (dcache_stats ino)"
    and "dcache_blocks ino ! i = Some blk" and "length blk = BlockSize ino + 16"
proof -
  have i: "i < length (dcache_stats ino)" using assms(2) by (auto simp: is_cached_def is_dirty_def)
  obtain blk where "dcache_blocks ino ! i = Some blk" "length blk = BlockSize ino + 16"
    using inode_okD(4) [OF assms(1) i] assms(2)
    by (cases "dcache_blocks ino ! i") (auto simp: slot_ok_def is_cached_def is_dirty_def)
  with i inode_okD(3) [OF assms(1)] show thesis using that by simp
qed

text \<open>Replacing one slot by a good one.\<close>

lemma inode_ok_slot:
  assumes "inode_ok ino" and "slot_ok (BlockSize ino) st p"
  shows "inode_ok (ino\<lparr>dcache_blocks := (dcache_blocks ino)[i := p], dcache_stats := (dcache_stats ino)[i := st]\<rparr>)"
  using assms by (auto simp: inode_ok_def BlockSize_def split: option.splits intro!: list_all2_update_cong)

lemma meta_slots [simp]:
  "meta (ino\<lparr>dcache_blocks := B, dcache_stats := S\<rparr>) = meta ino" "meta (ino\<lparr>dcache_stats := S, dcache_blocks := B\<rparr>) = meta ino"
  "meta (ino\<lparr>dcache_blocks := B\<rparr>) = meta ino" "meta (ino\<lparr>dcache_stats := S\<rparr>) = meta ino" "meta (ino\<lparr>bm_buf := m\<rparr>) = meta ino"
  by (simp_all add: meta_def)

lemma meta_sel [simp]:
  "i_hashname (meta ino) = i_hashname ino" "i_ino_recordname (meta ino) = i_ino_recordname ino" "i_size (meta ino) = i_size ino"
  "i_block_size (meta ino) = i_block_size ino" "i_bm_cover (meta ino) = i_bm_cover ino"
  "i_bm_recordname (meta ino) = i_bm_recordname ino" "i_aes_key (meta ino) = i_aes_key ino"
  "i_ref_count (meta ino) = i_ref_count ino" "BlockSize (meta ino) = BlockSize ino"
  by (simp_all add: meta_def BlockSize_def)

lemma meta_eqD:
  assumes "meta ino' = meta ino"
  shows "i_hashname ino' = i_hashname ino" "i_ino_recordname ino' = i_ino_recordname ino" "i_size ino' = i_size ino"
    "i_block_size ino' = i_block_size ino" "i_bm_cover ino' = i_bm_cover ino" "i_bm_recordname ino' = i_bm_recordname ino"
    "i_aes_key ino' = i_aes_key ino" "i_ref_count ino' = i_ref_count ino" "BlockSize ino' = BlockSize ino"
  using assms by (metis meta_sel)+

section \<open>Copying in and out of the cache\<close>

lemma request_copies_eq:
  assumes "i_block_size ino \<noteq> 0" and "unat offset + unat sz < 2 ^ 64"
  shows "request_copies ino offset sz = map (copy_of (BlockSize ino) (unat offset) (unat sz))
    [unat offset div BlockSize ino..<Suc ((unat offset + unat sz) div BlockSize ino)]"
proof -
  have "unat (offset + sz) = unat offset + unat sz"
    using assms(2) unat_add_lem [of offset sz] by simp
  then show ?thesis
    using copies_eq [of "BlockSize ino" "unat offset" "unat sz"] assms(1)
    by (simp add: request_copies_def Let_def unat_div unat_mod BlockSize_def unat_gt_0 div_le_mono del: upt_Suc)
qed

lemma copy_in_ok:
  assumes "inode_ok ino"
    and "\<forall>(i, o1, p, k) \<in> set cs. is_cached ino i \<and> o1 + k \<le> BlockSize ino \<and> p + k \<le> length src \<and>
      (\<forall>y < k. src ! (p + y) = F i (o1 + y))"
  shows "\<exists>ino'. copy_in ino src cs = Ret ino' \<and> inode_ok ino' \<and> meta ino' = meta ino \<and> bm_buf ino' = bm_buf ino \<and>
    length (dcache_stats ino') = length (dcache_stats ino) \<and>
    is_cached ino' = is_cached ino \<and> (\<forall>i. is_dirty ino' i \<longleftrightarrow> is_dirty ino i \<or> i \<in> fst ` set cs) \<and>
    (\<forall>i j. is_cached ino i \<longrightarrow> j < BlockSize ino \<longrightarrow> block_byte ino' i j =
       (if \<exists>(i', o1, p, k) \<in> set cs. i' = i \<and> o1 \<le> j \<and> j < o1 + k then F i j else block_byte ino i j))"
  using assms
proof (induction cs arbitrary: ino)
  case Nil
  then show ?case by auto
next
  case (Cons c cs)
  obtain i o1 p k where c: "c = (i, o1, p, k)" by (cases c)
  have c': "is_cached ino i" "o1 + k \<le> BlockSize ino" "p + k \<le> length src" "\<forall>y < k. src ! (p + y) = F i (o1 + y)"
    using Cons.prems(2) by (auto simp: c)
  obtain blk where blk: "i < length (dcache_blocks ino)" "i < length (dcache_stats ino)"
    "dcache_blocks ino ! i = Some blk" "length blk = BlockSize ino + 16"
    using cached_block [OF Cons.prems(1)] c'(1) by blast
  then obtain blk' where m: "memcpy blk o1 src p k = Ret blk'" using c'(2,3) by (simp add: memcpy_ok)
  have len: "length blk' = BlockSize ino + 16" using memcpy_length [OF m] blk(4) by simp
  have byte: "blk' ! j = (if o1 \<le> j \<and> j < o1 + k then F i j else blk ! j)" if "j < BlockSize ino" for j
    using memcpy_nth [OF m, of j] that blk(4) c'(4) [rule_format, of "j - o1"] by auto
  define ino1 where "ino1 = ino\<lparr>dcache_blocks := (dcache_blocks ino)[i := Some blk'],
    dcache_stats := (dcache_stats ino)[i := (dcache_stats ino ! i)\<lparr>dirty := True\<rparr>]\<rparr>"
  have ok1: "inode_ok ino1"
    unfolding ino1_def by (rule inode_ok_slot [OF Cons.prems(1)]) (simp add: slot_ok_def len)
  have st1: "meta ino1 = meta ino" "bm_buf ino1 = bm_buf ino" "length (dcache_stats ino1) = length (dcache_stats ino)"
    "is_cached ino1 = is_cached ino" "is_dirty ino1 x \<longleftrightarrow> is_dirty ino x \<or> x = i" for x
    using blk by (auto simp: ino1_def is_cached_def is_dirty_def fun_eq_iff nth_list_update)
  have b1: "block_byte ino1 x j = (if x = i \<and> o1 \<le> j \<and> j < o1 + k then F i j else block_byte ino x j)"
    if "j < BlockSize ino" for x j
    using blk byte [OF that] by (auto simp: block_byte_def ino1_def nth_list_update)
  have step: "copy_in ino src (c # cs) = copy_in ino1 src cs"
    using blk m by (simp add: c vec_at_def ino1_def)
  obtain ino' where r: "copy_in ino1 src cs = Ret ino'" "inode_ok ino'" "meta ino' = meta ino1" "bm_buf ino' = bm_buf ino1"
    "length (dcache_stats ino') = length (dcache_stats ino1)" "is_cached ino' = is_cached ino1"
    "\<forall>i. is_dirty ino' i \<longleftrightarrow> is_dirty ino1 i \<or> i \<in> fst ` set cs"
    "\<forall>i j. is_cached ino1 i \<longrightarrow> j < BlockSize ino1 \<longrightarrow> block_byte ino' i j =
       (if \<exists>(i', o1, p, k) \<in> set cs. i' = i \<and> o1 \<le> j \<and> j < o1 + k then F i j else block_byte ino1 i j)"
    using Cons.IH [OF ok1] Cons.prems(2) meta_eqD(9) [OF st1(1)] by (auto simp: st1(4))
  have "block_byte ino' x j = (if \<exists>(i', o1, p, k) \<in> set (c # cs). i' = x \<and> o1 \<le> j \<and> j < o1 + k then F x j else block_byte ino x j)"
    if "is_cached ino x" "j < BlockSize ino" for x j
    using r(8) that b1 meta_eqD(9) [OF st1(1)] by (auto simp: st1(4) c)
  with r st1 show ?case unfolding step by (intro exI [of _ ino']) (auto simp: c)
qed

lemma copy_out_ok:
  assumes "inode_ok ino"
    and "\<forall>(i, o1, p, k) \<in> set cs. is_cached ino i \<and> o1 + k \<le> BlockSize ino \<and> p + k \<le> length dst \<and>
      (\<forall>y < k. block_byte ino i (o1 + y) = G (p + y))"
  shows "\<exists>dst'. copy_out ino dst cs = Ret dst' \<and> length dst' = length dst \<and>
    (\<forall>x < length dst. dst' ! x = (if \<exists>(i, o1, p, k) \<in> set cs. p \<le> x \<and> x < p + k then G x else dst ! x))"
  using assms(2)
proof (induction cs arbitrary: dst)
  case (Cons c cs)
  obtain i o1 p k where c: "c = (i, o1, p, k)" by (cases c)
  have c': "is_cached ino i" "o1 + k \<le> BlockSize ino" "p + k \<le> length dst" "\<forall>y < k. block_byte ino i (o1 + y) = G (p + y)"
    using Cons.prems by (auto simp: c)
  obtain blk where blk: "i < length (dcache_blocks ino)" "dcache_blocks ino ! i = Some blk" "length blk = BlockSize ino + 16"
    using cached_block [OF assms(1)] c'(1) by blast
  then obtain d1 where m: "memcpy dst p blk o1 k = Ret d1" using c'(2,3) by (simp add: memcpy_ok)
  have d1: "length d1 = length dst" by (rule memcpy_length [OF m])
  have byte: "d1 ! x = (if p \<le> x \<and> x < p + k then G x else dst ! x)" if "x < length dst" for x
    using memcpy_nth [OF m that] c'(4) [rule_format, of "x - p"] blk(2) by (auto simp: block_byte_def)
  obtain dst' where r: "copy_out ino d1 cs = Ret dst'" "length dst' = length d1"
    "\<forall>x < length d1. dst' ! x = (if \<exists>(i, o1, p, k) \<in> set cs. p \<le> x \<and> x < p + k then G x else d1 ! x)"
    using Cons.IH [of d1] Cons.prems d1 by auto
  have "copy_out ino dst (c # cs) = Ret dst'" using blk m r(1) by (simp add: c vec_at_def)
  moreover have "dst' ! x = (if \<exists>(i, o1, p, k) \<in> set (c # cs). p \<le> x \<and> x < p + k then G x else dst ! x)"
    if "x < length dst" for x
    using r(3) byte [OF that] that d1 by (auto simp: c)
  ultimately show ?case using r(2) d1 by auto
qed simp

lemma inode_ok_bm:
  "inode_ok ino \<Longrightarrow> length m = 32 * unat (i_bm_cover ino) \<Longrightarrow> inode_ok (ino\<lparr>bm_buf := Some m\<rparr>)"
  by (simp add: inode_ok_def BlockSize_def)

lemma inode_ok_push:
  "inode_ok ino \<Longrightarrow> inode_ok (ino\<lparr>dcache_stats := dcache_stats ino @ [cstat_init], dcache_blocks := dcache_blocks ino @ [None]\<rparr>)"
  by (auto simp: inode_ok_def BlockSize_def slot_ok_def cstat_init_def split: option.splits intro!: list_all2_appendI)

section \<open>Every operation keeps the invariant\<close>

text \<open>These hold for every server, well-behaved or not, and for every error.\<close>

lemma Inode_ok:
  assumes "Inode dc ino_name bm_name kb cover sz key = Ret ino" and "length key = 16"
  shows "inode_ok ino" and "\<not> is_cached ino i" and "\<not> is_dirty ino i"
    and "meta ino = \<lparr>i_hashname = dc, i_ino_recordname = ino_name, i_size = sz, i_block_size = kb * 1024, i_bm_cover = cover,
      i_bm_recordname = bm_name, i_aes_key = key, i_ref_count = 0, dcache_stats = [], dcache_blocks = [], bm_buf = None\<rparr>"
    and "bm_buf ino = None" and "length (dcache_stats ino) = unat (sz div (kb * 1024) + 1)"
proof -
  have "(1024 :: nat) dvd unat (kb * 1024 :: u64)"
    by (simp add: unat_word_ariths dvd_mod)
  with assms show "inode_ok ino"
    by (auto simp: Inode_def Let_def outcome_simps inode_ok_def BlockSize_def list_all2_conv_all_nth slot_ok_def cstat_init_def)
qed (use assms in \<open>auto simp: Inode_def Let_def outcome_simps is_cached_def is_dirty_def cstat_init_def meta_def\<close>)

lemma fillBmcache_inv:
  assumes "inode_ok ino" and "fillBmcache E srv ino b = Ret (rc, ino', b')"
  shows "inode_ok ino' \<and> meta ino' = meta ino"
proof -
  have "length m = 32 * unat (i_bm_cover ino)"
    if "memcpy (replicate (32 * unat (i_bm_cover ino)) NUL) 0 d 0 k = Ret m" for m d k
    using memcpy_length [OF that] by simp
  with assms show ?thesis
    by (auto simp: fillBmcache_def Let_def outcome_simps split: if_splits prod.splits intro!: inode_ok_bm)
qed

lemma load_block_inv:
  assumes ok: "inode_ok ino" and mem: "length mem = BlockSize ino + 16"
    and f: "load_block E srv ret ino b i mem found = Ret (rc, ino', b')"
  shows "inode_ok ino' \<and> meta ino' = meta ino"
proof -
  have good: "inode_ok (ino\<lparr>dcache_blocks := (dcache_blocks ino)[i := Some blk], dcache_stats := (dcache_stats ino)[i := st]\<rparr>)"
    if "memcpy mem 0 d 0 k = Ret blk" for blk st d k
    by (rule inode_ok_slot [OF ok]) (use memcpy_length [OF that] mem in \<open>simp add: slot_ok_def\<close>)
  show ?thesis
  proof (cases found)
    case None
    with f ok good show ?thesis by (auto simp: load_block_def Let_def outcome_simps)
  next
    case (Some r)
    with f ok good show ?thesis
      by (auto simp: load_block_def Let_def outcome_simps split: if_split_asm)
  qed
qed

lemma fill_block_inv:
  assumes E: "env_ok E" and ok: "inode_ok ino" and f: "fill_block E srv ret ino b i = Ret (rc, ino', b')"
  shows "inode_ok ino' \<and> meta ino' = meta ino"
proof -
  define ino1 where "ino1 = (if length (dcache_stats ino) \<le> i
     then ino\<lparr>dcache_stats := dcache_stats ino @ [cstat_init], dcache_blocks := dcache_blocks ino @ [None]\<rparr> else ino)"
  have ok1: "inode_ok ino1" "meta ino1 = meta ino" using ok inode_ok_push [OF ok] by (auto simp: ino1_def)
  let ?mem = "fresh_mem E (BlockSize ino1 + 16)"
  let ?ino2 = "ino1\<lparr>dcache_blocks := (dcache_blocks ino1)[i := Some ?mem]\<rparr>"
  have same: "?ino2 = ino1\<lparr>dcache_blocks := (dcache_blocks ino1)[i := Some ?mem], dcache_stats := (dcache_stats ino1)[i := dcache_stats ino1 ! i]\<rparr>"
    by simp
  have mem: "length ?mem = BlockSize ino1 + 16" by (rule env_okD(5) [OF E])
  then have ok2: "inode_ok ?ino2" by (subst same) (rule inode_ok_slot [OF ok1(1)], simp add: slot_ok_def)
  have "ino' = ino1 \<or> (\<exists>found. load_block E srv ret ?ino2 b i ?mem found = Ret (rc, ino', b'))"
    using f unfolding fill_block_def Let_def ino1_def [symmetric]
    by (auto simp: vec_at_Ret_iff vec_set_Ret_iff bindO_Ret_iff split: if_split_asm)
  moreover have "length ?mem = BlockSize ?ino2 + 16" using mem by simp
  ultimately show ?thesis using ok1 load_block_inv [OF ok2, of ?mem E srv ret b i _ rc ino' b'] by auto
qed

lemma fill_blocks_inv:
  assumes "env_ok E" and "inode_ok ino" and "fill_blocks E srv ret ino b is = Ret (rc, ino', b')"
  shows "inode_ok ino' \<and> meta ino' = meta ino"
  using assms(2,3)
proof (induction "is" arbitrary: ret ino b)
  case (Cons i "is")
  then obtain r1 ino1 b1 where f: "fill_block E srv ret ino b i = Ret (r1, ino1, b1)"
    "(if r1 < 0 then Ret (r1, ino1, b1) else fill_blocks E srv r1 ino1 b1 is) = Ret (rc, ino', b')"
    by (auto simp: outcome_simps)
  from fill_block_inv [OF assms(1) Cons.prems(1) f(1)] f(2) Cons.IH show ?case
    by (cases "r1 < 0") auto
qed simp

lemma fillDcache_inv:
  assumes "env_ok E" and "inode_ok ino" and "fillDcache E srv ino b offset sz = Ret (rc, ino', b')"
  shows "inode_ok ino' \<and> meta ino' = meta ino"
proof -
  from assms(3) obtain r1 ino1 b1 bl where f: "fillBmcache E srv ino b = Ret (r1, ino1, b1)"
    "(if r1 < 0 then Ret (r1, ino1, b1) else fill_blocks E srv r1 ino1 b1 bl) = Ret (rc, ino', b')"
    unfolding fillDcache_def Let_def by (elim bindO_RetE) (auto simp del: upt_Suc)
  from fillBmcache_inv [OF assms(2) f(1)] f(2) show ?thesis
    by (cases "r1 < 0") (auto dest: fill_blocks_inv [OF assms(1)])
qed

lemma copy_in_inv:
  "inode_ok ino \<Longrightarrow> copy_in ino src cs = Ret ino' \<Longrightarrow> inode_ok ino' \<and> meta ino' = meta ino"
proof (induction cs arbitrary: ino)
  case (Cons c cs)
  obtain i o1 p k where c: "c = (i, o1, p, k)" by (cases c)
  with Cons.prems(2) obtain blk blk' where b: "i < length (dcache_blocks ino)" "dcache_blocks ino ! i = Some blk"
    "i < length (dcache_stats ino)" "memcpy blk o1 src p k = Ret blk'"
    "copy_in (ino\<lparr>dcache_blocks := (dcache_blocks ino)[i := Some blk'],
       dcache_stats := (dcache_stats ino)[i := (dcache_stats ino ! i)\<lparr>dirty := True\<rparr>]\<rparr>) src cs = Ret ino'"
    by (auto simp: outcome_simps)
  have "slot_ok (BlockSize ino) st (Some blk')" for st
    using memcpy_length [OF b(4)] inode_okD(4) [OF Cons.prems(1) b(3)] b(2) by (simp add: slot_ok_def)
  from inode_ok_slot [OF Cons.prems(1) this] Cons.IH [OF _ b(5)] show ?case by simp
qed simp

lemma drop_caches_inv: "inode_ok ino \<Longrightarrow> inode_ok (drop_caches ino)" "meta (drop_caches ino) = meta ino"
  "\<not> is_cached (drop_caches ino) i" "\<not> is_dirty (drop_caches ino) i"
  by (auto simp: drop_caches_def inode_ok_def BlockSize_def list_all2_conv_all_nth slot_ok_def cstat_init_def
      is_cached_def is_dirty_def meta_def cong: option.case_cong)

lemma FlushCache_inv:
  assumes "inode_ok ino" and "FlushCache E srv ino b = Ret (rc, ino', b')"
  shows "inode_ok ino' \<and> meta ino' = meta ino \<and> ino' = (if rc < 0 then ino else drop_caches ino)"
  using assms drop_caches_inv
  by (auto simp: FlushCache_def outcome_simps split: if_splits prod.splits)

lemma RecordCache_Read_inv:
  "env_ok E \<Longrightarrow> inode_ok ino \<Longrightarrow> RecordCache_Read E srv ino b dst offset sz = Ret (rc, dst', ino', b') \<Longrightarrow>
   inode_ok ino' \<and> meta ino' = meta ino"
  unfolding RecordCache_Read_def by (elim bindO_RetE) (auto simp: outcome_simps split: if_splits dest: fillDcache_inv)

lemma RecordCache_Write_inv:
  assumes "env_ok E" and "inode_ok ino" and "RecordCache_Write E srv ino b src offset sz = Ret (rc, ino', b')"
  shows "inode_ok ino' \<and> meta ino' = meta ino"
proof -
  from assms(3) obtain ino1 b1 where f: "fillDcache E srv ino b offset sz = Ret (rc, ino1, b1)"
    "copy_in ino1 src (request_copies ino1 offset sz) = Ret ino'"
    unfolding RecordCache_Write_def by (elim bindO_RetE) (auto simp: outcome_simps)
  then show ?thesis using fillDcache_inv [OF assms(1,2) f(1)] copy_in_inv [OF _ f(2)] by simp
qed

end
