(* ===== verification/Cache_View.thy ===== *)
theory Cache_View
  imports Record_Cache
begin

text \<open>
  What an open file shows: for every block the cached bytes, or else the bytes that the records
  named by the block map decrypt to. The locale \<open>payload_reader\<close> is what the cache of
  \<open>src/src/fs/inode.cpp\<close> relies on from \<open>StorageBackend::ReadRecordData\<close>; inside it, filling the
  cache is shown to leave the view alone, and reads and writes to act on it byte by byte. Every
  record server with the contract \<open>record_store\<close> is such a reader.
\<close>

section \<open>What a cache shows of the stored file\<close>

text \<open>
  The contract the cache relies on: \<open>payload b E dc rec\<close> is the payload the backend can return
  for a record, \<open>binv\<close> the states in which it does, \<open>held\<close> whatever else reading leaves alone.
\<close>

locale payload_reader =
  fixes srv :: "'s dcserver"
    and binv :: "'s backend \<Rightarrow> bool"
    and payload :: "'s backend \<Rightarrow> env \<Rightarrow> string \<Rightarrow> string \<Rightarrow> string option"
    and held :: "'s backend \<Rightarrow> 'h"
  assumes read_stored:
    "binv b \<Longrightarrow> payload b E dc rec = Some p \<Longrightarrow> length p \<le> n \<Longrightarrow>
     \<exists>b'. ReadRecordData E srv b dc rec n = Ret (NO_ERR, p, b') \<and> binv b' \<and> payload b' = payload b \<and> held b' = held b \<and>
          be_mid b' = be_mid b \<and> be_client_key_pair b' = be_client_key_pair b"

text \<open>The name of block \<open>i\<close> in a block map, and whether a map has been read if there is one.\<close>

definition map_entry :: "nat \<Rightarrow> string \<Rightarrow> nat \<Rightarrow> string option" where
  "map_entry cover m i =
     (if i < cover
      then let h = take HASHLEN_IN_BYTES (drop (i * HASHLEN_IN_BYTES) m) in if strcmp_eq h zero_str then None else Some h
      else None)"

definition map_loaded :: "inode \<Rightarrow> bool" where
  "map_loaded ino \<longleftrightarrow> bm_buf ino \<noteq> None \<or> i_bm_recordname ino = []"

context payload_reader
begin

definition same_backend :: "'s backend \<Rightarrow> 's backend \<Rightarrow> bool" where
  "same_backend b b' \<longleftrightarrow> binv b' \<and> payload b' = payload b \<and> held b' = held b \<and> be_mid b' = be_mid b \<and>
     be_client_key_pair b' = be_client_key_pair b"

text \<open>The block map of a file: the buffer, or what reading the record will put there.\<close>

definition map_bytes :: "env \<Rightarrow> 's backend \<Rightarrow> inode \<Rightarrow> string option" where
  "map_bytes E b ino =
     (let n = 32 * unat (i_bm_cover ino) in
      case bm_buf ino of
        Some m \<Rightarrow> Some m
      | None \<Rightarrow>
          if i_bm_recordname ino = [] then Some (replicate n NUL)
          else case payload b E (i_hashname ino) (i_bm_recordname ino) of
            None \<Rightarrow> None
          | Some p \<Rightarrow> if length p \<le> n then Some (p @ replicate (n - length p) NUL) else None)"

definition stored_block :: "env \<Rightarrow> 's backend \<Rightarrow> inode \<Rightarrow> nat \<Rightarrow> string option" where
  "stored_block E b ino i =
     (case map_bytes E b ino of
        None \<Rightarrow> None
      | Some m \<Rightarrow>
          case map_entry (unat (i_bm_cover ino)) m i of
            None \<Rightarrow> Some (replicate (BlockSize ino) NUL)
          | Some r \<Rightarrow>
              case payload b E (i_hashname ino) r of
                None \<Rightarrow> None
              | Some c \<Rightarrow>
                  if length c \<le> BlockSize ino + 16
                  then case snd (decrypt_symmetric (ossl E) (i_aes_key ino) None c) of
                      None \<Rightarrow> None
                    | Some d \<Rightarrow> if length d = BlockSize ino then Some d else None
                  else None)"

definition block_view :: "env \<Rightarrow> 's backend \<Rightarrow> inode \<Rightarrow> nat \<Rightarrow> string option" where
  "block_view E b ino i =
     (if is_cached ino i then map_option (take (BlockSize ino)) (dcache_blocks ino ! i) else stored_block E b ino i)"

definition intact :: "env \<Rightarrow> 's backend \<Rightarrow> inode \<Rightarrow> bool" where
  "intact E b ino \<longleftrightarrow> inode_ok ino \<and> binv b \<and> (\<forall>i. is_dirty ino i \<longrightarrow> is_cached ino i) \<and>
     (\<forall>i. block_view E b ino i \<noteq> None) \<and> map_bytes E b ino \<noteq> None"

text \<open>One state of the cache gives another by loading blocks only.\<close>

definition loads :: "env \<Rightarrow> inode \<Rightarrow> 's backend \<Rightarrow> inode \<Rightarrow> 's backend \<Rightarrow> bool" where
  "loads E ino b ino' b' \<longleftrightarrow> intact E b' ino' \<and> same_backend b b' \<and> meta ino' = meta ino \<and>
     block_view E b' ino' = block_view E b ino \<and> is_dirty ino' = is_dirty ino \<and>
     (\<forall>i. is_cached ino i \<longrightarrow> is_cached ino' i) \<and> (map_loaded ino \<longrightarrow> map_loaded ino') \<and>
     length (dcache_stats ino) \<le> length (dcache_stats ino')"

lemma same_backend_refl: "binv b \<Longrightarrow> same_backend b b"
  by (simp add: same_backend_def)

lemma loads_refl: "intact E b ino \<Longrightarrow> loads E ino b ino b"
  by (simp add: loads_def same_backend_refl intact_def)

lemma loads_trans: "loads E i1 b1 i2 b2 \<Longrightarrow> loads E i2 b2 i3 b3 \<Longrightarrow> loads E i1 b1 i3 b3"
  by (auto simp: loads_def same_backend_def)

lemma map_bytes_cong:
  "meta ino' = meta ino \<Longrightarrow> bm_buf ino' = bm_buf ino \<Longrightarrow> payload b' = payload b \<Longrightarrow> map_bytes E b' ino' = map_bytes E b ino"
  using meta_eqD [of ino' ino] by (simp add: map_bytes_def Let_def cong: option.case_cong)

lemma stored_block_cong:
  "meta ino' = meta ino \<Longrightarrow> map_bytes E b' ino' = map_bytes E b ino \<Longrightarrow> payload b' = payload b \<Longrightarrow>
   stored_block E b' ino' i = stored_block E b ino i"
  using meta_eqD [of ino' ino] by (simp add: stored_block_def cong: option.case_cong if_cong)

lemma stored_block_length: "stored_block E b ino i = Some d \<Longrightarrow> length d = BlockSize ino"
  by (auto simp: stored_block_def split: option.splits if_splits)

text \<open>Caching a block with its stored contents.\<close>

lemma loads_slot:
  assumes I: "intact E b ino" and i: "i < length (dcache_stats ino)" "\<not> cached (dcache_stats ino ! i)"
    and d: "stored_block E b ino i = Some (take (BlockSize ino) blk)" "length blk = BlockSize ino + 16"
    and b: "same_backend b b'"
    and ino': "ino' = ino\<lparr>dcache_blocks := (dcache_blocks ino)[i := Some blk],
      dcache_stats := (dcache_stats ino)[i := (dcache_stats ino ! i)\<lparr>cached := True\<rparr>]\<rparr>"
  shows "loads E ino b ino' b' \<and> is_cached ino' i \<and> bm_buf ino' = bm_buf ino \<and> length (dcache_stats ino') = length (dcache_stats ino)"
proof -
  have ok: "inode_ok ino" using I by (simp add: intact_def)
  have ok': "inode_ok ino'"
    unfolding ino' by (rule inode_ok_slot [OF ok]) (simp add: slot_ok_def d(2))
  have m: "meta ino' = meta ino" "bm_buf ino' = bm_buf ino" by (simp_all add: ino')
  have pl: "payload b' = payload b" using b by (simp add: same_backend_def)
  note mb = map_bytes_cong [OF m pl, of E]
  note sb = stored_block_cong [OF m(1) mb pl]
  have ca: "is_cached ino' x \<longleftrightarrow> is_cached ino x \<or> x = i" and di: "is_dirty ino' = is_dirty ino" for x
    using i by (auto simp: ino' is_cached_def is_dirty_def nth_list_update fun_eq_iff)
  have "block_view E b' ino' x = block_view E b ino x" for x
  proof (cases "x = i")
    case True
    then show ?thesis
      using i d(1) inode_okD(3) [OF ok] ca [of i] by (simp add: block_view_def is_cached_def ino' BlockSize_def)
  next
    case False
    then show ?thesis using ca [of x] sb [of x] by (simp add: block_view_def ino' BlockSize_def)
  qed
  then have v: "block_view E b' ino' = block_view E b ino" by blast
  have "intact E b' ino'"
    using I ok' b v mb ca di by (auto simp: intact_def same_backend_def)
  then show ?thesis
    using v m b ca di by (auto simp: loads_def map_loaded_def ino')
qed

lemma push_slot:
  assumes "intact E b ino"
    and "ino' = ino\<lparr>dcache_stats := dcache_stats ino @ [cstat_init], dcache_blocks := dcache_blocks ino @ [None]\<rparr>"
  shows "loads E ino b ino' b \<and> bm_buf ino' = bm_buf ino \<and> length (dcache_stats ino') = Suc (length (dcache_stats ino))"
proof -
  have ok: "inode_ok ino" using assms(1) by (simp add: intact_def)
  then have ok': "inode_ok ino'" unfolding assms(2) by (rule inode_ok_push)
  have m: "meta ino' = meta ino" "bm_buf ino' = bm_buf ino" by (simp_all add: assms(2))
  note mb = map_bytes_cong [OF m refl, of E b]
  have ca: "is_cached ino' = is_cached ino" "is_dirty ino' = is_dirty ino"
    by (auto simp: assms(2) is_cached_def is_dirty_def fun_eq_iff nth_append cstat_init_def less_Suc_eq)
  have v: "block_view E b ino' = block_view E b ino"
    using ca stored_block_cong [OF m(1) mb refl] inode_okD(3) [OF ok]
    by (auto simp: block_view_def fun_eq_iff assms(2) nth_append is_cached_def BlockSize_def)
  show ?thesis
    using assms(1) ok' m mb ca v same_backend_refl by (simp add: loads_def intact_def map_loaded_def) (simp add: assms(2))
qed

lemma bmCheck_entry:
  assumes "inode_ok ino" and "map_loaded ino" and "map_bytes E b ino = Some m"
  shows "bmCheck ino i = Ret (map_entry (unat (i_bm_cover ino)) m i)"
proof (cases "bm_buf ino")
  case None
  then have m: "m = replicate (32 * unat (i_bm_cover ino)) NUL"
    using assms(2,3) by (simp add: map_loaded_def map_bytes_def)
  have "map_entry (unat (i_bm_cover ino)) m i = None"
    by (simp add: map_entry_def m strcmp_eq_def zero_str_def take_replicate drop_replicate takeWhile_replicate)
  with None show ?thesis by (simp add: bmCheck_def)
next
  case (Some m')
  then have "m' = m" "length m = 32 * unat (i_bm_cover ino)"
    using assms(1,3) by (simp_all add: map_bytes_def inode_ok_def)
  with Some show ?thesis by (simp add: bmCheck_def map_entry_def cread_def Let_def)
qed

lemma fillBmcache_ok:
  assumes I: "intact E b ino"
  shows "\<exists>ino' b'. fillBmcache E srv ino b = Ret (NO_ERR, ino', b') \<and> loads E ino b ino' b' \<and> map_loaded ino'"
proof (cases "bm_buf ino = None \<and> 0 < length (i_bm_recordname ino)")
  case False
  then show ?thesis using loads_refl [OF I] by (auto simp: fillBmcache_def map_loaded_def)
next
  case True
  let ?n = "32 * unat (i_bm_cover ino)"
  have ok: "inode_ok ino" "binv b" "map_bytes E b ino \<noteq> None" using I by (simp_all add: intact_def)
  then obtain p where p: "payload b E (i_hashname ino) (i_bm_recordname ino) = Some p" "length p \<le> ?n"
    "map_bytes E b ino = Some (p @ replicate (?n - length p) NUL)"
    using True by (auto simp: map_bytes_def Let_def split: option.splits if_splits)
  obtain b' where b': "ReadRecordData E srv b (i_hashname ino) (i_bm_recordname ino) ?n = Ret (NO_ERR, p, b')" "same_backend b b'"
    using read_stored [OF ok(2) p(1,2)] by (auto simp: same_backend_def)
  define ino' where "ino' = ino\<lparr>bm_buf := Some (p @ replicate (?n - length p) NUL)\<rparr>"
  have f: "fillBmcache E srv ino b = Ret (NO_ERR, ino', b')"
    using True b'(1) p(2) by (simp add: fillBmcache_def memcpy_ok ino'_def)
  have ok': "inode_ok ino'" unfolding ino'_def by (rule inode_ok_bm [OF ok(1)]) (use p(2) in simp)
  have m: "meta ino' = meta ino" "map_bytes E b' ino' = map_bytes E b ino" "payload b' = payload b"
    using b'(2) p(3) by (simp_all add: ino'_def map_bytes_def same_backend_def Let_def)
  have ca: "is_cached ino' = is_cached ino" "is_dirty ino' = is_dirty ino"
    by (simp_all add: ino'_def is_cached_def is_dirty_def fun_eq_iff)
  have v: "block_view E b' ino' = block_view E b ino"
    using ca stored_block_cong [OF m] by (auto simp: block_view_def fun_eq_iff ino'_def BlockSize_def)
  have "intact E b' ino'" using I ok' ca v m b'(2) by (simp add: intact_def same_backend_def)
  then have "loads E ino b ino' b'" using m ca v b'(2) by (simp add: loads_def map_loaded_def) (simp add: ino'_def)
  then show ?thesis using f by (auto simp: map_loaded_def ino'_def)
qed

lemma fill_block_ok:
  assumes I: "intact E b ino" and E: "env_ok E" and L: "map_loaded ino" and i: "i \<le> length (dcache_stats ino)"
  shows "\<exists>ino' b'. fill_block E srv NO_ERR ino b i = Ret (NO_ERR, ino', b') \<and> loads E ino b ino' b' \<and>
    is_cached ino' i \<and> Suc i \<le> length (dcache_stats ino')"
proof -
  define ino1 where "ino1 = (if length (dcache_stats ino) \<le> i
     then ino\<lparr>dcache_stats := dcache_stats ino @ [cstat_init], dcache_blocks := dcache_blocks ino @ [None]\<rparr> else ino)"
  have l1: "loads E ino b ino1 b \<and> bm_buf ino1 = bm_buf ino \<and> i < length (dcache_stats ino1)"
    using push_slot [OF I refl] loads_refl [OF I] i by (auto simp: ino1_def)
  then have I1: "intact E b ino1" "map_loaded ino1" "meta ino1 = meta ino" using L by (auto simp: loads_def)
  have ok: "inode_ok ino1" "binv b" using I1(1) by (simp_all add: intact_def)
  have i1: "i < length (dcache_stats ino1)" "i < length (dcache_blocks ino1)" using l1 inode_okD(3) [OF ok(1)] by simp_all
  let ?st = "dcache_stats ino1 ! i"
  let ?bs = "BlockSize ino1"
  note unfold = fill_block_def load_block_def Let_def ino1_def [symmetric] vec_at_def vec_set_def BlockSize_blocks
  show ?thesis
  proof (cases "cached ?st")
    case True
    then have "fill_block E srv NO_ERR ino b i = Ret (NO_ERR, ino1, b)" using i1 by (simp add: unfold)
    then show ?thesis using l1 i1 True by (auto simp: is_cached_def)
  next
    case False
    define mem where "mem = fresh_mem E (?bs + 16)"
    have mem: "length mem = ?bs + 16" using env_okD(5) [OF E] by (simp add: mem_def)
    obtain m where m: "map_bytes E b ino1 = Some m" using I1(1) by (auto simp: intact_def)
    have nc: "\<not> is_cached ino1 i" using False by (simp add: is_cached_def)
    obtain d where d: "stored_block E b ino1 i = Some d"
      using I1(1) nc unfolding intact_def block_view_def by (metis not_None_eq)
    note dl = stored_block_length [OF d]
    define ino' where "ino' = ino1\<lparr>dcache_blocks := (dcache_blocks ino1)[i := Some (d @ drop ?bs mem)],
      dcache_stats := (dcache_stats ino1)[i := ?st\<lparr>cached := True\<rparr>]\<rparr>"
    have "\<exists>b'. fill_block E srv NO_ERR ino b i = Ret (NO_ERR, ino', b') \<and> same_backend b b'"
    proof (cases "map_entry (unat (i_bm_cover ino1)) m i")
      case None
      then have "d = replicate ?bs NUL" using d m by (simp add: stored_block_def)
      then have "fill_block E srv NO_ERR ino b i = Ret (NO_ERR, ino', b)"
        using False i1 None bmCheck_entry [OF ok(1) I1(2) m, of i] mem
        by (simp add: unfold memcpy_ok ino'_def mem_def)
      then show ?thesis using same_backend_refl [OF ok(2)] by blast
    next
      case (Some r)
      then obtain c where c: "payload b E (i_hashname ino1) r = Some c" "length c \<le> ?bs + 16"
        "snd (decrypt_symmetric (ossl E) (i_aes_key ino1) None c) = Some d"
        using d m by (auto simp: stored_block_def split: option.splits if_splits)
      obtain b' where b': "ReadRecordData E srv b (i_hashname ino1) r (?bs + 16) = Ret (NO_ERR, c, b')" "same_backend b b'"
        using read_stored [OF ok(2) c(1,2)] by (auto simp: same_backend_def)
      have key: "cread (c_str (i_aes_key ino1)) 0 16 = Ret (i_aes_key ino1)"
        using inode_okD(2) [OF ok(1)] by (simp add: cread_c_str)
      have "fill_block E srv NO_ERR ino b i = Ret (NO_ERR, ino', b')"
        using False i1 Some bmCheck_entry [OF ok(1) I1(2) m, of i] mem b'(1) c key dl
        by (simp add: unfold memcpy_ok ino'_def mem_def)
      then show ?thesis using b'(2) by blast
    qed
    then obtain b' where b': "fill_block E srv NO_ERR ino b i = Ret (NO_ERR, ino', b')" "same_backend b b'" by blast
    have "loads E ino1 b ino' b' \<and> is_cached ino' i \<and> bm_buf ino' = bm_buf ino1 \<and> length (dcache_stats ino') = length (dcache_stats ino1)"
      by (rule loads_slot [OF I1(1) i1(1) False _ _ b'(2) ino'_def]) (use d dl mem in simp_all)
    then show ?thesis using b'(1) l1 i1 loads_trans [of E ino b ino1 b ino' b'] by auto
  qed
qed

lemma fill_blocks_ok:
  assumes "intact E b ino" and "env_ok E" and "map_loaded ino" and "a \<le> length (dcache_stats ino)"
  shows "\<exists>ino' b'. fill_blocks E srv NO_ERR ino b [a..<c] = Ret (NO_ERR, ino', b') \<and> loads E ino b ino' b' \<and>
    (\<forall>i. a \<le> i \<and> i < c \<longrightarrow> is_cached ino' i)"
  using assms(1,3,4)
proof (induction "c - a" arbitrary: a ino b)
  case 0
  then show ?case using loads_refl [OF 0(2)] by auto
next
  case (Suc k)
  then have ac: "[a..<c] = a # [Suc a..<c]" "k = c - Suc a" by (simp_all add: upt_conv_Cons)
  obtain ino1 b1 where f: "fill_block E srv NO_ERR ino b a = Ret (NO_ERR, ino1, b1)" "loads E ino b ino1 b1"
    "is_cached ino1 a" "Suc a \<le> length (dcache_stats ino1)"
    using fill_block_ok [OF Suc.prems(1) assms(2) Suc.prems(2,3)] by blast
  then have "intact E b1 ino1" "map_loaded ino1" using Suc.prems(2) by (auto simp: loads_def)
  from Suc.hyps(1) [OF ac(2) this f(4)] obtain ino' b' where
    r: "fill_blocks E srv NO_ERR ino1 b1 [Suc a..<c] = Ret (NO_ERR, ino', b')" "loads E ino1 b1 ino' b'"
      "\<forall>i. Suc a \<le> i \<and> i < c \<longrightarrow> is_cached ino' i" by blast
  have "is_cached ino' a" using r(2) f(3) by (simp add: loads_def)
  then have "\<forall>i. a \<le> i \<and> i < c \<longrightarrow> is_cached ino' i" using r(3) by (metis Suc_leI le_neq_implies_less)
  then show ?case using f(1) r(1) loads_trans [OF f(2) r(2)] by (simp add: ac(1))
qed

lemma fillDcache_ok:
  assumes "intact E b ino" and "env_ok E" and "unat offset + unat sz < 2 ^ 64"
  shows "\<exists>ino' b'. fillDcache E srv ino b offset sz = Ret (NO_ERR, ino', b') \<and> loads E ino b ino' b' \<and>
    (\<forall>i. unat offset div BlockSize ino \<le> i \<and> i \<le> (unat offset + unat sz) div BlockSize ino \<longrightarrow> is_cached ino' i)"
proof -
  have bs: "i_block_size ino \<noteq> 0" using assms(1) inode_okD(1) by (auto simp: intact_def)
  have u: "unat (offset + sz) = unat offset + unat sz" using assms(3) unat_add_lem [of offset sz] by simp
  define st ed where "st = unat offset div BlockSize ino" and "ed = (unat offset + unat sz) div BlockSize ino"
  have se: "unat (offset div i_block_size ino) = st" "unat ((offset + sz) div i_block_size ino) = ed"
    by (simp_all add: st_def ed_def BlockSize_def unat_div u)
  obtain ino1 b1 where f: "fillBmcache E srv ino b = Ret (NO_ERR, ino1, b1)" "loads E ino b ino1 b1" "map_loaded ino1"
    using fillBmcache_ok [OF assms(1)] by blast
  define a where "a = (if length (dcache_stats ino) < st then length (dcache_stats ino) else st)"
  have "a \<le> length (dcache_stats ino1)" using f(2) by (auto simp: a_def loads_def)
  with f obtain ino' b' where r: "fill_blocks E srv NO_ERR ino1 b1 [a..<Suc ed] = Ret (NO_ERR, ino', b')"
    "loads E ino1 b1 ino' b'" "\<forall>i. a \<le> i \<and> i < Suc ed \<longrightarrow> is_cached ino' i"
    using fill_blocks_ok [OF _ assms(2) f(3), of b1 a "Suc ed"] by (auto simp: loads_def)
  have "fillDcache E srv ino b offset sz = Ret (NO_ERR, ino', b')"
    using bs f(1) r(1) by (simp add: fillDcache_def Let_def se a_def [symmetric] del: upt_Suc)
  then show ?thesis
    using loads_trans [OF f(2) r(2)] r(3) by (auto simp: a_def st_def ed_def)
qed

end

section \<open>Reading and writing through the cache\<close>

lemma copy_out_append:
  "copy_out ino dst (cs @ ds) = bindO (copy_out ino dst cs) (\<lambda>d. copy_out ino d ds)"
  by (induction cs arbitrary: dst) (auto simp: bindO_assoc)

lemma copy_in_append:
  "copy_in ino src (cs @ ds) = bindO (copy_in ino src cs) (\<lambda>ino. copy_in ino src ds)"
  by (induction cs arbitrary: ino) (auto simp: bindO_assoc)

lemma block_pos: "0 < bs \<Longrightarrow> j < bs \<Longrightarrow> (i * bs + j) div bs = i \<and> (i * bs + j) mod bs = (j :: nat)"
  by simp

lemma fst_copy_of: "fst ` set (map (copy_of bs off n) is) = set is"
  by (force simp: copy_of_def)

lemma copy_of_mem:
  "(i, o1, p, k) \<in> set (map (copy_of bs off n) bl) \<longleftrightarrow> i \<in> set bl \<and> copy_of bs off n i = (i, o1, p, k)"
  by (auto simp: copy_of_def)

lemma request_block:
  "off \<le> q \<Longrightarrow> q < off + n + overrun bs off n \<Longrightarrow> off div bs \<le> q div bs \<and> q div bs \<le> (off + n) div bs"
  by (intro conjI div_le_mono) (simp_all add: overrun_def split: if_splits)

text \<open>The copies of a request: where each takes its bytes from, and which bytes of the file they touch.\<close>

lemma copies_source:
  assumes "0 < bs" and "len + overrun bs off len \<le> length src"
    and "(i, o1, p, k) \<in> set (map (copy_of bs off len) [off div bs..<Suc ((off + len) div bs)])"
  shows "off div bs \<le> i \<and> i \<le> (off + len) div bs \<and> o1 + k \<le> bs \<and> p + k \<le> length src \<and>
    (\<forall>y < k. src ! (p + y) = src ! (i * bs + (o1 + y) - off))"
proof -
  have x: "off div bs \<le> i" "i \<le> (off + len) div bs" "copy_of bs off len i = (i, o1, p, k)"
    using assms(3) unfolding copy_of_mem by auto
  note c = copy_of_bounds [OF assms(1) x]
  have "i * bs + (o1 + y) - off = p + y" for y using c(2) by linarith
  with c x assms(2) show ?thesis by auto
qed

lemma copies_touch:
  assumes bs: "0 < bs"
  shows "(\<exists>(i, o1, p, k) \<in> set (map (copy_of bs off len) [off div bs..<Suc ((off + len) div bs)]).
      i = q div bs \<and> o1 \<le> q mod bs \<and> q mod bs < o1 + k) \<longleftrightarrow> off \<le> q \<and> q < off + len + overrun bs off len" (is "?l = ?r")
proof
  assume ?l
  then obtain o1 p k where x: "off div bs \<le> q div bs" "q div bs \<le> (off + len) div bs" "copy_of bs off len (q div bs) = (q div bs, o1, p, k)"
    "o1 \<le> q mod bs" "q mod bs < o1 + k" by (auto simp: copy_of_mem simp del: upt_Suc set_map)
  from copy_of_bounds(7) [OF bs x(1-3), of q] x(4,5) show ?r by simp
next
  assume ?r
  then have q: "off div bs \<le> q div bs" "q div bs \<le> (off + len) div bs" by (auto dest: request_block)
  obtain i o1 p k where c: "copy_of bs off len (q div bs) = (i, o1, p, k)" by (cases "copy_of bs off len (q div bs)")
  have "q div bs \<in> set [off div bs..<Suc ((off + len) div bs)]" using q by (simp del: upt_Suc)
  then have "(i, o1, p, k) \<in> set (map (copy_of bs off len) [off div bs..<Suc ((off + len) div bs)])" by (metis c imageI list.set_map)
  with copy_of_bounds(1) [OF bs q c] copy_of_bounds(7) [OF bs q c refl] \<open>?r\<close> show ?l
    by (intro bexI [of _ "(i, o1, p, k)"]) auto
qed

context payload_reader
begin

definition file_byte :: "env \<Rightarrow> 's backend \<Rightarrow> inode \<Rightarrow> nat \<Rightarrow> char" where
  "file_byte E b ino q = the (block_view E b ino (q div BlockSize ino)) ! (q mod BlockSize ino)"

lemma file_byte_cached:
  assumes "inode_ok ino" and "is_cached ino i" and "j < BlockSize ino"
  shows "block_byte ino i j = file_byte E b ino (i * BlockSize ino + j)"
proof -
  obtain blk where "dcache_blocks ino ! i = Some blk" "length blk = BlockSize ino + 16"
    using cached_block [OF assms(1)] assms(2) by metis
  with assms(2) block_pos [OF BlockSize_pos [OF assms(1)] assms(3), of i] show ?thesis
    by (simp add: file_byte_def block_view_def block_byte_def assms(3))
qed

lemma file_byte_loads: "loads E ino b ino' b' \<Longrightarrow> file_byte E b' ino' = file_byte E b ino"
  using meta_eqD(9) [of ino' ino] by (simp add: loads_def file_byte_def fun_eq_iff)

text \<open>Copying a request into blocks that are all cached.\<close>

lemma write_request:
  assumes I: "intact E b ino" and n: "unat offset + unat sz < 2 ^ 64"
    and ca: "\<forall>i. unat offset div BlockSize ino \<le> i \<and> i \<le> (unat offset + unat sz) div BlockSize ino \<longrightarrow> is_cached ino i"
    and src: "unat sz + overrun (BlockSize ino) (unat offset) (unat sz) \<le> length src"
  shows "\<exists>ino'. copy_in ino src (request_copies ino offset sz) = Ret ino' \<and> intact E b ino' \<and> meta ino' = meta ino \<and>
    (\<forall>q. file_byte E b ino' q =
       (if unat offset \<le> q \<and> q < unat offset + unat sz + overrun (BlockSize ino) (unat offset) (unat sz)
        then src ! (q - unat offset) else file_byte E b ino q)) \<and>
    (\<forall>i. is_dirty ino' i \<longleftrightarrow> is_dirty ino i \<or>
       unat offset div BlockSize ino \<le> i \<and> i \<le> (unat offset + unat sz) div BlockSize ino) \<and>
    length (dcache_stats ino') = length (dcache_stats ino)"
proof -
  define bs off len where "bs = BlockSize ino" and "off = unat offset" and "len = unat sz"
  have ok: "inode_ok ino" using I by (simp add: intact_def)
  have bs: "0 < bs" unfolding bs_def by (rule BlockSize_pos [OF ok])
  define bl where "bl = [off div bs..<Suc ((off + len) div bs)]"
  have cs: "request_copies ino offset sz = map (copy_of bs off len) bl"
    unfolding bs_def off_def len_def bl_def by (rule request_copies_eq [OF inode_okD(1) [OF ok] n])
  have bl: "i \<in> set bl \<longleftrightarrow> off div bs \<le> i \<and> i \<le> (off + len) div bs" for i by (auto simp: bl_def)
  let ?F = "\<lambda>i j. src ! (i * bs + j - off)"
  have pre: "\<forall>(i, o1, p, k) \<in> set (map (copy_of bs off len) bl). is_cached ino i \<and> o1 + k \<le> BlockSize ino \<and> p + k \<le> length src \<and>
      (\<forall>y < k. src ! (p + y) = ?F i (o1 + y))"
    using copies_source [OF bs src [folded bs_def off_def len_def]] ca by (fastforce simp: bl_def bs_def off_def len_def simp del: upt_Suc)
  obtain ino' where r: "copy_in ino src (map (copy_of bs off len) bl) = Ret ino'" "inode_ok ino'" "meta ino' = meta ino"
      "bm_buf ino' = bm_buf ino" "length (dcache_stats ino') = length (dcache_stats ino)" "is_cached ino' = is_cached ino"
      "\<forall>i. is_dirty ino' i \<longleftrightarrow> is_dirty ino i \<or> i \<in> fst ` set (map (copy_of bs off len) bl)"
      "\<forall>i j. is_cached ino i \<longrightarrow> j < BlockSize ino \<longrightarrow> block_byte ino' i j =
       (if \<exists>(i', o1, p, k) \<in> set (map (copy_of bs off len) bl). i' = i \<and> o1 \<le> j \<and> j < o1 + k then ?F i j else block_byte ino i j)"
    using copy_in_ok [OF ok pre] by blast
  have bs': "BlockSize ino' = bs" using meta_eqD(9) [OF r(3)] by (simp add: bs_def)
  have di: "is_dirty ino' i \<longleftrightarrow> is_dirty ino i \<or> off div bs \<le> i \<and> i \<le> (off + len) div bs" for i
    using r(7) by (simp only: fst_copy_of bl)
  note mb = map_bytes_cong [OF r(3,4) refl, of E b]
  note sb = stored_block_cong [OF r(3) mb refl]
  have byte: "file_byte E b ino' q = (if off \<le> q \<and> q < off + len + overrun bs off len then src ! (q - off) else file_byte E b ino q)" for q
  proof (cases "is_cached ino (q div bs)")
    case True
    have j: "q mod bs < BlockSize ino" "q div bs * bs + q mod bs = q" using bs by (simp_all add: bs_def)
    have "file_byte E b ino' q = block_byte ino' (q div bs) (q mod bs)"
      using file_byte_cached [OF r(2), of "q div bs" "q mod bs" E b] True j by (simp add: r(6) bs' bs_def)
    also have "\<dots> = (if off \<le> q \<and> q < off + len + overrun bs off len then src ! (q - off) else block_byte ino (q div bs) (q mod bs))"
      using r(8) True j copies_touch [OF bs, of off len q, folded bl_def] by simp
    finally show ?thesis
      using file_byte_cached [OF ok True j(1), of E b] j(2) by (simp add: bs_def)
  next
    case False
    then have "\<not> (off \<le> q \<and> q < off + len + overrun bs off len)"
      using ca request_block [of off q len bs] by (auto simp: bs_def off_def len_def)
    then show ?thesis
      using False sb r(6) bs' by (auto simp: file_byte_def block_view_def bs_def)
  qed
  have "block_view E b ino' i \<noteq> None" for i
  proof (cases "is_cached ino i")
    case True
    then show ?thesis using cached_block [OF r(2), of i] by (metis block_view_def option.distinct(1) option.simps(9) r(6))
  next
    case False
    then show ?thesis using I sb r(6) by (auto simp: intact_def block_view_def split: if_splits)
  qed
  then have "intact E b ino'" using I r(2) mb di ca by (auto simp: intact_def r(6) bs_def off_def len_def)
  then show ?thesis using r(1,3,5) cs byte di by (auto simp: bs_def off_def len_def)
qed

lemma cache_write_ok:
  assumes "intact E b ino" and "env_ok E" and "unat offset + unat sz < 2 ^ 64" and "0 < sz"
    and "unat sz + overrun (BlockSize ino) (unat offset) (unat sz) \<le> length src"
  shows "\<exists>ino' b'. RecordCache_Write E srv ino b src offset sz = Ret (NO_ERR, ino', b') \<and>
    intact E b' ino' \<and> same_backend b b' \<and> meta ino' = meta ino \<and>
    (\<forall>q. file_byte E b' ino' q =
       (if unat offset \<le> q \<and> q < unat offset + unat sz + overrun (BlockSize ino) (unat offset) (unat sz)
        then src ! (q - unat offset) else file_byte E b ino q)) \<and>
    (\<forall>i. is_dirty ino' i \<longleftrightarrow> is_dirty ino i \<or>
       unat offset div BlockSize ino \<le> i \<and> i \<le> (unat offset + unat sz) div BlockSize ino)"
proof -
  obtain ino1 b1 where f: "fillDcache E srv ino b offset sz = Ret (NO_ERR, ino1, b1)" "loads E ino b ino1 b1"
    "\<forall>i. unat offset div BlockSize ino \<le> i \<and> i \<le> (unat offset + unat sz) div BlockSize ino \<longrightarrow> is_cached ino1 i"
    using fillDcache_ok [OF assms(1-3)] by blast
  have m: "meta ino1 = meta ino" "intact E b1 ino1" "is_dirty ino1 = is_dirty ino" "same_backend b b1"
    using f(2) by (simp_all add: loads_def)
  note bs = meta_eqD(9) [OF m(1)]
  obtain ino' where r: "copy_in ino1 src (request_copies ino1 offset sz) = Ret ino'" "intact E b1 ino'" "meta ino' = meta ino1"
    "\<forall>q. file_byte E b1 ino' q =
       (if unat offset \<le> q \<and> q < unat offset + unat sz + overrun (BlockSize ino) (unat offset) (unat sz)
        then src ! (q - unat offset) else file_byte E b1 ino1 q)"
    "\<forall>i. is_dirty ino' i \<longleftrightarrow> is_dirty ino1 i \<or>
       unat offset div BlockSize ino \<le> i \<and> i \<le> (unat offset + unat sz) div BlockSize ino"
    using write_request [OF m(2) assms(3), of src] f(3) assms(5) unfolding bs by blast
  have "RecordCache_Write E srv ino b src offset sz = Ret (NO_ERR, ino', b1)"
    using f(1) r(1) assms(4) by (simp add: RecordCache_Write_def)
  then show ?thesis using r m file_byte_loads [OF f(2)] by auto
qed

text \<open>The bytes that each copy of a request takes from blocks that are all cached.\<close>

lemma request_bytes:
  assumes ok: "inode_ok ino"
    and ca: "\<forall>i. off div BlockSize ino \<le> i \<and> i \<le> (off + len) div BlockSize ino \<longrightarrow> is_cached ino i"
    and x: "off div BlockSize ino \<le> i" "i \<le> (off + len) div BlockSize ino" "copy_of (BlockSize ino) off len i = (i, o1, p, k)"
  shows "is_cached ino i \<and> o1 + k \<le> BlockSize ino \<and> (\<forall>y < k. block_byte ino i (o1 + y) = file_byte E b ino (off + (p + y)))"
proof -
  note c = copy_of_bounds [OF BlockSize_pos [OF ok] x]
  have "block_byte ino i (o1 + y) = file_byte E b ino (off + (p + y))" if "y < k" for y
  proof -
    have "o1 + y < BlockSize ino" using that c(3) by simp
    with ca x have "block_byte ino i (o1 + y) = file_byte E b ino (i * BlockSize ino + (o1 + y))"
      by (intro file_byte_cached [OF ok]) auto
    then show ?thesis using c(2) by (simp add: add.assoc [symmetric])
  qed
  then show ?thesis using c(3) ca x by auto
qed

lemma read_request:
  assumes ok: "inode_ok ino" and n: "unat offset + unat sz < 2 ^ 64"
    and ca: "\<forall>i. unat offset div BlockSize ino \<le> i \<and> i \<le> (unat offset + unat sz) div BlockSize ino \<longrightarrow> is_cached ino i"
    and d: "unat sz + overrun (BlockSize ino) (unat offset) (unat sz) \<le> length dst"
  shows "\<exists>dst'. copy_out ino dst (request_copies ino offset sz) = Ret dst' \<and> length dst' = length dst \<and>
       (\<forall>x < unat sz. dst' ! x = file_byte E b ino (unat offset + x))"
proof -
  define bs off len where "bs = BlockSize ino" and "off = unat offset" and "len = unat sz"
  have bs: "0 < bs" unfolding bs_def by (rule BlockSize_pos [OF ok])
  note d' = d [folded bs_def off_def len_def]
  define bl where "bl = [off div bs..<Suc ((off + len) div bs)]"
  have cs: "request_copies ino offset sz = map (copy_of bs off len) bl"
    unfolding bs_def off_def len_def bl_def by (rule request_copies_eq [OF inode_okD(1) [OF ok] n])
  have bl: "i \<in> set bl \<longleftrightarrow> off div bs \<le> i \<and> i \<le> (off + len) div bs" for i by (auto simp: bl_def)
  let ?G = "\<lambda>x. file_byte E b ino (off + x)"
  have "is_cached ino i \<and> o1 + k \<le> BlockSize ino \<and> p + k \<le> length dst \<and> (\<forall>y < k. block_byte ino i (o1 + y) = ?G (p + y))"
    if "(i, o1, p, k) \<in> set (map (copy_of bs off len) bl)" for i o1 p k
  proof -
    from that have i: "off div bs \<le> i" "i \<le> (off + len) div bs" "copy_of bs off len i = (i, o1, p, k)"
      by (simp_all only: copy_of_mem bl)
    from request_bytes [OF ok ca [folded off_def len_def] i [unfolded bs_def]] copy_of_bounds(4) [OF bs i] d'
    show ?thesis by (auto simp: bs_def)
  qed
  then have "\<forall>(i, o1, p, k) \<in> set (map (copy_of bs off len) bl). is_cached ino i \<and> o1 + k \<le> BlockSize ino \<and>
        p + k \<le> length dst \<and> (\<forall>y < k. block_byte ino i (o1 + y) = ?G (p + y))" by blast
  from copy_out_ok [OF ok this] obtain dst' where r:
    "copy_out ino dst (map (copy_of bs off len) bl) = Ret dst'" "length dst' = length dst"
    "\<forall>x < length dst. dst' ! x =
      (if \<exists>(i, o1, p, k) \<in> set (map (copy_of bs off len) bl). p \<le> x \<and> x < p + k then ?G x else dst ! x)"
    by blast
  have "\<exists>(i, o1, p, k) \<in> set (map (copy_of bs off len) bl). p \<le> x \<and> x < p + k" if "x < len" for x
  proof -
    let ?q = "off + x"
    have q: "off div bs \<le> ?q div bs" "?q div bs \<le> (off + len) div bs" using that by (simp_all add: div_le_mono)
    obtain i o1 p k where c: "copy_of bs off len (?q div bs) = (i, o1, p, k)" by (cases "copy_of bs off len (?q div bs)")
    have in1: "o1 \<le> ?q mod bs \<and> ?q mod bs < o1 + k" using copy_of_bounds(7) [OF bs q c, of ?q] that by simp
    have "?q div bs * bs + ?q mod bs = ?q" by simp
    with in1 copy_of_bounds(2) [OF bs q c] have "p \<le> x \<and> x < p + k" by linarith
    moreover have "(i, o1, p, k) \<in> set (map (copy_of bs off len) bl)"
      using q c copy_of_bounds(1) [OF bs q c] by (simp only: copy_of_mem bl)
    ultimately show ?thesis by blast
  qed
  then have "\<forall>x < unat sz. dst' ! x = file_byte E b ino (unat offset + x)"
    using r(3) d' by (simp add: len_def off_def)
  then show ?thesis using r(1,2) cs by auto
qed

lemma read_request_overrun:
  assumes ok: "inode_ok ino" and n: "unat offset + unat sz < 2 ^ 64"
    and ca: "\<forall>i. unat offset div BlockSize ino \<le> i \<and> i \<le> (unat offset + unat sz) div BlockSize ino \<longrightarrow> is_cached ino i"
    and d: "unat sz \<le> length dst" "length dst < unat sz + overrun (BlockSize ino) (unat offset) (unat sz)"
  shows "copy_out ino dst (request_copies ino offset sz) = Fault Undefined_behaviour"
proof -
  define bs off len where "bs = BlockSize ino" and "off = unat offset" and "len = unat sz"
  have bs: "0 < bs" unfolding bs_def by (rule BlockSize_pos [OF ok])
  define ed where "ed = (off + len) div bs"
  note d' = d [folded bs_def off_def len_def]
  have le: "off div bs \<le> ed" by (simp add: ed_def div_le_mono)
  have cs: "request_copies ino offset sz = map (copy_of bs off len) ([off div bs..<ed] @ [ed])"
    using request_copies_eq [OF inode_okD(1) [OF ok] n] le by (simp add: bs_def off_def len_def ed_def)
  have cached: "is_cached ino i \<and> o1 + k \<le> BlockSize ino \<and> (\<forall>y < k. block_byte ino i (o1 + y) = file_byte undefined undefined ino (off + (p + y)))"
    if i: "off div bs \<le> i" "i \<le> ed" "copy_of bs off len i = (i, o1, p, k)" for i o1 p k
    using request_bytes [OF ok ca [folded off_def len_def]] i by (simp add: bs_def ed_def)
  have "is_cached ino i \<and> o1 + k \<le> BlockSize ino \<and> p + k \<le> length dst \<and>
      (\<forall>y < k. block_byte ino i (o1 + y) = file_byte undefined undefined ino (off + (p + y)))"
    if "(i, o1, p, k) \<in> set (map (copy_of bs off len) [off div bs..<ed])" for i o1 p k
  proof -
    from that have i: "off div bs \<le> i" "i < ed" "copy_of bs off len i = (i, o1, p, k)"
      by (simp_all only: copy_of_mem set_upt atLeastLessThan_iff)
    from cached [OF i(1) _ i(3)] copy_of_bounds(5) [OF bs i(1) _ i(3)] i(2) d' show ?thesis by (simp add: ed_def)
  qed
  then have "\<forall>(i, o1, p, k) \<in> set (map (copy_of bs off len) [off div bs..<ed]). is_cached ino i \<and> o1 + k \<le> BlockSize ino \<and>
        p + k \<le> length dst \<and> (\<forall>y < k. block_byte ino i (o1 + y) = file_byte undefined undefined ino (off + (p + y)))" by blast
  from copy_out_ok [OF ok this] obtain dst' where r:
    "copy_out ino dst (map (copy_of bs off len) [off div bs..<ed]) = Ret dst'" "length dst' = length dst" by blast
  obtain i o1 p k where c: "copy_of bs off len ed = (i, o1, p, k)" by (cases "copy_of bs off len ed")
  then have ie: "i = ed" by (simp add: copy_of_def)
  have "length dst' < p + k" using copy_of_bounds(6) [OF bs le _ c] r(2) d' by (simp add: ed_def)
  moreover obtain blk where "ed < length (dcache_blocks ino)" "dcache_blocks ino ! ed = Some blk"
    using cached_block [OF ok] cached [OF le order_refl c [unfolded ie]] by metis
  ultimately have "copy_out ino dst' [copy_of bs off len ed] = Fault Undefined_behaviour"
    by (simp add: c ie vec_at_def memcpy_def)
  then show ?thesis using r(1) by (simp add: cs copy_out_append)
qed

end

text \<open>The size and the reference count say nothing about the cache.\<close>

lemma cache_fields_size [simp]:
  "inode_ok (ino\<lparr>i_size := n\<rparr>) = inode_ok ino" "is_dirty (ino\<lparr>i_size := n\<rparr>) = is_dirty ino"
  "is_cached (ino\<lparr>i_size := n\<rparr>) = is_cached ino" "BlockSize (ino\<lparr>i_size := n\<rparr>) = BlockSize ino"
  "map_loaded (ino\<lparr>i_size := n\<rparr>) = map_loaded ino" "meta (ino\<lparr>i_size := n\<rparr>) = (meta ino)\<lparr>i_size := n\<rparr>"
  by (simp_all add: inode_ok_def is_dirty_def is_cached_def fun_eq_iff BlockSize_def map_loaded_def meta_def
      cong: option.case_cong)

lemma cache_fields_refs [simp]:
  "inode_ok (ino\<lparr>i_ref_count := n\<rparr>) = inode_ok ino" "is_dirty (ino\<lparr>i_ref_count := n\<rparr>) = is_dirty ino"
  "is_cached (ino\<lparr>i_ref_count := n\<rparr>) = is_cached ino" "BlockSize (ino\<lparr>i_ref_count := n\<rparr>) = BlockSize ino"
  "map_loaded (ino\<lparr>i_ref_count := n\<rparr>) = map_loaded ino" "meta (ino\<lparr>i_ref_count := n\<rparr>) = (meta ino)\<lparr>i_ref_count := n\<rparr>"
  by (simp_all add: inode_ok_def is_dirty_def is_cached_def fun_eq_iff BlockSize_def map_loaded_def meta_def
      cong: option.case_cong)

context payload_reader
begin

lemma view_fields_size [simp]:
  "map_bytes E b (ino\<lparr>i_size := n\<rparr>) = map_bytes E b ino" "stored_block E b (ino\<lparr>i_size := n\<rparr>) = stored_block E b ino"
  "block_view E b (ino\<lparr>i_size := n\<rparr>) = block_view E b ino" "intact E b (ino\<lparr>i_size := n\<rparr>) = intact E b ino"
  "file_byte E b (ino\<lparr>i_size := n\<rparr>) = file_byte E b ino"
proof -
  show m: "map_bytes E b (ino\<lparr>i_size := n\<rparr>) = map_bytes E b ino" by (simp add: map_bytes_def Let_def cong: option.case_cong if_cong)
  show s: "stored_block E b (ino\<lparr>i_size := n\<rparr>) = stored_block E b ino"
    using m by (simp add: stored_block_def fun_eq_iff cong: option.case_cong if_cong)
  show v: "block_view E b (ino\<lparr>i_size := n\<rparr>) = block_view E b ino" using s by (simp add: block_view_def fun_eq_iff)
  show "intact E b (ino\<lparr>i_size := n\<rparr>) = intact E b ino" "file_byte E b (ino\<lparr>i_size := n\<rparr>) = file_byte E b ino"
    using m v by (simp_all add: intact_def file_byte_def fun_eq_iff)
qed

lemma view_fields_refs [simp]:
  "map_bytes E b (ino\<lparr>i_ref_count := n\<rparr>) = map_bytes E b ino" "stored_block E b (ino\<lparr>i_ref_count := n\<rparr>) = stored_block E b ino"
  "block_view E b (ino\<lparr>i_ref_count := n\<rparr>) = block_view E b ino" "intact E b (ino\<lparr>i_ref_count := n\<rparr>) = intact E b ino"
  "file_byte E b (ino\<lparr>i_ref_count := n\<rparr>) = file_byte E b ino"
proof -
  show m: "map_bytes E b (ino\<lparr>i_ref_count := n\<rparr>) = map_bytes E b ino" by (simp add: map_bytes_def Let_def cong: option.case_cong if_cong)
  show s: "stored_block E b (ino\<lparr>i_ref_count := n\<rparr>) = stored_block E b ino"
    using m by (simp add: stored_block_def fun_eq_iff cong: option.case_cong if_cong)
  show v: "block_view E b (ino\<lparr>i_ref_count := n\<rparr>) = block_view E b ino" using s by (simp add: block_view_def fun_eq_iff)
  show "intact E b (ino\<lparr>i_ref_count := n\<rparr>) = intact E b ino" "file_byte E b (ino\<lparr>i_ref_count := n\<rparr>) = file_byte E b ino"
    using m v by (simp_all add: intact_def file_byte_def fun_eq_iff)
qed

lemma cache_read_ok:
  assumes "intact E b ino" and "env_ok E" and "unat offset + unat sz < 2 ^ 64" and "0 < sz"
  shows "unat sz + overrun (BlockSize ino) (unat offset) (unat sz) \<le> length dst \<Longrightarrow>
     \<exists>dst' ino' b'. RecordCache_Read E srv ino b dst offset sz = Ret (NO_ERR, dst', ino', b') \<and>
       loads E ino b ino' b' \<and> length dst' = length dst \<and>
       (\<forall>x < unat sz. dst' ! x = file_byte E b ino (unat offset + x))"
    and "unat sz \<le> length dst \<Longrightarrow> length dst < unat sz + overrun (BlockSize ino) (unat offset) (unat sz) \<Longrightarrow>
     RecordCache_Read E srv ino b dst offset sz = Fault Undefined_behaviour"
proof -
  obtain ino1 b1 where f: "fillDcache E srv ino b offset sz = Ret (NO_ERR, ino1, b1)" "loads E ino b ino1 b1"
    "\<forall>i. unat offset div BlockSize ino \<le> i \<and> i \<le> (unat offset + unat sz) div BlockSize ino \<longrightarrow> is_cached ino1 i"
    using fillDcache_ok [OF assms(1-3)] by blast
  have m: "meta ino1 = meta ino" "inode_ok ino1" using f(2) by (simp_all add: loads_def intact_def)
  note bs = meta_eqD(9) [OF m(1)]
  note ca = f(3) [folded bs]
  have r: "RecordCache_Read E srv ino b dst offset sz =
      bindO (copy_out ino1 dst (request_copies ino1 offset sz)) (\<lambda>dst'. Ret (NO_ERR, dst', ino1, b1))"
    using f(1) assms(4) by (simp add: RecordCache_Read_def)
  show "\<exists>dst' ino' b'. RecordCache_Read E srv ino b dst offset sz = Ret (NO_ERR, dst', ino', b') \<and>
       loads E ino b ino' b' \<and> length dst' = length dst \<and>
       (\<forall>x < unat sz. dst' ! x = file_byte E b ino (unat offset + x))"
    if "unat sz + overrun (BlockSize ino) (unat offset) (unat sz) \<le> length dst"
    using read_request [OF m(2) assms(3) ca, of dst E b1] that f(2) file_byte_loads [OF f(2)] r by (auto simp: bs)
  show "RecordCache_Read E srv ino b dst offset sz = Fault Undefined_behaviour"
    if "unat sz \<le> length dst" "length dst < unat sz + overrun (BlockSize ino) (unat offset) (unat sz)"
    using read_request_overrun [OF m(2) assms(3) ca, of dst] that r by (simp add: bs)
qed

text \<open>Writing through the inode: where the bytes go, and what becomes of the size.\<close>

lemma inode_write_ok:
  assumes "intact E b ino" and "env_ok E" and "0 < sz"
    and "at = (if i_size ino \<le> offset then i_size ino else offset)" and "unat at + unat sz < 2 ^ 64"
    and "unat sz + overrun (BlockSize ino) (unat at) (unat sz) \<le> length src"
  shows "\<exists>ino' b'. Inode_Write E srv ino b src offset sz = Ret (NO_ERR, sz, ino', b') \<and>
    intact E b' ino' \<and> same_backend b b' \<and> meta ino' = (meta ino)\<lparr>i_size := max (i_size ino) (at + sz)\<rparr> \<and>
    (\<forall>q. file_byte E b' ino' q =
       (if unat at \<le> q \<and> q < unat at + unat sz + overrun (BlockSize ino) (unat at) (unat sz)
        then src ! (q - unat at) else file_byte E b ino q)) \<and>
    (\<forall>i. is_dirty ino' i \<longleftrightarrow> is_dirty ino i \<or>
       unat at div BlockSize ino \<le> i \<and> i \<le> (unat at + unat sz) div BlockSize ino)"
proof -
  obtain ino1 b' where w: "RecordCache_Write E srv ino b src at sz = Ret (NO_ERR, ino1, b')"
    "intact E b' ino1" "same_backend b b'" "meta ino1 = meta ino"
    "\<forall>q. file_byte E b' ino1 q =
       (if unat at \<le> q \<and> q < unat at + unat sz + overrun (BlockSize ino) (unat at) (unat sz)
        then src ! (q - unat at) else file_byte E b ino q)"
    "\<forall>i. is_dirty ino1 i \<longleftrightarrow> is_dirty ino i \<or>
       unat at div BlockSize ino \<le> i \<and> i \<le> (unat at + unat sz) div BlockSize ino"
    using cache_write_ok [OF assms(1,2,5,3,6)] by blast
  define ino' where "ino' = (if i_size ino1 < at + sz then ino1\<lparr>i_size := at + sz\<rparr> else ino1)"
  have sz: "i_size ino1 = i_size ino" using meta_eqD(3) [OF w(4)] .
  have e: "ino' = ino1\<lparr>i_size := max (i_size ino) (at + sz)\<rparr>"
    by (cases "i_size ino1 < at + sz") (simp_all add: ino'_def sz max_def)
  have "Inode_Write E srv ino b src offset sz = Ret (NO_ERR, sz, ino', b')"
    using w(1) by (simp add: Inode_Write_def Let_def assms(4) [symmetric] ino'_def)
  then show ?thesis using w by (simp add: e)
qed

end

section \<open>The simulated server as a source of blocks\<close>

context record_store
begin

definition payload_at :: "'s backend \<Rightarrow> env \<Rightarrow> string \<Rightarrow> string \<Rightarrow> string option" where
  "payload_at b E dc rec =
     (case lookup (be_srv b) dc rec of
        None \<Rightarrow> None
      | Some d \<Rightarrow>
          let p = payload_in_transit (parse_pdu (cdc E) d) in
          if rvalid rec d \<and> length d \<le> length p + 576 then Some p else None)"

end

sublocale record_store \<subseteq> rd: payload_reader srv "\<lambda>b. inv (be_srv b)" payload_at
  "\<lambda>b. (lookup (be_srv b), known (be_srv b), fresh (be_srv b))"
proof
  fix b E dc rec p n
  assume a: "inv (be_srv b)" "payload_at b E dc rec = Some p" "length p \<le> n"
  then obtain d where d: "lookup (be_srv b) dc rec = Some d" "rvalid rec d" "length d \<le> n + 576"
    "p = payload_in_transit (parse_pdu (cdc E) d)"
    by (auto simp: payload_at_def Let_def split: option.splits if_splits)
  obtain s' where s': "ReadRecord srv (be_srv b) dc rec (n + 576) = Ret (NO_ERR, d, s')" "inv s'"
    "lookup s' = lookup (be_srv b)" "known s' = known (be_srv b)" "fresh s' = fresh (be_srv b)"
    using read_returns [OF a(1) d(1-3)] by blast
  then have "payload_at (b\<lparr>be_srv := s'\<rparr>) = payload_at b" by (simp add: payload_at_def fun_eq_iff)
  with s' d a(3) show "\<exists>b'. ReadRecordData E srv b dc rec n = Ret (NO_ERR, p, b') \<and> inv (be_srv b') \<and>
      payload_at b' = payload_at b \<and>
      (lookup (be_srv b'), known (be_srv b'), fresh (be_srv b')) = (lookup (be_srv b), known (be_srv b), fresh (be_srv b)) \<and>
      be_mid b' = be_mid b \<and> be_client_key_pair b' = be_client_key_pair b"
    by (intro exI [of _ "b\<lparr>be_srv := s'\<rparr>"]) (simp add: ReadRecordData_def add.assoc)
qed

section \<open>Fresh files\<close>

context payload_reader
begin

lemma fresh_intact:
  assumes "binv b" and "Inode_fresh dc kb cover key = Ret ino" and "length key = 16"
  shows "intact E b ino" and "file_byte E b ino q = NUL"
proof -
  note ok = Inode_ok [OF assms(2) [unfolded Inode_fresh_def] assms(3)]
  have f: "i_bm_recordname ino = []" using arg_cong [OF ok(4), of i_bm_recordname] by simp
  have m: "map_bytes E b ino = Some (replicate (32 * unat (i_bm_cover ino)) NUL)"
    using ok(5) f by (simp add: map_bytes_def Let_def)
  have "map_entry cover (replicate n NUL) i = None" for cover n i
    by (simp add: map_entry_def strcmp_eq_def zero_str_def Let_def take_replicate drop_replicate takeWhile_replicate)
  then have v: "block_view E b ino i = Some (replicate (BlockSize ino) NUL)" for i
    using ok(2) m by (simp add: block_view_def stored_block_def)
  then show "intact E b ino" using assms(1) ok(1,3) m by (simp add: intact_def)
  show "file_byte E b ino q = NUL" using BlockSize_pos [OF ok(1)] by (simp add: file_byte_def v)
qed

text \<open>A read inside the file returns its bytes and changes the cache only.\<close>

lemma inode_read_ok:
  assumes "intact E b ino" and "env_ok E" and "0 < sz" and "unat offset + unat sz \<le> unat (i_size ino)"
    and "unat sz + overrun (BlockSize ino) (unat offset) (unat sz) \<le> length dst"
  shows "\<exists>dst' ino' b'. Inode_Read E srv ino b dst offset sz = Ret (NO_ERR, Some sz, dst', ino', b') \<and>
    loads E ino b ino' b' \<and> length dst' = length dst \<and> (\<forall>x < unat sz. dst' ! x = file_byte E b ino (unat offset + x))"
proof -
  have lt: "unat offset + unat sz < 2 ^ 64" using order_le_less_trans [OF assms(4) unsigned_less] by simp
  have "unat (offset + sz) = unat offset + unat sz" using lt unat_add_lem [of offset sz] by simp
  moreover have "0 < unat sz" using assms(3) by (simp add: word_less_nat_alt)
  ultimately have "\<not> i_size ino \<le> offset" "\<not> i_size ino < offset + sz"
    using assms(4) by (simp_all add: word_le_nat_alt word_less_nat_alt)
  then show ?thesis using cache_read_ok(1) [OF assms(1,2) lt assms(3,5)] by (auto simp: Inode_Read_def Let_def)
qed

text \<open>Bytes written through the inode are the bytes a later read of the same range returns.\<close>

lemma inode_write_read:
  assumes "intact E b ino" and "env_ok E" and "0 < sz"
    and "at = (if i_size ino \<le> offset then i_size ino else offset)" and "unat at + unat sz < 2 ^ 64"
    and "unat sz + overrun (BlockSize ino) (unat at) (unat sz) \<le> length src"
    and "unat sz + overrun (BlockSize ino) (unat at) (unat sz) \<le> length dst"
  shows "\<exists>ino1 b1 dst' ino2 b2. Inode_Write E srv ino b src offset sz = Ret (NO_ERR, sz, ino1, b1) \<and>
    Inode_Read E srv ino1 b1 dst at sz = Ret (NO_ERR, Some sz, dst', ino2, b2) \<and>
    take (unat sz) dst' = take (unat sz) src"
proof -
  obtain ino1 b1 where w: "Inode_Write E srv ino b src offset sz = Ret (NO_ERR, sz, ino1, b1)" "intact E b1 ino1"
    "meta ino1 = (meta ino)\<lparr>i_size := max (i_size ino) (at + sz)\<rparr>"
    "\<forall>q. file_byte E b1 ino1 q =
       (if unat at \<le> q \<and> q < unat at + unat sz + overrun (BlockSize ino) (unat at) (unat sz)
        then src ! (q - unat at) else file_byte E b ino q)"
    using inode_write_ok [OF assms(1-6)] by blast
  have "meta ino1 = meta (ino\<lparr>i_size := max (i_size ino) (at + sz)\<rparr>)" using w(3) by simp
  note m = meta_eqD [OF this]
  have e: "unat (at + sz) = unat at + unat sz" using assms(5) unat_add_lem [of at sz] by simp
  have le: "unat at + unat sz \<le> unat (i_size ino1)" using m(3) e by (simp add: max_def word_le_nat_alt)
  obtain dst' ino2 b2 where r: "Inode_Read E srv ino1 b1 dst at sz = Ret (NO_ERR, Some sz, dst', ino2, b2)"
    "length dst' = length dst" "\<forall>x < unat sz. dst' ! x = file_byte E b1 ino1 (unat at + x)"
    using inode_read_ok [OF w(2) assms(2,3) le, of dst] m(9) assms(7) by auto
  have "take (unat sz) dst' = take (unat sz) src"
    using r(2,3) w(4) assms(6,7) by (intro nth_equalityI) auto
  then show ?thesis using w(1) r(1) by auto
qed

end

section \<open>A concrete file\<close>

definition sample_inode :: inode where
  "sample_inode = \<lparr>i_hashname = sample_dc, i_ino_recordname = [], i_size = 0, i_block_size = 1024, i_bm_cover = 512,
     i_bm_recordname = [], i_aes_key = sample_key, i_ref_count = 0, dcache_stats = [cstat_init], dcache_blocks = [None],
     bm_buf = None\<rparr>"

lemma sample_inode_fresh: "Inode_fresh sample_dc 1 512 sample_key = Ret sample_inode"
  by (simp add: Inode_fresh_def Inode_def sample_inode_def)

lemma sample_intact: "sim.rd.intact E (sample_backend sim_init) sample_inode"
  using sim.rd.fresh_intact(1) [OF _ sample_inode_fresh] sim_init_healthy by (simp add: sample_key_def)

lemma sample_inode_simps [simp]: "BlockSize sample_inode = 1024" "i_size sample_inode = 0"
  by (simp_all add: sample_inode_def BlockSize_def)

text \<open>A file with one dirty block, and a build in which its flush fails.\<close>

definition sample_dirty :: inode where
  "sample_dirty = sample_inode\<lparr>dcache_stats := [\<lparr>cached = True, dirty = True\<rparr>], dcache_blocks := [Some (replicate 1040 CHR ''x'')]\<rparr>"

lemma sample_dirty_ok: "inode_ok sample_dirty"
  by (simp add: sample_dirty_def inode_ok_def sample_inode_def BlockSize_def slot_ok_def sample_key_def)

lemma sample_flush_fails:
  "FlushCache (sample_env\<lparr>no_sign := True\<rparr>) sim_server (sample_dirty\<lparr>i_ref_count := 0\<rparr>) b = Ret (ERR_SIGN, sample_dirty\<lparr>i_ref_count := 0\<rparr>, b)"
proof -
  let ?E = "sample_env\<lparr>no_sign := True\<rparr>"
  have "env_ok ?E" using sample_env_ok by (simp add: env_ok_def)
  note E = env_okD(2,3) [OF this] env_okD(5) [OF this]
  have key: "cread (c_str sample_key) 0 16 = Ret sample_key" by (simp add: cread_c_str sample_key_def)
  obtain c where c: "encrypt_symmetric (ossl ?E) sample_key None (replicate 1024 CHR ''x'') = (1, Some c)" "length c = 1040"
    using aes_okE [OF E(2), of sample_key None "replicate 1024 CHR ''x''"] by (auto simp: sample_key_def pad_len_def)
  have "flush_descs ?E (sample_dirty\<lparr>i_ref_count := 0\<rparr>) [0] = Ret (NO_ERR, [\<lparr>buf = c, desc_size = 1040, file_offset = 0\<rparr>])"
    using c key E(3) by (simp add: sample_dirty_def sample_inode_def vec_at_def BlockSize_def cread_def memcpy_def)
  then show ?thesis
    using c(2) digest_eq [OF E(1)]
    by (simp add: FlushCache_def StorageBackend_WriteRecord_def sign_def signed_args_def desc_bytes_def cread_def sample_dirty_def sample_inode_def)
qed

section \<open>Properties\<close>

text \<open>
  C10. Whatever the record server answers, every operation on an open file keeps the invariant
  of its cache: the two vectors have the same length, a cached or dirty slot has memory, all
  block memory has room for a block and its padding, and the block map buffer has its full
  length. Reading leaves the size alone.
\<close>

theorem cache_invariant:
  assumes "env_ok E" and "inode_ok ino"
  shows "(\<forall>rc n dst' ino' b'. Inode_Read E srv ino b dst offset sz = Ret (rc, n, dst', ino', b') \<longrightarrow>
        inode_ok ino' \<and> i_size ino' = i_size ino) \<and>
    (\<forall>rc n ino' b'. Inode_Write E srv ino b src offset sz = Ret (rc, n, ino', b') \<longrightarrow> inode_ok ino') \<and>
    (\<forall>rc ino' b'. FlushCache E srv ino b = Ret (rc, ino', b') \<longrightarrow> inode_ok ino') \<and>
    (\<forall>n ino' b'. Unref E srv ino b = Ret (n, ino', b') \<longrightarrow> inode_ok ino') \<and> inode_ok (Ref ino)"
proof (intro conjI allI impI)
  fix rc n dst' ino' b' assume "Inode_Read E srv ino b dst offset sz = Ret (rc, n, dst', ino', b')"
  then have "ino' = ino \<or> (\<exists>sz'. RecordCache_Read E srv ino b dst offset sz' = Ret (rc, dst', ino', b'))"
    by (auto simp: Inode_Read_def Let_def outcome_simps split: if_split_asm)
  then have "inode_ok ino' \<and> meta ino' = meta ino"
    using assms(2) RecordCache_Read_inv [OF assms, of srv b dst offset _ rc dst' ino' b'] by blast
  then show "inode_ok ino'" "i_size ino' = i_size ino" using meta_eqD(3) [of ino' ino] by simp_all
next
  fix rc n ino' b' assume "Inode_Write E srv ino b src offset sz = Ret (rc, n, ino', b')"
  then obtain at ino1 where "RecordCache_Write E srv ino b src at sz = Ret (rc, ino1, b')" "ino' = ino1 \<or> (\<exists>s. ino' = ino1\<lparr>i_size := s\<rparr>)"
    unfolding Inode_Write_def Let_def by (elim bindO_RetE) (auto split: if_split_asm prod.splits)
  then show "inode_ok ino'" using RecordCache_Write_inv [OF assms, of srv b src at sz rc ino1 b'] by auto
next
  fix rc ino' b' assume "FlushCache E srv ino b = Ret (rc, ino', b')"
  then show "inode_ok ino'" using FlushCache_inv [OF assms(2)] by blast
next
  fix n ino' b' assume u: "Unref E srv ino b = Ret (n, ino', b')"
  let ?ino1 = "ino\<lparr>i_ref_count := i_ref_count ino - 1\<rparr>"
  from u have "ino' = ?ino1 \<or> (\<exists>rc. FlushCache E srv ?ino1 b = Ret (rc, ino', b'))"
    unfolding Unref_def Let_def by (elim bindO_RetE) (auto simp: outcome_simps split: if_split_asm)
  then show "inode_ok ino'" using FlushCache_inv [of ?ino1 E srv b _ ino' b'] assms(2) by auto
next
  show "inode_ok (Ref ino)" using assms(2) by (simp add: Ref_def)
qed

theorem cache_invariant_witness: "inode_ok sample_inode \<and> inode_ok (Ref sample_inode)"
proof -
  have "inode_ok sample_inode" using sample_intact by (simp add: sim.rd.intact_def)
  then show ?thesis using cache_invariant [OF sample_env_ok] by blast
qed

text \<open>
  C9. What a write does to an open file whose stored blocks can be read. An offset beyond the
  end is moved to the end of the file. The call succeeds, the size becomes the end of the
  written range if that is larger, exactly the blocks from the first to the one holding the
  end of the range become dirty, and every byte of the range is the caller's; no other byte
  changes, except that a write touching more than one block also stores the byte after the
  caller's data, at the position after the range.
\<close>

theorem write_effect:
  assumes "sim.rd.intact E b ino" and "env_ok E" and "0 < sz"
    and "at = (if i_size ino \<le> offset then i_size ino else offset)" and "unat at + unat sz < 2 ^ 64"
    and "unat sz + overrun (BlockSize ino) (unat at) (unat sz) \<le> length src"
  shows "\<exists>ino' b'. Inode_Write E sim_server ino b src offset sz = Ret (NO_ERR, sz, ino', b') \<and>
    sim.rd.intact E b' ino' \<and> i_size ino' = max (i_size ino) (at + sz) \<and>
    (\<forall>q. sim.rd.file_byte E b' ino' q =
       (if unat at \<le> q \<and> q < unat at + unat sz + overrun (BlockSize ino) (unat at) (unat sz)
        then src ! (q - unat at) else sim.rd.file_byte E b ino q)) \<and>
    (\<forall>i. is_dirty ino' i \<longleftrightarrow> is_dirty ino i \<or>
       unat at div BlockSize ino \<le> i \<and> i \<le> (unat at + unat sz) div BlockSize ino)"
proof -
  obtain ino' b' where w: "Inode_Write E sim_server ino b src offset sz = Ret (NO_ERR, sz, ino', b')"
    "sim.rd.intact E b' ino'" "meta ino' = (meta ino)\<lparr>i_size := max (i_size ino) (at + sz)\<rparr>"
    "\<forall>q. sim.rd.file_byte E b' ino' q =
       (if unat at \<le> q \<and> q < unat at + unat sz + overrun (BlockSize ino) (unat at) (unat sz)
        then src ! (q - unat at) else sim.rd.file_byte E b ino q)"
    "\<forall>i. is_dirty ino' i \<longleftrightarrow> is_dirty ino i \<or>
       unat at div BlockSize ino \<le> i \<and> i \<le> (unat at + unat sz) div BlockSize ino"
    using sim.rd.inode_write_ok [OF assms] by blast
  have "i_size ino' = max (i_size ino) (at + sz)" using arg_cong [OF w(3), of i_size] by simp
  then show ?thesis using w by blast
qed

theorem write_effect_witness:
  "\<exists>ino' b'. Inode_Write sample_env sim_server sample_inode (sample_backend sim_init) (replicate 1024 CHR ''x'' @ ''!'') 7 1024
      = Ret (NO_ERR, 1024, ino', b') \<and> i_size ino' = 1024 \<and> is_dirty ino' 1 \<and>
    sim.rd.file_byte sample_env b' ino' 1023 = CHR ''x'' \<and> sim.rd.file_byte sample_env b' ino' 1024 = CHR ''!''"
proof -
  let ?src = "replicate 1024 CHR ''x'' @ ''!''"
  have o: "overrun 1024 0 1024 = 1" by (simp add: overrun_def)
  from write_effect [OF sample_intact sample_env_ok, where offset = 7 and sz = 1024 and at = 0 and src = ?src]
  obtain ino' b' where w: "Inode_Write sample_env sim_server sample_inode (sample_backend sim_init) ?src 7 1024
      = Ret (NO_ERR, 1024, ino', b')" "i_size ino' = max 0 1024"
    "\<forall>q. sim.rd.file_byte sample_env b' ino' q = (if q < 1025 then ?src ! q else
        sim.rd.file_byte sample_env (sample_backend sim_init) sample_inode q)"
    "\<forall>i. is_dirty ino' i \<longleftrightarrow> is_dirty sample_inode i \<or> i \<le> 1"
    by (auto simp: o)
  have "?src ! 1023 = CHR ''x''" "?src ! 1024 = CHR ''!''" by (simp_all add: nth_append)
  with w show ?thesis by (intro exI [of _ ino'] exI [of _ b']) (simp add: max_def)
qed

text \<open>
  Read after write: what was written through \<open>Inode::Write\<close> is what \<open>Inode::Read\<close> of the
  range it was written to returns, in the caller's buffer.
\<close>

theorem write_then_read:
  assumes "sim.rd.intact E b ino" and "env_ok E" and "0 < sz"
    and "at = (if i_size ino \<le> offset then i_size ino else offset)" and "unat at + unat sz < 2 ^ 64"
    and "unat sz + overrun (BlockSize ino) (unat at) (unat sz) \<le> length src"
    and "unat sz + overrun (BlockSize ino) (unat at) (unat sz) \<le> length dst"
  shows "\<exists>ino1 b1 dst' ino2 b2. Inode_Write E sim_server ino b src offset sz = Ret (NO_ERR, sz, ino1, b1) \<and>
    Inode_Read E sim_server ino1 b1 dst at sz = Ret (NO_ERR, Some sz, dst', ino2, b2) \<and>
    take (unat sz) dst' = take (unat sz) src"
  by (rule sim.rd.inode_write_read [OF assms])

theorem write_then_read_witness:
  "\<exists>ino1 b1 dst' ino2 b2. Inode_Write sample_env sim_server sample_inode (sample_backend sim_init) ''hello'' 0 5
      = Ret (NO_ERR, 5, ino1, b1) \<and>
    Inode_Read sample_env sim_server ino1 b1 ''.....'' 0 5 = Ret (NO_ERR, Some 5, dst', ino2, b2) \<and> take 5 dst' = ''hello''"
  using write_then_read [OF sample_intact sample_env_ok, where offset = 0 and sz = 5 and at = 0 and src = "''hello''" and dst = "''.....''"]
  by (simp add: overrun_def)

text \<open>
  C18. A read that ends in a later block than it starts in writes one byte more than it was
  asked for: into a caller's buffer of exactly the requested size it is undefined behaviour,
  although the request lies within the file and every block is available.
\<close>

theorem read_overruns_buffer:
  assumes "sim.rd.intact E b ino" and "env_ok E" and "0 < sz" and "offset + sz \<le> i_size ino"
    and "unat offset + unat sz < 2 ^ 64" and "length dst = unat sz"
    and "unat offset div BlockSize ino \<noteq> (unat offset + unat sz) div BlockSize ino"
  shows "Inode_Read E sim_server ino b dst offset sz = Fault Undefined_behaviour"
proof -
  have e: "unat (offset + sz) = unat offset + unat sz" using assms(5) unat_add_lem [of offset sz] by simp
  have "0 < unat sz" using assms(3) by (simp add: word_less_nat_alt)
  then have "offset < offset + sz" using e by (simp add: word_less_nat_alt)
  then have "\<not> i_size ino \<le> offset" "\<not> i_size ino < offset + sz" using assms(4) by auto
  moreover have "RecordCache_Read E sim_server ino b dst offset sz = Fault Undefined_behaviour"
    by (rule sim.rd.cache_read_ok(2) [OF assms(1,2,5,3)]) (use assms(6,7) in \<open>simp_all add: overrun_def\<close>)
  ultimately show ?thesis by (simp add: Inode_Read_def)
qed

theorem read_overruns_buffer_witness:
  "\<exists>ino b. i_size ino = 2048 \<and> Inode_Read sample_env sim_server ino b (replicate 1024 CHR ''.'') 0 1024 = Fault Undefined_behaviour"
proof -
  let ?ino = "sample_inode\<lparr>i_size := 2048\<rparr>"
  have "sim.rd.intact sample_env (sample_backend sim_init) ?ino" using sample_intact by simp
  from read_overruns_buffer [OF this sample_env_ok, where sz = 1024 and offset = 0 and dst = "replicate 1024 CHR ''.''"]
  show ?thesis by (intro exI [of _ ?ino] exI [of _ "sample_backend sim_init"]) simp
qed

text \<open>
  The block map lookup: with the map of \<open>names\<close> in the buffer, \<open>bmCheck\<close> returns the name
  of every block, except that a name whose first byte is zero counts as no name at all, so its
  block reads as zeros.
\<close>

theorem block_name_lookup:
  assumes "bm_buf ino = Some (concat names @ rest)" and "\<forall>h \<in> set names. length h = 32"
    and "i < length names" and "length names \<le> unat (i_bm_cover ino)"
  shows "bmCheck ino i = Ret (if hd (names ! i) = NUL then None else Some (names ! i))"
proof -
  have "take 32 (drop (i * 32) (concat names @ rest)) = names ! i \<and> i * 32 + 32 \<le> length (concat names)"
    using assms(2,3)
  proof (induction names arbitrary: i)
    case (Cons h hs)
    then show ?case by (cases i) (auto simp: add.commute)
  qed simp
  then have h: "cread (concat names @ rest) (i * 32) 32 = Ret (names ! i)"
    by (simp add: cread_def del: take_append drop_append)
  have l: "length (names ! i) = 32" using assms(2,3) by simp
  then obtain c cs where c: "names ! i = c # cs" by (cases "names ! i") auto
  have "strcmp_eq (names ! i) zero_str \<longleftrightarrow> c = NUL"
    by (simp add: strcmp_eq_def zero_str_def takeWhile_replicate c)
  with h assms c show ?thesis by (simp add: bmCheck_def)
qed

theorem block_name_lookup_witness:
  "bmCheck (sample_inode\<lparr>bm_buf := Some (concat [replicate 32 CHR ''a'', NUL # replicate 31 CHR ''b''])\<rparr>) 0
     = Ret (Some (replicate 32 CHR ''a'')) \<and>
   bmCheck (sample_inode\<lparr>bm_buf := Some (concat [replicate 32 CHR ''a'', NUL # replicate 31 CHR ''b''])\<rparr>) 1 = Ret None"
proof -
  let ?names = "[replicate 32 CHR ''a'', NUL # replicate 31 CHR ''b'']"
  let ?ino = "sample_inode\<lparr>bm_buf := Some (concat ?names)\<rparr>"
  have p: "bm_buf ?ino = Some (concat ?names @ [])" "\<forall>h \<in> set ?names. length h = 32" "length ?names \<le> unat (i_bm_cover ?ino)"
    by (simp_all add: sample_inode_def)
  show ?thesis
    using block_name_lookup [OF p(1,2) _ p(3), of 0] block_name_lookup [OF p(1,2) _ p(3), of 1] by simp
qed

text \<open>
  Reference counting. \<open>Unref\<close> of a file nobody references fails its assertion; while
  references remain it only counts; the last one flushes the cache and returns 0 whatever
  \<open>FlushCache\<close> returned, in particular when the flush failed and every dirty block is still
  unwritten.
\<close>

theorem unref_cases:
  assumes "FlushCache E srv (ino\<lparr>i_ref_count := 0\<rparr>) b = Ret (rc, ino', b')" and "inode_ok ino"
  shows "Unref E srv (ino\<lparr>i_ref_count := 0\<rparr>) b = Fault Assertion_failed \<and>
    (1 < n \<longrightarrow> Unref E srv (ino\<lparr>i_ref_count := n\<rparr>) b = Ret (ucast (n - 1), ino\<lparr>i_ref_count := n - 1\<rparr>, b)) \<and>
    Unref E srv (ino\<lparr>i_ref_count := 1\<rparr>) b = Ret (0, ino', b') \<and>
    (\<forall>i. is_dirty ino' i \<longleftrightarrow> rc < 0 \<and> is_dirty ino i)"
proof -
  have f: "ino' = (if rc < 0 then ino\<lparr>i_ref_count := 0\<rparr> else drop_caches (ino\<lparr>i_ref_count := 0\<rparr>))" "meta ino' = meta (ino\<lparr>i_ref_count := 0\<rparr>)"
    using FlushCache_inv [OF _ assms(1)] assms(2) drop_caches_inv(2) [of "ino\<lparr>i_ref_count := 0\<rparr>"] by (simp_all split: if_splits)
  have "i_ref_count ino' = 0" using meta_eqD(8) [OF f(2)] by simp
  moreover have "1 < n \<Longrightarrow> n - 1 \<noteq> 0" by auto
  moreover have "1 < n \<Longrightarrow> 0 < n" by (rule le_less_trans [of 0 1 n]) simp_all
  ultimately show ?thesis
    using assms(1) drop_caches_inv(4) [of "ino\<lparr>i_ref_count := 0\<rparr>"] by (simp add: Unref_def Let_def f(1))
qed

theorem unref_cases_witness:
  "is_dirty sample_dirty 0 \<and> (\<exists>ino' b'. Unref (sample_env\<lparr>no_sign := True\<rparr>) sim_server (sample_dirty\<lparr>i_ref_count := 1\<rparr>) (sample_backend sim_init)
     = Ret (0, ino', b') \<and> is_dirty ino' 0)"
proof -
  have d: "is_dirty sample_dirty 0" by (simp add: sample_dirty_def is_dirty_def)
  from unref_cases [OF sample_flush_fails [of "sample_backend sim_init"] sample_dirty_ok, of 1] d show ?thesis by auto
qed

end
