(* ===== verification/Flush.thy ===== *)
theory Flush
  imports Cache_View
begin

text \<open>
  The first flush of a file and what a later \<open>ReadFileMeta\<close> makes of it: \<open>RecordCache::FlushCache\<close>
  down to the records on the server, and a new \<open>Inode\<close> built from them.
\<close>

section \<open>Encrypting the dirty blocks\<close>

definition cipher :: "env \<Rightarrow> inode \<Rightarrow> nat \<Rightarrow> string" where
  "cipher E ino i =
     (case snd (encrypt_symmetric (ossl E) (i_aes_key ino) None (take (BlockSize ino) (the (dcache_blocks ino ! i)))) of
        None \<Rightarrow> [] | Some c \<Rightarrow> c)"

definition dirty_blocks :: "inode \<Rightarrow> nat list" where
  "dirty_blocks ino = filter (is_dirty ino) [0..<length (dcache_stats ino)]"

lemma cipher_ok:
  assumes "env_ok E" and "inode_ok ino" and "is_cached ino i \<or> is_dirty ino i" and "BlockSize ino + 16 < 2 ^ 31"
  shows "encrypt_symmetric (ossl E) (i_aes_key ino) None (take (BlockSize ino) (the (dcache_blocks ino ! i))) = (1, Some (cipher E ino i))"
    and "length (cipher E ino i) = BlockSize ino + 16"
    and "decrypt_symmetric (ossl E) (i_aes_key ino) None (cipher E ino i) = (1, Some (take (BlockSize ino) (the (dcache_blocks ino ! i))))"
proof -
  obtain blk where blk: "dcache_blocks ino ! i = Some blk" "length blk = BlockSize ino + 16"
    using cached_block [OF assms(2,3)] by metis
  obtain d where d: "BlockSize ino = 1024 * d" using assms(2) by (auto simp: inode_ok_def)
  have p: "pad_len (BlockSize ino) = 16" unfolding pad_len_def d by (simp add: mod_mult_left_eq [symmetric])
  obtain c where c: "encrypt_symmetric (ossl E) (i_aes_key ino) None (take (BlockSize ino) blk) = (1, Some c)"
    "length c = length (take (BlockSize ino) blk) + pad_len (length (take (BlockSize ino) blk))"
    "decrypt_symmetric (ossl E) (i_aes_key ino) None c = (1, Some (take (BlockSize ino) blk))"
    by (rule aes_okE [OF env_okD(3) [OF assms(1)] inode_okD(2) [OF assms(2)], of None "take (BlockSize ino) blk"])
       (use assms(4) in simp_all)
  have "cipher E ino i = c" using c(1) blk(1) by (simp add: cipher_def)
  with c blk p show "encrypt_symmetric (ossl E) (i_aes_key ino) None (take (BlockSize ino) (the (dcache_blocks ino ! i))) = (1, Some (cipher E ino i))"
    "length (cipher E ino i) = BlockSize ino + 16"
    "decrypt_symmetric (ossl E) (i_aes_key ino) None (cipher E ino i) = (1, Some (take (BlockSize ino) (the (dcache_blocks ino ! i))))"
    by simp_all
qed

lemma flush_descs_ok:
  assumes "env_ok E" and "inode_ok ino" and "\<forall>i \<in> set is. i < length (dcache_stats ino)" and "BlockSize ino + 16 < 2 ^ 31"
  shows "\<exists>descs. flush_descs E ino is = Ret (NO_ERR, descs) \<and>
    list_all2 (\<lambda>d c. desc_bytes d = Ret c) descs (map (cipher E ino) (filter (is_dirty ino) is))"
  using assms(3)
proof (induction "is")
  case (Cons i "is")
  then obtain descs where IH: "flush_descs E ino is = Ret (NO_ERR, descs)"
    "list_all2 (\<lambda>d c. desc_bytes d = Ret c) descs (map (cipher E ino) (filter (is_dirty ino) is))" by auto
  show ?case
  proof (cases "is_dirty ino i")
    case False
    moreover have "\<not> dirty (dcache_stats ino ! i)" using False Cons.prems by (simp add: is_dirty_def)
    ultimately show ?thesis using Cons.prems IH by (simp add: vec_at_def)
  next
    case True
    obtain blk where blk: "i < length (dcache_blocks ino)" "dcache_blocks ino ! i = Some blk" "length blk = BlockSize ino + 16"
      using cached_block [OF assms(2)] True by metis
    note c = cipher_ok [OF assms(1,2) disjI2 [OF True] assms(4)]
    have key: "cread (c_str (i_aes_key ino)) 0 16 = Ret (i_aes_key ino)"
      using inode_okD(2) [OF assms(2)] by (simp add: cread_c_str)
    have mem: "length (fresh_mem E (BlockSize ino + 16)) = BlockSize ino + 16" by (rule env_okD(5) [OF assms(1)])
    let ?d = "\<lparr>buf = cipher E ino i, desc_size = BlockSize ino + 16, file_offset = of_nat i * i_block_size ino\<rparr>"
    have "flush_descs E ino (i # is) = Ret (NO_ERR, ?d # descs)"
      using True Cons.prems blk key mem c(1,2) IH(1)
      by (simp add: is_dirty_def vec_at_def cread_def memcpy_def)
    moreover have "desc_bytes ?d = Ret (cipher E ino i)" using c(2) by (simp add: desc_bytes_def cread_def)
    ultimately show ?thesis using True IH(2) by auto
  qed
qed simp

text \<open>Whatever the cipher does, the buffers of a successful call are the encrypted dirty blocks.\<close>

lemma flush_descs_returned:
  assumes "inode_ok ino" and "flush_descs E ino is = Ret (rc, descs)" and "\<not> rc < 0"
  shows "list_all2 (\<lambda>d c. desc_bytes d = Ret c) descs (map (cipher E ino) (filter (is_dirty ino) is))"
  using assms(2,3)
proof (induction "is" arbitrary: descs)
  case (Cons i "is")
  have i: "i < length (dcache_stats ino)" using Cons.prems(1) by (auto simp: vec_at_def elim!: bindO_RetE split: if_splits)
  show ?case
  proof (cases "is_dirty ino i")
    case False
    then have "\<not> dirty (dcache_stats ino ! i)" using i by (simp add: is_dirty_def)
    then show ?thesis using Cons i False by (simp add: vec_at_def)
  next
    case True
    obtain blk where blk: "i < length (dcache_blocks ino)" "dcache_blocks ino ! i = Some blk" "length blk = BlockSize ino + 16"
      using cached_block [OF assms(1)] True by metis
    have key: "cread (c_str (i_aes_key ino)) 0 16 = Ret (i_aes_key ino)"
      using inode_okD(2) [OF assms(1)] by (simp add: cread_c_str)
    obtain rc1 enc where enc: "encrypt_symmetric (ossl E) (i_aes_key ino) None (take (BlockSize ino) blk) = (rc1, enc)" by fastforce
    let ?out = "case enc of None \<Rightarrow> [] | Some c \<Rightarrow> c"
    let ?mem = "?out @ drop (length ?out) (fresh_mem E (BlockSize ino + 16))"
    obtain ds where ds: "flush_descs E ino is = Ret (rc, ds)"
      "descs = \<lparr>buf = ?mem, desc_size = length ?out, file_offset = of_nat i * i_block_size ino\<rparr> # ds"
      using Cons.prems True i blk key enc
      by (auto simp: is_dirty_def vec_at_def cread_def memcpy_def Let_def split: if_splits elim!: bindO_RetE)
    have "cipher E ino i = ?out" using enc blk(2) by (simp add: cipher_def)
    then show ?thesis using Cons.IH [OF ds(1) Cons.prems(2)] ds(2) True by (simp add: desc_bytes_def cread_def)
  qed
qed simp

section \<open>Lists of names and blocks\<close>

lemma map_entry_concat:
  assumes "\<forall>h \<in> set names. length h = 32" and "length names \<le> cover"
  shows "map_entry cover (concat names @ replicate n NUL) i =
    (if i < length names \<and> hd (names ! i) \<noteq> NUL then Some (names ! i) else None)"
proof (cases "i < length names")
  case True
  have "take 32 (drop (i * 32) (concat names @ r)) = names ! i" for r
    using assms(1) True
  proof (induction names arbitrary: i)
    case (Cons h hs)
    then show ?case by (cases i) (auto simp: add.commute)
  qed simp
  moreover have "length (names ! i) = 32" using assms(1) True by simp
  then have "strcmp_eq (names ! i) zero_str \<longleftrightarrow> hd (names ! i) = NUL"
    by (cases "names ! i") (auto simp: strcmp_eq_def zero_str_def takeWhile_replicate)
  ultimately show ?thesis using True assms(2) by (simp add: map_entry_def Let_def del: take_append drop_append)
next
  case False
  then have "length (concat names) \<le> i * 32" using length_concat_hashes [OF assms(1)] by simp
  then show ?thesis
    using False by (simp add: map_entry_def strcmp_eq_def zero_str_def Let_def take_replicate drop_replicate takeWhile_replicate)
qed

lemma batch_parts:
  assumes sha: "sha_ok (ossl E)" and dc: "length dc = 32" and cs: "cs \<noteq> []"
    and recs: "recs = batch_records E t dc dc dc [] sealed cs"
  shows "i < length cs \<Longrightarrow> \<exists>n link. recs ! i = record_pdu E n DATABLOCK [link] (cs ! i) \<and> length link \<le> 32"
    and "\<exists>n l. recs ! length cs = record_pdu E n BLOCKMAP [dc, l] (concat (map header_hash (take (length cs) recs))) \<and> length l \<le> 32"
    and "p \<in> set recs \<Longrightarrow> length (header_hash p) = 32"
proof -
  define ch where "ch = data_chain E t dc cs"
  have take: "take (length cs) recs = ch" "length ch = length cs" by (simp_all add: recs batch_records_def Let_def ch_def)
  have name: "length (header_hash (recs ! j)) = 32" if j: "j < length cs + 2" for j
    using batch_records_shape [OF j, of E t dc dc dc "[]" sealed] length_record_name [OF sha] recs by metis
  then show "length (header_hash p) = 32" if "p \<in> set recs" for p
    using that by (metis batch_records_length in_set_conv_nth recs)
  have l: "length (last (map header_hash ch)) = 32"
    using data_chain_name_length [OF sha, of "last ch" t dc cs] cs by (simp add: ch_def last_map)
  have "recs ! length cs = blockmap_pdu E (t + length cs) dc [] (map header_hash ch)"
    using take(2) by (simp add: recs batch_records_def Let_def nth_append ch_def)
  then show "\<exists>n l. recs ! length cs = record_pdu E n BLOCKMAP [dc, l] (concat (map header_hash (take (length cs) recs))) \<and> length l \<le> 32"
    using l by (intro exI [of _ "t + length cs"] exI [of _ "last (map header_hash ch)"]) (simp add: blockmap_pdu_def take)
  assume i: "i < length cs"
  let ?link = "if i = 0 then dc else header_hash (ch ! (i - 1))"
  have "ch ! (i - 1) = recs ! (i - 1)" using i take by (metis less_imp_diff_less nth_take)
  then have "length ?link \<le> 32" using dc name [of "i - 1"] i by simp
  moreover have "recs ! i = record_pdu E (t + i) DATABLOCK [?link] (cs ! i)"
    using data_chain_nth [OF i, of E t dc] take i by (metis ch_def nth_take)
  ultimately show "\<exists>n link. recs ! i = record_pdu E n DATABLOCK [link] (cs ! i) \<and> length link \<le> 32" by blast
qed

lemma dirty_prefix: "\<forall>i. is_dirty ino i \<longleftrightarrow> i < k \<Longrightarrow> dirty_blocks ino = [0..<k]"
proof -
  assume d: "\<forall>i. is_dirty ino i \<longleftrightarrow> i < k"
  have "k \<le> length (dcache_stats ino)"
  proof (rule ccontr)
    assume "\<not> k \<le> length (dcache_stats ino)"
    then have "is_dirty ino (length (dcache_stats ino))" using d by simp
    then show False by (simp add: is_dirty_def)
  qed
  then have "[0..<length (dcache_stats ino)] = [0..<k] @ [k..<length (dcache_stats ino)]"
    by (metis le_add_diff_inverse upt_add_eq_append zero_le)
  then show ?thesis using d by (simp add: dirty_blocks_def)
qed

section \<open>Files without records\<close>

text \<open>As long as a file has no block map, its cache is filled with zeros and no record is read.\<close>

definition unsaved :: "inode \<Rightarrow> bool" where
  "unsaved ino \<longleftrightarrow> bm_buf ino = None \<and> i_bm_recordname ino = []"

lemma fresh_unsaved: "Inode_fresh dc kb cover key = Ret ino \<Longrightarrow> unsaved ino"
  by (auto simp: Inode_fresh_def Inode_def unsaved_def outcome_simps Let_def)

lemma fill_block_unsaved:
  "unsaved ino \<Longrightarrow> fill_block E srv ret ino b i = Ret (rc, ino', b') \<Longrightarrow> unsaved ino' \<and> b' = b"
  unfolding fill_block_def Let_def unsaved_def
  by (elim bindO_RetE) (auto simp: bmCheck_def load_block_def Let_def outcome_simps split: if_split_asm)

lemma fill_blocks_unsaved:
  "unsaved ino \<Longrightarrow> fill_blocks E srv ret ino b is = Ret (rc, ino', b') \<Longrightarrow> b' = b"
proof (induction "is" arbitrary: ret ino b)
  case (Cons i "is")
  then obtain r1 ino1 b1 where f: "fill_block E srv ret ino b i = Ret (r1, ino1, b1)"
    "(if r1 < 0 then Ret (r1, ino1, b1) else fill_blocks E srv r1 ino1 b1 is) = Ret (rc, ino', b')"
    by (auto simp: outcome_simps)
  from fill_block_unsaved [OF Cons.prems(1) f(1)] f(2) Cons.IH show ?case by (cases "r1 < 0") auto
qed simp

lemma Inode_Write_unsaved:
  assumes "unsaved ino" and "Inode_Write E srv ino b src offset sz = Ret (rc, n, ino', b')"
  shows "b' = b"
proof -
  have "b2 = b" if "fillDcache E srv ino b off n = Ret (rc, ino2, b2)" for off n rc ino2 b2
    using that assms(1) unfolding fillDcache_def Let_def
    by (elim bindO_RetE) (auto simp: fillBmcache_def unsaved_def dest!: fill_blocks_unsaved [rotated] simp del: upt_Suc split: if_split_asm)
  with assms(2) show ?thesis
    unfolding Inode_Write_def RecordCache_Write_def Let_def by (elim bindO_RetE) (auto simp: outcome_simps)
qed

section \<open>The first flush\<close>

context record_store
begin

lemma flush_first:
  assumes E: "env_ok E" and K: "keys_ok E b" and s: "inv (be_srv b)" "known (be_srv b) dc"
    and idx: "mid_index (be_mid b) dc = Some []" and ino: "inode_ok ino" "i_hashname ino = dc" "i_ino_recordname ino = []"
    and d: "dirty_blocks ino \<noteq> []" and bs: "BlockSize ino + 16 < 2 ^ 31"
    and recs: "recs = batch_records E (mid_tick (be_mid b)) dc dc dc []
      (sealed_key E (symmetric_middleware_key (be_mid b)) (i_aes_key ino)) (map (cipher E ino) (dirty_blocks ino))"
    and w: "writable E (be_srv b) recs"
  obtains b' where "FlushCache E srv ino b = Ret (NO_ERR, drop_caches ino, b')"
    and "keys_ok E b'" and "mid_index (be_mid b') = (mid_index (be_mid b))(dc \<mapsto> header_hash (last recs))"
    and "symmetric_middleware_key (be_mid b') = symmetric_middleware_key (be_mid b)"
    and "extends E dc (be_srv b) recs (be_srv b')"
proof -
  obtain descs where f: "flush_descs E ino [0..<length (dcache_stats ino)] = Ret (NO_ERR, descs)"
    "list_all2 (\<lambda>d c. desc_bytes d = Ret c) descs (map (cipher E ino) (dirty_blocks ino))"
    using flush_descs_ok [OF E ino(1) _ bs, of "[0..<length (dcache_stats ino)]"] unfolding dirty_blocks_def by auto
  then have "descs \<noteq> []" using d by auto
  obtain b' where b': "StorageBackend_WriteRecord E srv b dc descs [] (i_aes_key ino) = Ret (NO_ERR, b')"
    "keys_ok E b'" "mid_index (be_mid b') = (mid_index (be_mid b))(dc \<mapsto> header_hash (last recs))"
    "symmetric_middleware_key (be_mid b') = symmetric_middleware_key (be_mid b)"
    "mid_tick (be_mid b') = mid_tick (be_mid b) + length descs + 2"
    "extends E dc (be_srv b) recs (be_srv b')"
    by (rule write_first_batch [OF E K s idx inode_okD(2) [OF ino(1)] f(2) \<open>descs \<noteq> []\<close> recs w])
  have "FlushCache E srv ino b = Ret (NO_ERR, drop_caches ino, b')"
    using f(1) b'(1) ino by (simp add: FlushCache_def)
  then show thesis using b' that by blast
qed

text \<open>A record on the server, as the cache sees it.\<close>

lemma stored_payload:
  assumes "env_ok E" and "lookup (be_srv b) dc (header_hash p) = Some (ser_pdu (cdc E) p)" and "rvalid (header_hash p) (ser_pdu (cdc E) p)"
    and "p = record_pdu E n t hashes pl" and "\<forall>h \<in> set hashes. length h \<le> 32" and "length hashes \<le> 2" and "length pl < 2 ^ 30"
  shows "payload_at b E dc (header_hash p) = Some pl"
proof -
  have "length (ser_pdu (cdc E) p) \<le> length pl + 576"
    using record_pdu_bound [OF assms(1,5), of n t pl] assms(4,6) by simp
  moreover have "parse_pdu (cdc E) (ser_pdu (cdc E) p) = p"
    unfolding assms(4) by (rule record_pdu_parse [OF assms(1,5,6,7)])
  ultimately show ?thesis using assms(2,3,4) by (simp add: payload_at_def)
qed

lemma reopen_view:
  assumes E: "env_ok E" and dc: "length dc = 32" and key: "length key = 16" and cs: "cs \<noteq> []" "length cs \<le> 512"
    and recs: "recs = batch_records E t dc dc dc [] sealed cs" and inv: "inv (be_srv b)"
    and stored: "\<forall>p \<in> set recs. lookup (be_srv b) dc (header_hash p) = Some (ser_pdu (cdc E) p) \<and> rvalid (header_hash p) (ser_pdu (cdc E) p)"
    and open1: "Inode dc latest (header_hash (recs ! length cs)) kb 512 sz key = Ret ino" and small: "BlockSize ino < 2 ^ 29"
    and dec: "\<forall>i < length cs. length (cs ! i) = BlockSize ino + 16 \<and> length (ps ! i) = BlockSize ino \<and>
      decrypt_symmetric (ossl E) key None (cs ! i) = (1, Some (ps ! i))"
    and nz: "\<forall>i < length cs. hd (header_hash (recs ! i)) \<noteq> NUL"
  shows "rd.intact E b ino"
    and "rd.block_view E b ino i = Some (if i < length cs then ps ! i else replicate (BlockSize ino) NUL)"
proof -
  note sha = env_okD(2) [OF E]
  note parts = batch_parts [OF sha dc cs(1) recs]
  note ok = Inode_ok [OF open1 key]
  define names where "names = map header_hash (take (length cs) recs)"
  have mem: "recs ! j \<in> set recs" if "j < length cs + 2" for j using that recs by simp
  have names: "length names = length cs" "\<forall>h \<in> set names. length h = 32" "j < length cs \<Longrightarrow> names ! j = header_hash (recs ! j)" for j
    using recs parts(3) by (auto simp: names_def dest: in_set_takeD)
  have look: "lookup (be_srv b) dc (header_hash p) = Some (ser_pdu (cdc E) p)" "rvalid (header_hash p) (ser_pdu (cdc E) p)"
    "header_hash p \<noteq> []" if "p \<in> set recs" for p
    using stored that parts(3) [OF that] by auto
  have f: "i_hashname ino = dc" "i_bm_recordname ino = header_hash (recs ! length cs)" "i_bm_cover ino = 512" "i_aes_key ino = key"
    using ok(4) meta_sel [of ino] by (metis inode.select_convs)+
  obtain n l where bm: "recs ! length cs = record_pdu E n BLOCKMAP [dc, l] (concat names)" "length l \<le> 32"
    using parts(2) unfolding names_def by blast
  have cat: "length (concat names) \<le> 32 * 512" using length_concat_hashes [OF names(2)] names(1) cs(2) by simp
  have "payload_at b E dc (header_hash (recs ! length cs)) = Some (concat names)"
    by (rule stored_payload [OF E look(1) [OF mem] look(2) [OF mem] bm(1)]) (use bm(2) dc cat in auto)
  then have m: "rd.map_bytes E b ino = Some (concat names @ replicate (32 * 512 - length (concat names)) NUL)"
    using ok(5) f cat look(3) [OF mem, of "length cs"] by (simp add: rd.map_bytes_def Let_def)
  have data: "payload_at b E dc (names ! j) = Some (cs ! j)" if j: "j < length cs" for j
  proof -
    obtain n link where r: "recs ! j = record_pdu E n DATABLOCK [link] (cs ! j)" "length link \<le> 32"
      using parts(1) [OF j] by blast
    have "payload_at b E dc (header_hash (recs ! j)) = Some (cs ! j)"
      by (rule stored_payload [OF E look(1) [OF mem] look(2) [OF mem] r(1)]) (use r(2) j dec small in auto)
    then show ?thesis using names(3) [OF j] by simp
  qed
  have v: "rd.block_view E b ino i = Some (if i < length cs then ps ! i else replicate (BlockSize ino) NUL)" for i
  proof -
    have "map_entry 512 (concat names @ replicate (32 * 512 - length (concat names)) NUL) i =
        (if i < length cs then Some (names ! i) else None)"
      using map_entry_concat [OF names(2), of 512 _ i] names(1,3) cs(2) nz by auto
    then show ?thesis
      using ok(2) m f dec data [of i] by (auto simp: rd.block_view_def rd.stored_block_def)
  qed
  then show "rd.block_view E b ino i = Some (if i < length cs then ps ! i else replicate (BlockSize ino) NUL)" .
  show "rd.intact E b ino"
    using ok(1,3) v m inv by (simp add: rd.intact_def)
qed

lemma flush_reopen:
  assumes E: "env_ok E" and K: "keys_ok E b" and I: "rd.intact E b ino"
    and dc: "length dc = 32" "i_hashname ino = dc" "known (be_srv b) dc" "mid_index (be_mid b) dc = Some []" "i_ino_recordname ino = []"
    and k: "\<forall>i. is_dirty ino i \<longleftrightarrow> i < k" "0 < k" "k \<le> 512" and bs: "i_block_size ino = kb * 1024" "BlockSize ino + 16 < 2 ^ 29"
    and recs: "recs = batch_records E (mid_tick (be_mid b)) dc dc dc []
      (sealed_key E (symmetric_middleware_key (be_mid b)) (i_aes_key ino)) (map (cipher E ino) [0..<k])"
    and w: "writable E (be_srv b) recs" and rv: "\<forall>p \<in> set recs. rvalid (header_hash p) (ser_pdu (cdc E) p)"
    and nz: "\<forall>i < k. hd (header_hash (recs ! i)) \<noteq> NUL"
  obtains b' s2 ino2 where "FlushCache E srv ino b = Ret (NO_ERR, drop_caches ino, b')"
    and "keys_ok E b'" and "mid_index (be_mid b') = (mid_index (be_mid b))(dc \<mapsto> header_hash (last recs))"
    and "ReadFileMeta E srv b' dc = Ret (NO_ERR, header_hash (last recs), of_nat k * 16 * 1024, i_aes_key ino,
      header_hash (recs ! k), b'\<lparr>be_srv := s2\<rparr>)"
    and "Inode dc (header_hash (last recs)) (header_hash (recs ! k)) kb 512 (of_nat k * 16 * 1024) (i_aes_key ino) = Ret ino2"
    and "rd.intact E (b'\<lparr>be_srv := s2\<rparr>) ino2" and "BlockSize ino2 = BlockSize ino"
    and "\<forall>q < k * BlockSize ino. rd.file_byte E (b'\<lparr>be_srv := s2\<rparr>) ino2 q = rd.file_byte E b ino q"
proof -
  have ok: "inode_ok ino" "inv (be_srv b)" using I by (simp_all add: rd.intact_def)
  have db: "dirty_blocks ino = [0..<k]" by (rule dirty_prefix [OF k(1)])
  obtain b' where b': "FlushCache E srv ino b = Ret (NO_ERR, drop_caches ino, b')"
    "keys_ok E b'" "mid_index (be_mid b') = (mid_index (be_mid b))(dc \<mapsto> header_hash (last recs))"
    "symmetric_middleware_key (be_mid b') = symmetric_middleware_key (be_mid b)"
    "extends E dc (be_srv b) recs (be_srv b')"
    by (rule flush_first [OF E K ok(2) dc(3,4) ok(1) dc(2,5)]) (use db k(2) bs(2) recs w in simp_all)
  let ?cs = "map (cipher E ino) [0..<k]"
  have ca: "is_cached ino i" if "i < k" for i using I k(1) that by (auto simp: rd.intact_def)
  have c: "length (cipher E ino i) = BlockSize ino + 16"
    "decrypt_symmetric (ossl E) (i_aes_key ino) None (cipher E ino i) = (1, Some (take (BlockSize ino) (the (dcache_blocks ino ! i))))"
    if "i < k" for i
    using cipher_ok(2,3) [OF E ok(1) disjI1 [OF ca [OF that]]] bs(2) by simp_all
  have idx: "mid_index (be_mid b') dc = Some (header_hash (last recs))" using b'(3) by simp
  have st1: "inv (be_srv b')" "\<forall>p \<in> set recs. lookup (be_srv b') dc (header_hash p) = Some (ser_pdu (cdc E) p)"
    using b'(5) by (simp_all add: extends_def)
  have "\<exists>s2. ReadFileMeta E srv b' dc = Ret (NO_ERR, header_hash (last recs), of_nat (length ?cs) * 16 * 1024, i_aes_key ino,
      header_hash (recs ! length ?cs), b'\<lparr>be_srv := s2\<rparr>) \<and> inv s2 \<and> lookup s2 = lookup (be_srv b') \<and>
      known s2 = known (be_srv b')"
    by (rule batch_readable(1) [OF E b'(2) st1(1) dc(1) inode_okD(2) [OF ok(1)] _ _ _ bs(2) _ st1(2) rv idx])
       (use k c(1) recs b'(4) in auto)
  then obtain s2 where meta1: "ReadFileMeta E srv b' dc = Ret (NO_ERR, header_hash (last recs), of_nat k * 16 * 1024, i_aes_key ino,
      header_hash (recs ! k), b'\<lparr>be_srv := s2\<rparr>)" and s2: "inv s2" "lookup s2 = lookup (be_srv b')" by auto
  let ?b2 = "b'\<lparr>be_srv := s2\<rparr>"
  have st2: "inv (be_srv ?b2)" "\<forall>p \<in> set recs. lookup (be_srv ?b2) dc (header_hash p) = Some (ser_pdu (cdc E) p) \<and>
      rvalid (header_hash p) (ser_pdu (cdc E) p)"
    using s2 st1(2) rv by simp_all
  obtain ino2 where ino2: "Inode dc (header_hash (last recs)) (header_hash (recs ! k)) kb 512 (of_nat k * 16 * 1024) (i_aes_key ino) = Ret ino2"
    using inode_okD(1) [OF ok(1)] bs(1) by (simp add: Inode_def Let_def)
  have bs2: "BlockSize ino2 = BlockSize ino"
    using arg_cong [OF Inode_ok(4) [OF ino2 inode_okD(2) [OF ok(1)]], of BlockSize] bs(1) by (simp add: BlockSize_def)
  let ?ps = "map (\<lambda>i. take (BlockSize ino) (the (dcache_blocks ino ! i))) [0..<k]"
  have blk: "length (take (BlockSize ino) (the (dcache_blocks ino ! i))) = BlockSize ino" if i: "i < k" for i
  proof -
    obtain blk where "dcache_blocks ino ! i = Some blk" "length blk = BlockSize ino + 16"
      using cached_block [OF ok(1)] ca [OF i] by metis
    then show ?thesis by simp
  qed
  have I2: "rd.intact E ?b2 ino2"
    and v: "rd.block_view E ?b2 ino2 i = Some (if i < length ?cs then ?ps ! i else replicate (BlockSize ino2) NUL)" for i
    using reopen_view [OF E dc(1) inode_okD(2) [OF ok(1)] _ _ recs st2, of "header_hash (last recs)" kb "of_nat k * 16 * 1024" ino2 ?ps]
      k(2,3) ino2 bs bs2 c blk nz by simp_all
  have "rd.file_byte E ?b2 ino2 q = rd.file_byte E b ino q" if q: "q < k * BlockSize ino" for q
  proof -
    have i: "q div BlockSize ino < k" using q by (simp add: less_mult_imp_div_less)
    obtain blk where "dcache_blocks ino ! (q div BlockSize ino) = Some blk"
      using cached_block [OF ok(1)] ca [OF i] by metis
    then show ?thesis
      using v [of "q div BlockSize ino"] i ca [OF i] by (simp add: rd.file_byte_def bs2 rd.block_view_def)
  qed
  then show thesis using that [OF b'(1-3) meta1 ino2 I2 bs2] by blast
qed

end

section \<open>Properties\<close>

text \<open>
  C8. Flushing a new file and opening it again. If the blocks \<open>0, ..., k - 1\<close> of a new file are
  dirty, \<open>FlushCache\<close> succeeds and empties the cache; afterwards \<open>ReadFileMeta\<close> returns the
  file's key and a size of \<open>k\<close> times 16 KiB, and an inode built from what it returns shows,
  after decryption, the same bytes in all \<open>k\<close> blocks. This needs the names of the records to be
  distinct and none of the data records' names to start with a zero byte.
\<close>

theorem flush_then_reopen:
  assumes "env_ok E" and "keys_ok E b" and "sim.rd.intact E b ino"
    and "length dc = 32" and "i_hashname ino = dc" and "sim_known (be_srv b) dc" and "mid_index (be_mid b) dc = Some []"
    and "i_ino_recordname ino = []"
    and "\<forall>i. is_dirty ino i \<longleftrightarrow> i < k" and "0 < k" and "k \<le> 512"
    and "i_block_size ino = kb * 1024" and "BlockSize ino + 16 < 2 ^ 29"
    and "recs = batch_records E (mid_tick (be_mid b)) dc dc dc []
      (sealed_key E (symmetric_middleware_key (be_mid b)) (i_aes_key ino)) (map (cipher E ino) [0..<k])"
    and "distinct (map header_hash recs)" and "\<forall>i < k. hd (header_hash (recs ! i)) \<noteq> NUL"
  shows "\<exists>b' ino2 latest bm_name. FlushCache E sim_server ino b = Ret (NO_ERR, drop_caches ino, b') \<and>
    ReadFileMeta E sim_server b' dc = Ret (NO_ERR, latest, of_nat k * 16 * 1024, i_aes_key ino, bm_name, b') \<and>
    Inode dc latest bm_name kb 512 (of_nat k * 16 * 1024) (i_aes_key ino) = Ret ino2 \<and> sim.rd.intact E b' ino2 \<and>
    (\<forall>q < k * BlockSize ino. sim.rd.file_byte E b' ino2 q = sim.rd.file_byte E b ino q)"
proof -
  have w: "sim.writable E (be_srv b) recs" by (rule sim_writable [OF env_okD(2) [OF assms(1)] assms(15,14)])
  have ne: "\<forall>p \<in> set recs. header_hash p \<noteq> []"
    using batch_name_nonempty [OF env_okD(2) [OF assms(1)]] assms(14) by blast
  obtain b' s2 ino2 where f: "FlushCache E sim_server ino b = Ret (NO_ERR, drop_caches ino, b')"
    "ReadFileMeta E sim_server b' dc = Ret (NO_ERR, header_hash (last recs), of_nat k * 16 * 1024, i_aes_key ino,
      header_hash (recs ! k), b'\<lparr>be_srv := s2\<rparr>)"
    "Inode dc (header_hash (last recs)) (header_hash (recs ! k)) kb 512 (of_nat k * 16 * 1024) (i_aes_key ino) = Ret ino2"
    "sim.rd.intact E (b'\<lparr>be_srv := s2\<rparr>) ino2"
    "\<forall>q < k * BlockSize ino. sim.rd.file_byte E (b'\<lparr>be_srv := s2\<rparr>) ino2 q = sim.rd.file_byte E b ino q"
    by (rule sim.flush_reopen [OF assms(1-14) w ne assms(16)])
  have "b'\<lparr>be_srv := s2\<rparr> = b'" by (rule sim_ReadFileMeta_keeps [OF f(2)])
  with f show ?thesis by auto
qed

text \<open>A small file of one block in the concrete environment.\<close>

lemma sample_names_nonzero: "hd (header_hash (record_pdu sample_env n t hs pl)) \<noteq> NUL"
  by (simp add: record_pdu_name digest_def sample_env_def sample_openssl_def sample_digest_def)

lemma sample_batch_nonzero:
  assumes "i < length bs + 2"
  shows "hd (header_hash (batch_records sample_env n link f1 f2 old sealed bs ! i)) \<noteq> NUL"
  using batch_records_shape [OF assms, of sample_env n link f1 f2 old sealed] sample_names_nonzero by metis

lemma sample_written_file:
  obtains s ino where "sim.rd.intact sample_env (sample_backend s) ino" and "sim_known s sample_dc"
    and "meta ino = (meta sample_inode)\<lparr>i_size := 5\<rparr>" and "\<forall>i. is_dirty ino i \<longleftrightarrow> i < 1"
    and "\<forall>q < 5. sim.rd.file_byte sample_env (sample_backend s) ino q = ''hello'' ! q"
proof -
  obtain s where s: "sim_healthy s" "sim_known s sample_dc" by (rule sample_known)
  let ?b = "sample_backend s"
  have I: "sim.rd.intact sample_env ?b sample_inode"
    using sim.rd.fresh_intact(1) [OF _ sample_inode_fresh] s(1) by (simp add: sample_key_def)
  obtain ino b' where w: "Inode_Write sample_env sim_server sample_inode ?b ''hello'' 0 5 = Ret (NO_ERR, 5, ino, b')"
    "sim.rd.intact sample_env b' ino" "meta ino = (meta sample_inode)\<lparr>i_size := max 0 5\<rparr>"
    "\<forall>q. sim.rd.file_byte sample_env b' ino q = (if q < 5 then ''hello'' ! q else sim.rd.file_byte sample_env ?b sample_inode q)"
    "\<forall>i. is_dirty ino i \<longleftrightarrow> is_dirty sample_inode i \<or> i = 0"
    using sim.rd.inode_write_ok [OF I sample_env_ok, where sz = 5 and offset = 0 and at = 0 and src = "''hello''"]
    by (auto simp: overrun_def)
  have "b' = ?b" by (rule Inode_Write_unsaved [OF fresh_unsaved [OF sample_inode_fresh] w(1)])
  moreover have "\<not> is_dirty sample_inode i" for i by (cases i) (simp_all add: is_dirty_def sample_inode_def cstat_init_def)
  ultimately show thesis using w s(2) that [of s ino] by (simp add: max_def)
qed

theorem flush_then_reopen_witness:
  "\<exists>s ino b' ino2 latest bm_name. FlushCache sample_env sim_server ino (sample_backend s) = Ret (NO_ERR, drop_caches ino, b') \<and>
    ReadFileMeta sample_env sim_server b' sample_dc = Ret (NO_ERR, latest, 16384, sample_key, bm_name, b') \<and>
    Inode sample_dc latest bm_name 1 512 16384 sample_key = Ret ino2 \<and>
    sim.rd.file_byte sample_env b' ino2 4 = CHR ''o''"
proof -
  obtain s ino where f: "sim.rd.intact sample_env (sample_backend s) ino" "sim_known s sample_dc"
    "meta ino = (meta sample_inode)\<lparr>i_size := 5\<rparr>" "\<forall>i. is_dirty ino i \<longleftrightarrow> i < 1"
    "\<forall>q < 5. sim.rd.file_byte sample_env (sample_backend s) ino q = ''hello'' ! q"
    by (rule sample_written_file)
  have m: "meta ino = meta (sample_inode\<lparr>i_size := 5\<rparr>)" using f(3) by simp
  have n: "i_hashname ino = sample_dc" "i_ino_recordname ino = []" "i_block_size ino = 1 * 1024" "i_aes_key ino = sample_key"
    "BlockSize ino = 1024"
    using meta_eqD [OF m] by (simp_all add: sample_inode_def BlockSize_def)
  let ?b = "sample_backend s"
  define recs where "recs = batch_records sample_env (mid_tick (be_mid ?b)) sample_dc sample_dc sample_dc []
      (sealed_key sample_env (symmetric_middleware_key (be_mid ?b)) (i_aes_key ino)) (map (cipher sample_env ino) [0..<1])"
  have dist: "distinct (map header_hash recs)"
    unfolding recs_def by (rule sample_batch_distinct) (simp add: sample_mid_def)
  have nz: "\<forall>i < 1. hd (header_hash (recs ! i)) \<noteq> NUL" unfolding recs_def by (auto intro!: sample_batch_nonzero)
  have d: "length sample_dc = 32" "mid_index (be_mid ?b) sample_dc = Some []" by (simp_all add: sample_dc_def sample_mid_def)
  obtain b' ino2 latest bm_name where "FlushCache sample_env sim_server ino ?b = Ret (NO_ERR, drop_caches ino, b')"
    "ReadFileMeta sample_env sim_server b' sample_dc = Ret (NO_ERR, latest, 16384, sample_key, bm_name, b')"
    "Inode sample_dc latest bm_name 1 512 16384 sample_key = Ret ino2"
    "\<forall>q < 1024. sim.rd.file_byte sample_env b' ino2 q = sim.rd.file_byte sample_env ?b ino q"
    using flush_then_reopen [OF sample_env_ok sample_keys_ok f(1) d(1) n(1) _ d(2) n(2) f(4) _ _ n(3) _ recs_def dist nz] f(2) n(4,5)
    by auto
  moreover have "sim.rd.file_byte sample_env ?b ino 4 = CHR ''o''" using f(5) by (simp add: numeral_eq_Suc)
  ultimately show ?thesis by (metis less_numeral_extra(3) numeral_less_iff semiring_norm(76) semiring_norm(77) semiring_norm(78))
qed

end
