(* ===== verification/Secrecy.thy ===== *)
theory Secrecy
  imports Flush
begin

text \<open>
  What leaves the client in a flush. The notes on cryptographic operations (\<open>src/notes on crypto
  operations.md\<close>) ask that clients encrypt every payload with the key of the file before they pass
  it on, and that the middleware stores this key encrypted. \<open>tapped\<close> is any record server, honest
  or not, with a log of what is read from it and written to it; the log of every flush that returns,
  first or later, successful or not, is shown to hold nothing but sealed records.
\<close>

section \<open>A server with a log\<close>

record 's tap =
  tap_srv :: 's
  tap_reads :: "string list"
  tap_writes :: "(string \<times> string) list"

definition tapped :: "'s dcserver \<Rightarrow> 's tap dcserver" where
  "tapped srv =
     \<lparr>ReadRecord = (\<lambda>t dc r n. bindO (ReadRecord srv (tap_srv t) dc r n) (\<lambda>(rc, d, s').
        Ret (rc, d, t\<lparr>tap_srv := s', tap_reads := tap_reads t @ [d]\<rparr>))),
      WriteRecord = (\<lambda>t dc r d. bindO (WriteRecord srv (tap_srv t) dc r d) (\<lambda>(rc, s').
        Ret (rc, t\<lparr>tap_srv := s', tap_writes := tap_writes t @ [(r, d)]\<rparr>)))\<rparr>"

text \<open>The names a record mentions: its links, and its payload as a list of names.\<close>

definition names_of :: "env \<Rightarrow> string \<Rightarrow> string set" where
  "names_of E d =
     (let p = parse_pdu (cdc E) d in
      set (prevhash (header p)) \<union> (case split_hashes (payload_in_transit p) of Ret hs \<Rightarrow> set hs | Fault e \<Rightarrow> {}))"

text \<open>Names that carry no secret: the given ones, those of records in the log, and those the server sent.\<close>

definition public :: "env \<Rightarrow> string set \<Rightarrow> 's tap \<Rightarrow> string set" where
  "public E A t = A \<union> fst ` set (tap_writes t) \<union> (\<Union>d \<in> set (tap_reads t). names_of E d)"

text \<open>
  A sealed record: its links are public, and its payload is one of the ciphertexts \<open>cs\<close>, a list of
  public names, or a size and a key encrypted under the key \<open>mkey\<close> of the middleware.
\<close>

definition sealed_payload :: "env \<Rightarrow> string \<Rightarrow> string list \<Rightarrow> string set \<Rightarrow> record_type \<Rightarrow> string \<Rightarrow> bool" where
  "sealed_payload E mkey cs P ty pl \<longleftrightarrow>
     (ty = DATABLOCK \<and> pl \<in> set cs) \<or> (ty = BLOCKMAP \<and> (\<exists>hs. pl = concat hs \<and> set hs \<subseteq> P)) \<or>
     (ty = INODE \<and> (\<exists>sz k. pl = u64_bytes sz @ sealed_key E mkey k))"

definition sealed_write :: "env \<Rightarrow> string \<Rightarrow> string list \<Rightarrow> string set \<Rightarrow> string \<times> string \<Rightarrow> bool" where
  "sealed_write E mkey cs P w \<longleftrightarrow>
     (\<exists>n ty links pl. let p = record_pdu E n ty links pl in
        w = (header_hash p, ser_pdu (cdc E) p) \<and> set links \<subseteq> P \<and> sealed_payload E mkey cs P ty pl)"

definition sealed_log :: "env \<Rightarrow> string \<Rightarrow> string list \<Rightarrow> string set \<Rightarrow> 's tap \<Rightarrow> bool" where
  "sealed_log E mkey cs A t \<longleftrightarrow> (\<forall>w \<in> set (tap_writes t). sealed_write E mkey cs (public E A t) w)"

lemma sealed_payload_mono: "P \<subseteq> Q \<Longrightarrow> sealed_payload E mkey cs P ty pl \<Longrightarrow> sealed_payload E mkey cs Q ty pl"
  unfolding sealed_payload_def by blast

lemma sealed_write_mono: "P \<subseteq> Q \<Longrightarrow> sealed_write E mkey cs P w \<Longrightarrow> sealed_write E mkey cs Q w"
  unfolding sealed_write_def Let_def using sealed_payload_mono order_trans by blast

text \<open>The log grows: what is sealed stays so.\<close>

definition grown :: "env \<Rightarrow> string \<Rightarrow> string list \<Rightarrow> string set \<Rightarrow> 's tap \<Rightarrow> 's tap \<Rightarrow> bool" where
  "grown E mkey cs A t t' \<longleftrightarrow> public E A t \<subseteq> public E A t' \<and> (sealed_log E mkey cs A t \<longrightarrow> sealed_log E mkey cs A t')"

lemma grown_refl: "grown E mkey cs A t t"
  by (simp add: grown_def)

lemma grown_trans [trans]: "grown E mkey cs A t t1 \<Longrightarrow> grown E mkey cs A t1 t2 \<Longrightarrow> grown E mkey cs A t t2"
  by (auto simp: grown_def)

lemma grown_public: "grown E mkey cs A t t' \<Longrightarrow> h \<in> public E A t \<Longrightarrow> h \<in> public E A t'"
  by (auto simp: grown_def)

lemma tapped_read:
  assumes "ReadRecord (tapped srv) t dc r n = Ret (rc, d, t')"
  shows "grown E mkey cs A t t'" and "names_of E d \<subseteq> public E A t'"
proof -
  have t': "tap_reads t' = tap_reads t @ [d]" "tap_writes t' = tap_writes t"
    using assms by (auto simp: tapped_def elim!: bindO_RetE)
  then have P: "public E A t' = public E A t \<union> names_of E d" by (auto simp: public_def)
  then show "names_of E d \<subseteq> public E A t'" by simp
  show "grown E mkey cs A t t'"
    using t'(2) P sealed_write_mono [of "public E A t" "public E A t'"] by (auto simp: grown_def sealed_log_def)
qed

lemma tapped_write:
  assumes "WriteRecord (tapped srv) t dc (header_hash p) (ser_pdu (cdc E) p) = Ret (rc, t')"
    and "p = record_pdu E n ty links pl" and "set links \<subseteq> public E A t" and "sealed_payload E mkey cs (public E A t) ty pl"
  shows "grown E mkey cs A t t'" and "header_hash p \<in> public E A t'"
proof -
  let ?w = "(header_hash p, ser_pdu (cdc E) p)"
  have t': "tap_reads t' = tap_reads t" "tap_writes t' = tap_writes t @ [?w]"
    using assms(1) by (auto simp: tapped_def elim!: bindO_RetE)
  then have P: "public E A t' = insert (header_hash p) (public E A t)" by (auto simp: public_def)
  then show "header_hash p \<in> public E A t'" by simp
  have "sealed_write E mkey cs (public E A t) ?w"
    using assms(2-4) unfolding sealed_write_def Let_def by blast
  moreover have sub: "public E A t \<subseteq> public E A t'" using P by auto
  ultimately show "grown E mkey cs A t t'"
    using t'(2) sealed_write_mono [OF sub] by (auto simp: grown_def sealed_log_def)
qed

section \<open>The loops of a batch\<close>

lemma split_hashes_length: "split_hashes s = Ret hs \<Longrightarrow> h \<in> set hs \<Longrightarrow> length h = 32"
proof (induction s arbitrary: hs rule: split_hashes.induct)
  case (1 s)
  show ?case
  proof (cases "s = []")
    case False
    with "1.prems"(1) obtain x xs where x: "cread (c_str s) 0 32 = Ret x" "split_hashes (drop 32 s) = Ret xs" "hs = x # xs"
      by (subst (asm) split_hashes.simps) (auto elim!: bindO_RetE)
    then have "length x = 32" by (auto simp: cread_def split: if_splits)
    with "1.IH" [OF False x(1,2)] x(3) "1.prems"(2) show ?thesis by auto
  qed (use 1 in \<open>simp add: split_hashes.simps\<close>)
qed

lemma Modify_place_set: "Modify_place sz hs blocks = Ret hs' \<Longrightarrow> set hs' \<subseteq> set hs \<union> snd ` set blocks"
proof (induction sz hs blocks rule: Modify_place.induct)
  case (2 sz hashes off name blocks)
  show ?case
  proof (cases "off < sz")
    case True
    with "2.prems" obtain hs where hs: "vec_set hashes (unat (off div of_nat (16 * 1024))) name = Ret hs"
      "Modify_place sz hs blocks = Ret hs'" by (auto elim!: bindO_RetE)
    then have "set hs \<subseteq> insert name (set hashes)"
      using set_update_subset_insert by (fastforce simp: vec_set_def split: if_splits)
    with "2.IH"(1) [OF True hs] show ?thesis by auto
  next
    case False
    with 2 show ?thesis by auto
  qed
qed simp

lemma push_data_sealed:
  assumes "sha_ok (ossl E)" and "dc \<in> A" and "latest = [] \<or> latest \<in> public E A t" and "prev = [] \<or> prev \<in> public E A t"
    and "list_all2 (\<lambda>d b. desc_bytes d = Ret b) ds bs" and "set bs \<subseteq> set cs"
    and "Modify_push_data E (tapped srv) dc latest n prev t ds = Ret (rc, blocks, n', t')"
  shows "grown E mkey cs A t t' \<and> (\<forall>h \<in> snd ` set blocks. h \<in> public E A t' \<and> length h = 32)"
  using assms(3-)
proof (induction ds arbitrary: bs n prev t blocks)
  case Nil
  then show ?case by (simp add: grown_refl)
next
  case (Cons d ds)
  let ?link = "if prev = [] then if latest \<noteq> [] then latest else dc else prev"
  from Cons.prems(3) obtain b bs' where b: "desc_bytes d = Ret b" "bs = b # bs'"
    "list_all2 (\<lambda>d b. desc_bytes d = Ret b) ds bs'" by (auto simp: list_all2_Cons1)
  define p where "p = record_pdu E n DATABLOCK [?link] b"
  note eq = composeRecord_eq [OF assms(1) b(1), of n DATABLOCK "[?link]", folded p_def]
  have A: "A \<subseteq> public E A t" by (auto simp: public_def)
  from Cons.prems(5) obtain r t1 where w: "WriteRecord (tapped srv) t dc (header_hash p) (ser_pdu (cdc E) p) = Ret (r, t1)"
    and rest: "(if r < 0 then Ret (r, [], Suc n, t1)
        else bindO (Modify_push_data E (tapped srv) dc latest (Suc n) (header_hash p) t1 ds) (\<lambda>(ret, blocks, n', s2).
          Ret (ret, (file_offset d, header_hash p) # blocks, n', s2))) = Ret (rc, blocks, n', t')"
    unfolding Modify_push_data.simps Let_def eq by (auto elim!: bindO_RetE)
  have "set [?link] \<subseteq> public E A t" using Cons.prems(1,2) assms(2) A by auto
  moreover have "sealed_payload E mkey cs (public E A t) DATABLOCK b"
    using Cons.prems(4) b(2) by (simp add: sealed_payload_def)
  ultimately have g: "grown E mkey cs A t t1" "header_hash p \<in> public E A t1"
    using tapped_write [OF w p_def] by blast+
  show ?case
  proof (cases "r < 0")
    case True
    then show ?thesis using rest g(1) by simp
  next
    case False
    with rest obtain bl where m: "Modify_push_data E (tapped srv) dc latest (Suc n) (header_hash p) t1 ds = Ret (rc, bl, n', t')"
      and bl: "blocks = (file_offset d, header_hash p) # bl" by (auto elim!: bindO_RetE)
    have "grown E mkey cs A t1 t' \<and> (\<forall>h \<in> snd ` set bl. h \<in> public E A t' \<and> length h = 32)"
      by (rule Cons.IH [OF _ _ b(3) _ m]) (use Cons.prems(1,4) b(2) g grown_public [OF g(1)] in auto)
    with g bl grown_trans [OF g(1)] grown_public length_record_name [OF assms(1)] show ?thesis
      by (fastforce simp: p_def)
  qed
qed

lemma push_blockmap_sealed:
  assumes "sha_ok (ossl E)" and "dc \<in> A" and "blockmap_hash ino = [] \<or> blockmap_hash ino \<in> public E A t"
    and "\<forall>h \<in> set (data_hashes bm) \<union> snd ` set blocks. h \<in> public E A t \<and> length h = 32"
    and "Modify_push_blockmap E (tapped srv) dc n t ino bm blocks = Ret (rc, name, t')"
  shows "grown E mkey cs A t t' \<and> (0 \<le> rc \<longrightarrow> name \<in> public E A t')"
proof -
  let ?first = "if blockmap_hash ino \<noteq> [] then blockmap_hash ino else dc"
  from assms(5) obtain hashes where ne: "blocks \<noteq> []" and pl: "Modify_place (isize ino) (data_hashes bm) blocks = Ret hashes"
    unfolding Modify_push_blockmap_def by (auto simp: outcome_simps Let_def)
  have hs: "\<forall>h \<in> set hashes. h \<in> public E A t \<and> length h = 32"
    using Modify_place_set [OF pl] assms(4) by blast
  let ?pl = "concat hashes"
  define p where "p = record_pdu E n BLOCKMAP [?first, snd (last blocks)] ?pl"
  have len: "length hashes * 32 = length ?pl" using length_concat_hashes [of hashes] hs by simp
  from assms(5) obtain r where w: "WriteRecord (tapped srv) t dc (header_hash p) (ser_pdu (cdc E) p) = Ret (r, t')"
    and name: "name = (if r < 0 then [] else header_hash p)" and rc: "rc = (if r < 0 then r else 0)"
    unfolding Modify_push_blockmap_def Let_def pl using ne read_hash_names [of hashes] hs
    by (auto simp: len desc_bytes_whole composeRecord_eq [OF assms(1) desc_bytes_whole] p_def [symmetric] split: if_splits elim!: bindO_RetE)
  have "snd (last blocks) \<in> public E A t" using ne assms(4) by auto
  then have "set [?first, snd (last blocks)] \<subseteq> public E A t" using assms(2,3) by (auto simp: public_def)
  moreover have "sealed_payload E mkey cs (public E A t) BLOCKMAP ?pl"
    using hs by (auto simp: sealed_payload_def)
  ultimately have "grown E mkey cs A t t'" "header_hash p \<in> public E A t'"
    using tapped_write [OF w p_def] by blast+
  with name rc show ?thesis by auto
qed

lemma push_inode_sealed:
  assumes "sha_ok (ossl E)" and "dc \<in> A" and "latest = [] \<or> latest \<in> A" and "bm_name \<in> public E A t"
    and "Modify_push_inode E (tapped srv) m dc n t ino latest bm_name k = Ret (rc, name, t')"
  shows "grown E (symmetric_middleware_key m) cs A t t'"
proof -
  define link where "link = (if latest \<noteq> [] then latest else dc)"
  define sz :: u64 where "sz = (if isize ino \<le> of_nat k * 16 * 1024 then of_nat k * 16 * 1024 else isize ino)"
  let ?c = "sealed_key E (symmetric_middleware_key m) (ino_key ino)"
  define p where "p = record_pdu E n INODE [link, bm_name] (u64_bytes sz @ ?c)"
  note M = assms(5) [unfolded Modify_push_inode_def Let_def, folded link_def sz_def]
  have c: "snd (encrypt_symmetric (ossl E) (symmetric_middleware_key m) None (ino_key ino)) = Some ?c" "length ?c = 32"
    using M by (auto simp: outcome_simps sealed_key_def deref_def split: option.splits)
  have d: "desc_bytes \<lparr>buf = u64_bytes sz @ ?c, desc_size = 40, file_offset = 0\<rparr> = Ret (u64_bytes sz @ ?c)"
    using desc_bytes_whole [of "u64_bytes sz @ ?c" 0] c(2) by simp
  obtain r where w: "WriteRecord (tapped srv) t dc (header_hash p) (ser_pdu (cdc E) p) = Ret (r, t')"
    using M unfolding c(1)
    by (auto simp: c(2) composeRecord_eq [OF assms(1) d] p_def [symmetric] deref_def validO_def assertO_def split: if_splits elim!: bindO_RetE)
  have "set [link, bm_name] \<subseteq> public E A t" using assms(2-4) by (auto simp: public_def link_def)
  moreover have "sealed_payload E (symmetric_middleware_key m) cs (public E A t) INODE (u64_bytes sz @ ?c)"
    by (auto simp: sealed_payload_def)
  ultimately show ?thesis using tapped_write(1) [OF w p_def] by blast
qed

lemma vec_at_set: "vec_at xs i = Ret x \<Longrightarrow> x \<in> set xs"
  by (auto simp: vec_at_def split: if_splits)

lemma Modify_load_sealed:
  assumes "Modify_load E (tapped srv) t dc latest key = Ret (rc, ino, bm, t')"
  shows "grown E mkey cs A t t' \<and> (blockmap_hash ino = [] \<or> blockmap_hash ino \<in> public E A t') \<and>
    (hash_to_latest_data_block bm = [] \<or> hash_to_latest_data_block bm \<in> public E A t') \<and>
    (\<forall>h \<in> set (data_hashes bm). h \<in> public E A t' \<and> length h = 32)"
proof (cases "latest = []")
  case True
  with assms show ?thesis by (auto simp: Modify_load_def grown_refl elim!: bindO_RetE)
next
  case False
  with assms obtain r1 d1 t1 where r1: "ReadRecord (tapped srv) t dc latest 1024 = Ret (r1, d1, t1)"
    by (auto simp: Modify_load_def Let_def elim!: bindO_RetE)
  note g1 = tapped_read [OF r1]
  show ?thesis
  proof (cases "r1 < 0")
    case True
    with assms False r1 g1(1) show ?thesis by (auto simp: Modify_load_def)
  next
    case nonneg: False
    with assms False r1 obtain bmh k where bmh: "vec_at (prevhash (header (parse_pdu (cdc E) d1))) 1 = Ret bmh"
      and k: "cread (c_str (payload_in_transit (parse_pdu (cdc E) d1))) 8 16 = Ret k"
      by (auto simp: Modify_load_def Let_def elim!: bindO_RetE)
    with assms False r1 nonneg obtain r2 d2 t2 where r2: "ReadRecord (tapped srv) t1 dc bmh (1024 + 32 * 512) = Ret (r2, d2, t2)"
      by (auto simp: Modify_load_def Let_def elim!: bindO_RetE)
    note g2 = tapped_read [OF r2] and g = grown_trans [OF g1(1) tapped_read(1) [OF r2]]
    have b: "bmh \<in> public E A t1" using vec_at_set [OF bmh] g1(2) by (auto simp: names_of_def Let_def)
    have b: "bmh \<in> public E A t2" using grown_public [OF g2(1) b] .
    show ?thesis
    proof (cases "r2 < 0")
      case True
      with assms False nonneg r1 r2 bmh k b g show ?thesis by (auto simp: Modify_load_def Let_def)
    next
      case nonneg2: False
      with assms False nonneg r1 r2 bmh k obtain lat hs where
        lat: "vec_at (prevhash (header (parse_pdu (cdc E) d2))) 1 = Ret lat"
        and hs: "split_hashes (payload_in_transit (parse_pdu (cdc E) d2)) = Ret hs"
        and eq: "t' = t2" "blockmap_hash ino = bmh" "bm = \<lparr>data_hashes = hs, hash_to_latest_data_block = lat\<rparr>"
        by (auto simp: Modify_load_def Let_def elim!: bindO_RetE)
      have "lat \<in> public E A t2" "\<forall>h \<in> set hs. h \<in> public E A t2"
        using vec_at_set [OF lat] hs g2(2) [of E A] by (auto simp: names_of_def Let_def)
      with eq b g split_hashes_length [OF hs] show ?thesis by auto
    qed
  qed
qed

lemma Modify_write_sealed:
  assumes "sha_ok (ossl E)" and "dc \<in> A" and "latest = [] \<or> latest \<in> A"
    and "blockmap_hash ino = [] \<or> blockmap_hash ino \<in> public E A t"
    and "hash_to_latest_data_block bm = [] \<or> hash_to_latest_data_block bm \<in> public E A t"
    and "\<forall>h \<in> set (data_hashes bm). h \<in> public E A t \<and> length h = 32"
    and "list_all2 (\<lambda>d b. desc_bytes d = Ret b) descs bs" and "set bs \<subseteq> set cs"
    and "Modify_write E (tapped srv) m t dc latest descs ino bm = Ret (rc, m', t')"
  shows "grown E (symmetric_middleware_key m) cs A t t'"
proof -
  let ?G = "grown E (symmetric_middleware_key m) cs A"
  note M = assms(9) [unfolded Modify_write_def]
  obtain r1 blocks n t1 where d: "Modify_push_data E (tapped srv) dc (hash_to_latest_data_block bm) (mid_tick m) [] t descs = Ret (r1, blocks, n, t1)"
    using M by (auto elim!: bindO_RetE)
  have g1: "?G t t1" "\<forall>h \<in> snd ` set blocks. h \<in> public E A t1 \<and> length h = 32"
    using push_data_sealed [OF assms(1,2,5) _ assms(7,8) d] by simp_all
  show ?thesis
  proof (cases "r1 < 0")
    case True
    with M d g1(1) show ?thesis by simp
  next
    case ok1: False
    with M d obtain r2 bm_name t2 where b: "Modify_push_blockmap E (tapped srv) dc n t1 ino bm blocks = Ret (r2, bm_name, t2)"
      by (auto elim!: bindO_RetE)
    have "?G t1 t2 \<and> (0 \<le> r2 \<longrightarrow> bm_name \<in> public E A t2)"
      by (rule push_blockmap_sealed [OF assms(1,2) _ _ b]) (use assms(4,6) g1 grown_public [OF g1(1)] in auto)
    then have g2: "?G t t2" "0 \<le> r2 \<longrightarrow> bm_name \<in> public E A t2" using grown_trans [OF g1(1)] by simp_all
    show ?thesis
    proof (cases "r2 < 0")
      case True
      with M d ok1 b g2(1) show ?thesis by simp
    next
      case ok2: False
      with M d ok1 b obtain r3 name where i: "Modify_push_inode E (tapped srv) m dc (Suc n) t2 ino latest bm_name (length descs) = Ret (r3, name, t')"
        by (auto split: if_splits elim!: bindO_RetE)
      have "?G t2 t'" by (rule push_inode_sealed [OF assms(1-3) _ i]) (use g2(2) ok2 in simp)
      with g2(1) show ?thesis by (rule grown_trans)
    qed
  qed
qed

lemma Modify_sealed:
  assumes "sha_ok (ossl E)" and "list_all2 (\<lambda>d b. desc_bytes d = Ret b) descs bs" and "set bs \<subseteq> set cs"
    and "A = {dc, case mid_index m dc of None \<Rightarrow> [] | Some l \<Rightarrow> l}"
    and "Modify E (tapped srv) m t dc descs ih key sig = Ret (rc, m', t')"
  shows "grown E (symmetric_middleware_key m) cs A t t'"
proof -
  let ?latest = "case mid_index m dc of None \<Rightarrow> [] | Some l \<Rightarrow> l"
  let ?m1 = "m\<lparr>mid_index := (mid_index m)(dc \<mapsto> ?latest)\<rparr>"
  from assms(5) consider "t' = t"
    | r ino bm t1 where "Modify_load E (tapped srv) t dc ?latest key = Ret (r, ino, bm, t1)"
      "t' = t1 \<or> Modify_write E (tapped srv) ?m1 t1 dc ?latest descs ino bm = Ret (rc, m', t')"
    unfolding Modify_def Let_def by (elim bindO_RetE) (auto split: if_splits elim!: bindO_RetE)
  then show ?thesis
  proof cases
    case (2 r ino bm t1)
    note l = Modify_load_sealed [OF 2(1), of "symmetric_middleware_key m" cs A]
    from 2(2) show ?thesis
    proof
      assume w: "Modify_write E (tapped srv) ?m1 t1 dc ?latest descs ino bm = Ret (rc, m', t')"
      have "grown E (symmetric_middleware_key ?m1) cs A t1 t'"
        by (rule Modify_write_sealed [OF assms(1) _ _ _ _ _ assms(2,3) w]) (use l assms(4) in auto)
      with l grown_trans show ?thesis by auto
    qed (use l in simp)
  qed (simp add: grown_refl)
qed

section \<open>The log keeps the contract\<close>

text \<open>A record store with a log is a record store of what was written since the log was started.\<close>

context record_store
begin

definition tap_lookup :: "'s tap \<Rightarrow> string \<Rightarrow> string \<Rightarrow> string option" where
  "tap_lookup t c r = (if r \<in> fst ` set (tap_writes t) then lookup (tap_srv t) c r else None)"

lemma tapped_store:
  "record_store (tapped srv) (\<lambda>t. inv (tap_srv t)) tap_lookup (\<lambda>t. known (tap_srv t)) (\<lambda>t. fresh (tap_srv t)) wvalid rvalid"
proof
  fix t :: "'s tap" and dc rec d
  assume "inv (tap_srv t)" "known (tap_srv t) dc \<or> dc = rec" "fresh (tap_srv t) rec" "wvalid rec d"
  from write_stores [OF this] obtain s' where "WriteRecord srv (tap_srv t) dc rec d = Ret (NO_ERR, s')" "inv s'" "known s' dc"
    "lookup s' dc rec = Some d" "\<forall>c. known (tap_srv t) c \<longrightarrow> known s' c"
    "\<forall>c r. r \<noteq> rec \<longrightarrow> lookup s' c r = lookup (tap_srv t) c r" "\<forall>r. r \<noteq> rec \<longrightarrow> fresh (tap_srv t) r \<longrightarrow> fresh s' r"
    by blast
  then show "\<exists>t'. WriteRecord (tapped srv) t dc rec d = Ret (NO_ERR, t') \<and> inv (tap_srv t') \<and> known (tap_srv t') dc \<and>
      tap_lookup t' dc rec = Some d \<and> (\<forall>c. known (tap_srv t) c \<longrightarrow> known (tap_srv t') c) \<and>
      (\<forall>c r. r \<noteq> rec \<longrightarrow> tap_lookup t' c r = tap_lookup t c r) \<and> (\<forall>r. r \<noteq> rec \<longrightarrow> fresh (tap_srv t) r \<longrightarrow> fresh (tap_srv t') r)"
    by (simp add: tapped_def tap_lookup_def)
next
  fix t :: "'s tap" and dc rec d n
  assume a: "inv (tap_srv t)" "tap_lookup t dc rec = Some d" "rvalid rec d" "length d \<le> n"
  then have "lookup (tap_srv t) dc rec = Some d" by (simp add: tap_lookup_def split: if_splits)
  from read_returns [OF a(1) this a(3,4)] obtain s' where "ReadRecord srv (tap_srv t) dc rec n = Ret (NO_ERR, d, s')" "inv s'"
    "lookup s' = lookup (tap_srv t)" "known s' = known (tap_srv t)" "fresh s' = fresh (tap_srv t)" by blast
  then show "\<exists>t'. ReadRecord (tapped srv) t dc rec n = Ret (NO_ERR, d, t') \<and> inv (tap_srv t') \<and>
      tap_lookup t' = tap_lookup t \<and> known (tap_srv t') = known (tap_srv t) \<and> fresh (tap_srv t') = fresh (tap_srv t)"
    by (simp add: tapped_def tap_lookup_def fun_eq_iff)
qed

end

interpretation tap: record_store "tapped sim_server" "\<lambda>t. sim_healthy (tap_srv t)" sim.tap_lookup "\<lambda>t. sim_known (tap_srv t)"
  "\<lambda>t r. r \<noteq> []" "\<lambda>r d. True" "\<lambda>r d. r \<noteq> []"
  by (rule sim.tapped_store)

section \<open>Properties\<close>

text \<open>
  C12. Nothing leaves the client in the clear, over every record server, honest or not: whatever a flush
  of an open file writes, on its error paths and on later flushes too, is a record whose links are
  public names (of the capsule, of its latest inode record, of records written before or sent by the
  server) and whose payload is a dirty block encrypted with the file's key, a list of public names, or
  a size and a key encrypted under the middleware's key. No record carries a signature: the place for
  it holds the string \<open>0\<close>.
\<close>

theorem flush_leaks_nothing:
  assumes "env_ok E" and "inode_ok ino" and "tap_writes (be_srv b) = []"
    and "FlushCache E (tapped srv) ino b = Ret (rc, ino', b')" and "w \<in> set (tap_writes (be_srv b'))"
    and "latest = (case mid_index (be_mid b) (i_hashname ino) of None \<Rightarrow> [] | Some l \<Rightarrow> l)"
    and "P = public E {i_hashname ino, latest} (be_srv b')"
  shows "\<exists>p n ty links pl. w = (header_hash p, ser_pdu (cdc E) p) \<and> p = record_pdu E n ty links pl \<and> signature p = ''0'' \<and>
    set links \<subseteq> P \<and> sealed_payload E (symmetric_middleware_key (be_mid b)) (map (cipher E ino) (dirty_blocks ino)) P ty pl"
proof -
  let ?A = "{i_hashname ino, latest}" and ?cs = "map (cipher E ino) (dirty_blocks ino)"
  let ?G = "grown E (symmetric_middleware_key (be_mid b)) ?cs ?A (be_srv b)"
  obtain fr descs where fd: "flush_descs E ino [0..<length (dcache_stats ino)] = Ret (fr, descs)"
    using assms(4) by (auto simp: FlushCache_def elim!: bindO_RetE)
  have "\<not> fr < 0" using assms(3-5) fd by (auto simp: FlushCache_def)
  with flush_descs_returned [OF assms(2) fd] have f: "list_all2 (\<lambda>d c. desc_bytes d = Ret c) descs ?cs"
    by (simp add: dirty_blocks_def)
  obtain r where "StorageBackend_WriteRecord E (tapped srv) b (i_hashname ino) descs (i_ino_recordname ino) (i_aes_key ino) = Ret (r, b')"
    using assms(4) fd \<open>\<not> fr < 0\<close> by (auto simp: FlushCache_def split: if_splits elim!: bindO_RetE)
  then consider "b' = b" | sg m' where "Modify E (tapped srv) (be_mid b) (be_srv b) (i_hashname ino) descs (i_ino_recordname ino)
      (i_aes_key ino) sg = Ret (r, m', be_srv b')"
    unfolding StorageBackend_WriteRecord_def by (auto split: if_splits option.splits elim!: bindO_RetE)
  then have "?G (be_srv b')"
  proof cases
    case 2
    show ?thesis by (rule Modify_sealed [OF env_okD(2) [OF assms(1)] f _ _ 2]) (simp_all add: assms(6))
  qed (simp add: grown_refl)
  moreover have "sealed_log E (symmetric_middleware_key (be_mid b)) ?cs ?A (be_srv b)"
    by (simp add: sealed_log_def assms(3))
  ultimately have "sealed_write E (symmetric_middleware_key (be_mid b)) ?cs P w"
    using assms(5,7) by (auto simp: grown_def sealed_log_def)
  then show ?thesis unfolding sealed_write_def Let_def by (metis record_pdu_simps(5))
qed

theorem flush_leaks_nothing_witness:
  "\<exists>s ino ino' b' w p n ty links pl. let b = \<lparr>be_mid = sample_mid, be_srv = \<lparr>tap_srv = s, tap_reads = [], tap_writes = []\<rparr>, be_client_key_pair = Some ''key''\<rparr> in
     FlushCache sample_env (tapped sim_server) ino b = Ret (NO_ERR, ino', b') \<and> w \<in> set (tap_writes (be_srv b')) \<and>
     w = (header_hash p, ser_pdu sample_codec p) \<and> p = record_pdu sample_env n ty links pl \<and> signature p = ''0'' \<and>
     sealed_payload sample_env (replicate 16 CHR ''M'') [cipher sample_env ino 0] (public sample_env {sample_dc, []} (be_srv b')) ty pl"
proof -
  obtain s ino where f: "sim.rd.intact sample_env (sample_backend s) ino" "sim_known s sample_dc"
    "meta ino = (meta sample_inode)\<lparr>i_size := 5\<rparr>" "\<forall>i. is_dirty ino i \<longleftrightarrow> i < 1"
    "\<forall>q < 5. sim.rd.file_byte sample_env (sample_backend s) ino q = ''hello'' ! q"
    by (rule sample_written_file)
  have m: "meta ino = meta (sample_inode\<lparr>i_size := 5\<rparr>)" using f(3) by simp
  have n: "i_hashname ino = sample_dc" "i_ino_recordname ino = []" "BlockSize ino = 1024"
    using meta_eqD [OF m] by (simp_all add: sample_inode_def BlockSize_def)
  let ?t = "\<lparr>tap_srv = s, tap_reads = [], tap_writes = []\<rparr>"
  let ?b = "\<lparr>be_mid = sample_mid, be_srv = ?t, be_client_key_pair = Some ''key''\<rparr>"
  have ok: "inode_ok ino" "sim_healthy s" using f(1) by (simp_all add: sim.rd.intact_def)
  have db: "dirty_blocks ino = [0]" using dirty_prefix [OF f(4)] by simp
  have K: "keys_ok sample_env ?b" using sample_keys_ok [of s] by (simp add: keys_ok_def)
  define recs where "recs = batch_records sample_env (mid_tick (be_mid ?b)) sample_dc sample_dc sample_dc []
      (sealed_key sample_env (symmetric_middleware_key (be_mid ?b)) (i_aes_key ino)) (map (cipher sample_env ino) (dirty_blocks ino))"
  have dist: "distinct (map header_hash recs)"
    unfolding recs_def by (rule sample_batch_distinct) (simp add: sample_mid_def db)
  have w: "tap.writable sample_env (be_srv ?b) recs"
    using dist batch_name_nonempty [OF env_okD(2) [OF sample_env_ok]] by (auto simp: tap.writable_def recs_def)
  obtain b' where b': "FlushCache sample_env (tapped sim_server) ino ?b = Ret (NO_ERR, drop_caches ino, b')"
    "tap.extends sample_env sample_dc (be_srv ?b) recs (be_srv b')"
    by (rule tap.flush_first [OF sample_env_ok K _ _ _ ok(1) n(1,2) _ _ recs_def w])
       (use ok(2) f(2) n(3) db in \<open>simp_all add: sample_mid_def\<close>)
  have "last recs \<in> set recs" by (simp add: recs_def batch_records_def Let_def)
  with b'(2) have "sim.tap_lookup (be_srv b') sample_dc (header_hash (last recs)) \<noteq> None"
    by (auto simp: tap.extends_def)
  then obtain x where x: "x \<in> set (tap_writes (be_srv b'))"
    by (auto simp: sim.tap_lookup_def split: if_splits)
  have idx: "[] = (case mid_index (be_mid ?b) (i_hashname ino) of None \<Rightarrow> [] | Some l \<Rightarrow> l)"
    using n(1) by (simp add: sample_mid_def)
  have k: "symmetric_middleware_key (be_mid ?b) = replicate 16 CHR ''M''" by (simp add: sample_mid_def)
  obtain p k ty links pl where r: "x = (header_hash p, ser_pdu (cdc sample_env) p)" "p = record_pdu sample_env k ty links pl"
    "signature p = ''0''" "sealed_payload sample_env (replicate 16 CHR ''M'') [cipher sample_env ino 0]
      (public sample_env {sample_dc, []} (be_srv b')) ty pl"
    using flush_leaks_nothing [OF sample_env_ok ok(1) _ b'(1) x idx refl] n(1) db k by auto
  have "x = (header_hash p, ser_pdu sample_codec p)" using r(1) by (simp add: sample_env_def)
  then show ?thesis using b'(1) x r(2-4) unfolding Let_def by (intro exI conjI)
qed

end
