(* ===== verification/Dir.thy ===== *)
theory Dir
  imports Dcfs_Prelude
begin

text \<open>
  The directory of \<open>src/src/fs/dir.hpp\<close> and \<open>dir.cpp\<close>: a vector of entries with one cursor
  that all callers share. The locale \<open>cursor\<close> is what the callers of \<open>InitReaddir\<close> and
  \<open>Readdir\<close> rely on; the two loops the file system writes over it (search for an entry, list
  all entries) are proved once for every such cursor.
\<close>

section \<open>Definitions\<close>

record directory_entry =
  d_filename :: string
  d_hashname :: string

text \<open>\<open>it_\<close> is an iterator of \<open>entries_\<close>: a position, \<open>length entries\<close> being \<open>end()\<close>.\<close>

record directory =
  entries :: "directory_entry list"
  it :: nat

definition Directory :: directory where
  "Directory = \<lparr>entries = [], it = 0\<rparr>"

definition InitReaddir :: "directory \<Rightarrow> directory" where
  "InitReaddir d = d\<lparr>it := 0\<rparr>"

definition Readdir :: "directory \<Rightarrow> (directory_entry option \<times> directory) outcome" where
  "Readdir d =
     (if it d = length (entries d) then Ret (None, d\<lparr>it := 0\<rparr>)
      else bindO (vec_at (entries d) (it d)) (\<lambda>e. Ret (Some e, d\<lparr>it := Suc (it d)\<rparr>)))"

definition Addent :: "directory \<Rightarrow> directory_entry \<Rightarrow> err_t \<times> directory" where
  "Addent d e = (NO_ERR, \<lparr>entries = entries d @ [e], it = 0\<rparr>)"

text \<open>The entries between the cursor and the end.\<close>

definition remaining :: "directory \<Rightarrow> directory_entry list" where
  "remaining d = drop (it d) (entries d)"

definition dir_wf :: "directory \<Rightarrow> bool" where
  "dir_wf d \<longleftrightarrow> it d \<le> length (entries d)"

section \<open>Reading a directory through its cursor\<close>

locale cursor =
  fixes rewind :: "'d \<Rightarrow> 'd"
    and advance :: "'d \<Rightarrow> ('e option \<times> 'd) outcome"
    and wf :: "'d \<Rightarrow> bool"
    and pending :: "'d \<Rightarrow> 'e list"
    and content :: "'d \<Rightarrow> 'e list"
  assumes rewind_all: "wf (rewind d)" "pending (rewind d) = content d" "content (rewind d) = content d"
    and advance_end: "wf d \<Longrightarrow> pending d = [] \<Longrightarrow>
       \<exists>d'. advance d = Ret (None, d') \<and> wf d' \<and> content d' = content d \<and> pending d' = content d"
    and advance_next: "wf d \<Longrightarrow> pending d = e # es \<Longrightarrow>
       \<exists>d'. advance d = Ret (Some e, d') \<and> wf d' \<and> content d' = content d \<and> pending d' = es"
begin

text \<open>
  A loop \<open>while ((ent = advance()))\<close> that stops at the first entry satisfying \<open>p\<close> finds what
  \<open>find\<close> finds among the entries still pending.
\<close>

lemma search_loop:
  assumes loop: "\<And>d. loop d = bindO (advance d) (\<lambda>(r, d').
      case r of None \<Rightarrow> Ret (None, d') | Some e \<Rightarrow> if p e then Ret (Some e, d') else loop d')"
    and "wf d"
  shows "\<exists>d'. loop d = Ret (List.find p (pending d), d') \<and> wf d' \<and> content d' = content d"
  using assms(2)
proof (induction "pending d" arbitrary: d)
  case Nil
  then show ?case using advance_end [of d] by (subst loop) auto
next
  case (Cons e es)
  then obtain d' where a: "advance d = Ret (Some e, d')" "wf d'" "content d' = content d" "pending d' = es"
    using advance_next [of d e es] by auto
  show ?case
  proof (cases "p e")
    case True
    then show ?thesis using a Cons(2) by (subst loop) (simp add: Cons(2) [symmetric])
  next
    case False
    then show ?thesis
      using a Cons.hyps(1) [of d'] by (subst loop) (simp add: Cons(2) [symmetric])
  qed
qed

text \<open>A loop that hands every entry to \<open>f\<close> folds \<open>f\<close> over the pending entries.\<close>

lemma fold_loop:
  assumes loop: "\<And>d x. loop d x = bindO (advance d) (\<lambda>(r, d').
      case r of None \<Rightarrow> Ret (x, d') | Some e \<Rightarrow> loop d' (f e x))"
    and "wf d"
  shows "\<exists>d'. loop d x = Ret (fold f (pending d) x, d') \<and> wf d' \<and> content d' = content d"
  using assms(2)
proof (induction "pending d" arbitrary: d x)
  case Nil
  then show ?case using advance_end [of d] by (subst loop) auto
next
  case (Cons e es)
  then obtain d' where a: "advance d = Ret (Some e, d')" "wf d'" "content d' = content d" "pending d' = es"
    using advance_next [of d e es] by auto
  then show ?case
    using Cons.hyps(1) [of d' "f e x"] by (subst loop) (simp add: Cons(2) [symmetric])
qed

end

lemma Readdir_end: "it d = length (entries d) \<Longrightarrow> Readdir d = Ret (None, d\<lparr>it := 0\<rparr>)"
  by (simp add: Readdir_def)

lemma Readdir_next:
  "remaining d = e # es \<Longrightarrow> Readdir d = Ret (Some e, d\<lparr>it := Suc (it d)\<rparr>) \<and> drop (Suc (it d)) (entries d) = es
     \<and> it d < length (entries d)"
proof -
  assume r: "remaining d = e # es"
  then have "it d < length (entries d)" by (simp add: remaining_def) (metis drop_all leI list.distinct(1))
  moreover from this r have "entries d ! it d = e" "drop (Suc (it d)) (entries d) = es"
    by (simp_all add: remaining_def Cons_nth_drop_Suc [symmetric])
  ultimately show ?thesis by (simp add: Readdir_def vec_at_def)
qed

interpretation dir: cursor InitReaddir Readdir dir_wf remaining entries
proof unfold_locales
  fix d
  show "dir_wf (InitReaddir d)" "remaining (InitReaddir d) = entries d" "entries (InitReaddir d) = entries d"
    by (simp_all add: InitReaddir_def dir_wf_def remaining_def)
next
  fix d assume "dir_wf d" "remaining d = []"
  then have "it d = length (entries d)" by (simp add: dir_wf_def remaining_def)
  then show "\<exists>d'. Readdir d = Ret (None, d') \<and> dir_wf d' \<and> entries d' = entries d \<and> remaining d' = entries d"
    by (simp add: Readdir_end dir_wf_def remaining_def)
next
  fix d e es assume "dir_wf d" "remaining d = e # es"
  then show "\<exists>d'. Readdir d = Ret (Some e, d') \<and> dir_wf d' \<and> entries d' = entries d \<and> remaining d' = es"
    using Readdir_next [of d e es] by (simp add: dir_wf_def remaining_def Suc_leI)
qed

section \<open>The loops of the callers\<close>

text \<open>
  The loop that \<open>dcfs_getattr\<close>, \<open>dcfs_create\<close>, \<open>dcfs_open\<close>, \<open>dcfs_read\<close>, \<open>dcfs_write\<close> and
  \<open>dcfs_flush\<close> all contain: it stops at the first entry \<open>p\<close> accepts, leaving the cursor there.
\<close>

function search_dir :: "(directory_entry \<Rightarrow> bool) \<Rightarrow> directory \<Rightarrow> (directory_entry option \<times> directory) outcome" where
  "search_dir p d = bindO (Readdir d) (\<lambda>(r, d').
     case r of None \<Rightarrow> Ret (None, d') | Some e \<Rightarrow> if p e then Ret (Some e, d') else search_dir p d')"
  by pat_completeness auto
termination
  by (relation "measure (\<lambda>(p, d). length (entries d) - it d)")
     (auto simp: Readdir_def outcome_simps split: if_splits)

text \<open>The loop of \<open>dcfs_readdir\<close>, with the names it hands to the filler.\<close>

function list_dir :: "directory \<Rightarrow> string list \<Rightarrow> (string list \<times> directory) outcome" where
  "list_dir d out = bindO (Readdir d) (\<lambda>(r, d').
     case r of None \<Rightarrow> Ret (out, d') | Some e \<Rightarrow> list_dir d' (out @ [d_filename e]))"
  by pat_completeness auto
termination
  by (relation "measure (\<lambda>(d, out). length (entries d) - it d)")
     (auto simp: Readdir_def outcome_simps split: if_splits)

declare search_dir.simps [simp del] list_dir.simps [simp del]

lemma search_dir_find:
  obtains d' where "search_dir p (InitReaddir d) = Ret (List.find p (entries d), d')"
    and "dir_wf d'" and "entries d' = entries d"
  using dir.search_loop [of "search_dir p" p "InitReaddir d", OF search_dir.simps] dir.rewind_all by auto

lemma list_dir_all:
  obtains d' where "list_dir (InitReaddir d) out = Ret (out @ map d_filename (entries d), d')"
    and "dir_wf d'" and "entries d' = entries d"
proof -
  have f: "fold (\<lambda>e x. x @ [d_filename e]) es x = x @ map d_filename es" for es x
    by (induction es arbitrary: x) simp_all
  show thesis
    using dir.fold_loop [of list_dir "\<lambda>e x. x @ [d_filename e]" "InitReaddir d" out, OF list_dir.simps]
      dir.rewind_all that by (auto simp: f)
qed

lemma Addent_entries: "entries (snd (Addent d e)) = entries d @ [e]" and Addent_wf: "dir_wf (snd (Addent d e))"
  by (simp_all add: Addent_def dir_wf_def)

lemma Directory_wf [simp]: "dir_wf Directory" "entries Directory = []"
  by (simp_all add: Directory_def dir_wf_def)

section \<open>Properties\<close>

text \<open>
  C22. Directory scan: from any cursor position, \<open>InitReaddir\<close> followed by the search loop ends,
  never reads outside the vector, returns the first matching entry or NULL exactly as a search
  of the list would, and changes no entry; adding an entry makes it the last one found, after
  every older entry with the same property.
\<close>

theorem directory_search:
  "\<exists>d1 d2. search_dir p (InitReaddir d) = Ret (List.find p (entries d), d1) \<and> entries d1 = entries d \<and>
     search_dir p (InitReaddir (snd (Addent d e))) =
       Ret (if \<exists>x \<in> set (entries d). p x then List.find p (entries d) else if p e then Some e else None, d2) \<and>
     entries d2 = entries d @ [e]"
proof -
  obtain d1 where d1: "search_dir p (InitReaddir d) = Ret (List.find p (entries d), d1)"
    "dir_wf d1" "entries d1 = entries d" by (rule search_dir_find)
  obtain d2 where d2: "search_dir p (InitReaddir (snd (Addent d e))) = Ret (List.find p (entries d @ [e]), d2)"
    "dir_wf d2" "entries d2 = entries d @ [e]"
    by (rule search_dir_find [of p "snd (Addent d e)", unfolded Addent_entries])
  have "List.find p (es @ [e]) = (if \<exists>x \<in> set es. p x then List.find p es else if p e then Some e else None)" for es
    by (induction es) auto
  with d1 d2 show ?thesis by auto
qed

end
