(* ===== verification/Inode_Table.thy ===== *)
theory Inode_Table
  imports Flush Dir
begin

text \<open>
  The state of the mounted file system and the table of in-memory inodes of
  \<open>src/src/fs/inode.cpp\<close>. The state collects the object \<open>dcfs\<close> and the globals of \<open>dcfs.cpp\<close> and
  \<open>inode.cpp\<close>. The three table functions hold \<open>inode_table_mutex\<close> from start to end, so each is
  one step. An \<open>Inode *\<close> is the name under which the table holds the inode: every caller uses the
  pointer within one file system call.
\<close>

section \<open>Definitions\<close>

record 's fs =
  fs_root :: directory
  fs_backend :: "'s backend"
  fs_kb :: u64
  inode_table :: "string \<Rightarrow> inode option"
  fd_cnt :: u64
  fd_table :: "string list"

text \<open>
  \<open>"literal" + err\<close> in a call of the logger adds an error code to a pointer; the result must
  point into the literal.
\<close>

definition log_code :: "string \<Rightarrow> err_t \<Rightarrow> unit outcome" where
  "log_code literal err = validO (0 \<le> err \<and> err \<le> int (length literal))"

definition allocate_inode :: "env \<Rightarrow> 's dcserver \<Rightarrow> 's fs \<Rightarrow> (inode option \<times> 's fs) outcome" where
  "allocate_inode E srv st =
     bindO (CreateNewFile E srv (fs_backend st)) (\<lambda>(err, hashname, aes_key, b).
     let st1 = st\<lparr>fs_backend := b\<rparr> in
     if err < 0 then bindO (log_code ''Failed to allocate new inode, err: '' err) (\<lambda>_. Ret (None, st1))
     else bindO (Inode_fresh hashname (fs_kb st1) (of_nat BLOCKMAP_COVER) aes_key) (\<lambda>ino.
       Ret (Some ino, st1\<lparr>inode_table := (inode_table st1)(hashname \<mapsto> ino)\<rparr>)))"

definition get_inode :: "env \<Rightarrow> 's dcserver \<Rightarrow> 's fs \<Rightarrow> string \<Rightarrow> (inode option \<times> 's fs) outcome" where
  "get_inode E srv st hashname =
     (case inode_table st hashname of
        Some ino \<Rightarrow> Ret (Some ino, st)
      | None \<Rightarrow>
          bindO (ReadFileMeta E srv (fs_backend st) hashname) (\<lambda>(err, recordname, sz, aes_key, bm_name, b).
          let st1 = st\<lparr>fs_backend := b\<rparr> in
          if err < 0 then Ret (None, st1)
          else bindO (Inode hashname recordname bm_name (fs_kb st1) (of_nat BLOCKMAP_COVER) sz aes_key) (\<lambda>ino.
            Ret (Some ino, st1\<lparr>inode_table := (inode_table st1)(hashname \<mapsto> ino)\<rparr>))))"

definition release_inode :: "'s fs \<Rightarrow> string \<Rightarrow> 's fs" where
  "release_inode st hashname = st\<lparr>inode_table := (inode_table st)(hashname := None)\<rparr>"

section \<open>Well-formed tables\<close>

text \<open>Every inode in the table is well formed and stands under its own name.\<close>

definition table_ok :: "(string \<Rightarrow> inode option) \<Rightarrow> bool" where
  "table_ok t \<longleftrightarrow> (\<forall>h ino. t h = Some ino \<longrightarrow> inode_ok ino \<and> i_hashname ino = h)"

lemma table_okD: "table_ok t \<Longrightarrow> t h = Some ino \<Longrightarrow> inode_ok ino \<and> i_hashname ino = h"
  by (simp add: table_ok_def)

lemma table_ok_upd: "table_ok t \<Longrightarrow> inode_ok ino \<Longrightarrow> i_hashname ino = h \<Longrightarrow> table_ok (t(h \<mapsto> ino))"
  by (simp add: table_ok_def)

lemma table_ok_del: "table_ok t \<Longrightarrow> table_ok (t(h := None))"
  by (simp add: table_ok_def)

lemma Inode_name: "Inode dc n1 n2 kb cover sz key = Ret ino \<Longrightarrow> i_hashname ino = dc"
  by (auto simp: Inode_def Let_def outcome_simps)

lemma ReadFileMeta_key: "ReadFileMeta E srv b h = Ret (rc, n, sz, key, bm, b') \<Longrightarrow> 0 \<le> rc \<Longrightarrow> length key = 16"
  unfolding ReadFileMeta_def
  by (elim bindO_RetE) (auto simp: outcome_simps Let_def DecryptAESKey_def split: option.splits if_split_asm)

lemma CreateNewFile_key:
  assumes "env_ok E" and "CreateNewFile E srv b = Ret (rc, h, key, b')" and "0 \<le> rc"
  shows "length key = 16"
proof -
  obtain r where "RAND_bytes (ossl E) (Suc (mid_tick (be_mid b))) = (1, r)" "length r = 16"
    using env_okD(4) [OF assms(1)] unfolding rand_ok_def by blast
  with assms(2,3) show ?thesis
    by (auto simp: CreateNewFile_def CreateNew_def outcome_simps Let_def generate_symmetric_key_def
        split: if_split_asm)
qed

text \<open>What the two lookups leave of the state.\<close>

lemma get_inode_frame:
  assumes "get_inode E srv st h = Ret (r, st')"
  shows "fs_root st' = fs_root st" "fs_kb st' = fs_kb st" "fd_cnt st' = fd_cnt st" "fd_table st' = fd_table st"
    and "table_ok (inode_table st) \<Longrightarrow> table_ok (inode_table st')"
    and "r = Some ino \<Longrightarrow> inode_table st' h = Some ino"
    and "g \<noteq> h \<Longrightarrow> inode_table st' g = inode_table st g"
proof -
  have "st' = st \<and> r = inode_table st h \<or> (\<exists>b. st' = st\<lparr>fs_backend := b\<rparr>) \<and> r = None \<or>
      (\<exists>b ino. inode_ok ino \<and> i_hashname ino = h \<and> r = Some ino \<and> st' = st\<lparr>fs_backend := b, inode_table := (inode_table st)(h \<mapsto> ino)\<rparr>)"
  proof (cases "inode_table st h")
    case None
    with assms obtain rc n sz key bm b' where m: "ReadFileMeta E srv (fs_backend st) h = Ret (rc, n, sz, key, bm, b')"
      "(if rc < 0 then Ret (None, st\<lparr>fs_backend := b'\<rparr>)
        else bindO (Inode h n bm (fs_kb st) 512 sz key) (\<lambda>ino.
          Ret (Some ino, st\<lparr>fs_backend := b', inode_table := (inode_table st)(h \<mapsto> ino)\<rparr>))) = Ret (r, st')"
      by (auto simp: get_inode_def bindO_Ret_iff Let_def cong: if_cong)
    show ?thesis
    proof (cases "rc < 0")
      case False
      then obtain ino where ino: "Inode h n bm (fs_kb st) 512 sz key = Ret ino" "r = Some ino"
        "st' = st\<lparr>fs_backend := b', inode_table := (inode_table st)(h \<mapsto> ino)\<rparr>"
        using m(2) by (auto simp: outcome_simps)
      from Inode_ok(1) [OF ino(1) ReadFileMeta_key [OF m(1)]] Inode_name [OF ino(1)] False ino(2,3) show ?thesis by auto
    qed (use m(2) in auto)
  qed (use assms in \<open>auto simp: get_inode_def\<close>)
  then show "fs_root st' = fs_root st" "fs_kb st' = fs_kb st" "fd_cnt st' = fd_cnt st" "fd_table st' = fd_table st"
    "table_ok (inode_table st) \<Longrightarrow> table_ok (inode_table st')"
    "r = Some ino \<Longrightarrow> inode_table st' h = Some ino"
    "g \<noteq> h \<Longrightarrow> inode_table st' g = inode_table st g"
    by (auto simp: table_ok_upd)
qed

lemma allocate_inode_frame:
  assumes "env_ok E" and "allocate_inode E srv st = Ret (r, st')"
  obtains ino where "r = Some ino" and "inode_ok ino" and "i_ref_count ino = 0" and "i_size ino = 0"
    and "fs_root st' = fs_root st" and "fs_kb st' = fs_kb st"
    and "fd_cnt st' = fd_cnt st" and "fd_table st' = fd_table st"
    and "inode_table st' = (inode_table st)(i_hashname ino \<mapsto> ino)"
proof -
  obtain rc h key b' where m: "CreateNewFile E srv (fs_backend st) = Ret (rc, h, key, b')"
    "(if rc < 0 then bindO (log_code ''Failed to allocate new inode, err: '' rc) (\<lambda>_. Ret (None, st\<lparr>fs_backend := b'\<rparr>))
      else bindO (Inode_fresh h (fs_kb st) 512 key) (\<lambda>ino.
        Ret (Some ino, st\<lparr>fs_backend := b', inode_table := (inode_table st)(h \<mapsto> ino)\<rparr>))) = Ret (r, st')"
    using assms(2) by (auto simp: allocate_inode_def bindO_Ret_iff Let_def cong: if_cong)
  then have "\<not> rc < 0" by (auto simp: log_code_def outcome_simps)
  then obtain ino where ino: "Inode_fresh h (fs_kb st) 512 key = Ret ino" "r = Some ino"
    "st' = st\<lparr>fs_backend := b', inode_table := (inode_table st)(h \<mapsto> ino)\<rparr>"
    using m(2) by (auto simp: outcome_simps)
  note I = ino(1) [unfolded Inode_fresh_def]
  have k: "length key = 16" using CreateNewFile_key [OF assms(1) m(1)] \<open>\<not> rc < 0\<close> by simp
  have "i_ref_count ino = 0" "i_size ino = 0"
    using arg_cong [OF Inode_ok(4) [OF I k], of i_ref_count] arg_cong [OF Inode_ok(4) [OF I k], of i_size] by simp_all
  with Inode_ok(1) [OF I k] Inode_name [OF I] ino(2,3) that show thesis by simp
qed

end
