(* ===== verification/Dcfs.thy ===== *)
theory Dcfs
  imports Inode_Table
begin

text \<open>
  The FUSE operations of \<open>src/src/fs/dcfs.cpp\<close>. A path is the C string FUSE passes (no zero byte
  inside); \<open>fh\<close> is \<open>fi->fh\<close>, returned as the call leaves it. Results are the \<open>int\<close> FUSE sees,
  negative for an error. \<open>buf\<close> of a read and of a write are the accessible bytes at the pointer
  FUSE passes. Each call runs to its end before the next one starts.
\<close>

section \<open>Definitions\<close>

abbreviation (input) ENOENT :: int where "ENOENT \<equiv> 2"
abbreviation (input) EIO :: int where "EIO \<equiv> 5"
abbreviation (input) ENOMEM :: int where "ENOMEM \<equiv> 12"
abbreviation (input) EEXIST :: int where "EEXIST \<equiv> 17"

text \<open>\<open>StorageBackend::LoadRoot\<close> is a stub that makes an empty directory.\<close>

definition LoadRoot :: "'s backend \<Rightarrow> err_t \<times> directory" where
  "LoadRoot b = (NO_ERR, Directory)"

text \<open>
  \<open>dcfs_init\<close> on the globals as the program starts with them: \<open>fd_cnt = 10\<close>, an empty inode
  table. \<open>s\<close> is the state of the record server that the backend's constructor creates.
\<close>

definition dcfs_init :: "env \<Rightarrow> dcfs_options \<Rightarrow> 's \<Rightarrow> 's fs" where
  "dcfs_init E opts s =
     (let b = StorageBackend E s in
      \<lparr>fs_root = snd (LoadRoot b), fs_backend = b, fs_kb = block_size_in_kb opts, inode_table = Map.empty,
       fd_cnt = 10, fd_table = replicate FD_TABLE_MAX []\<rparr>)"

text \<open>
  The search that most operations start with: \<open>InitReaddir\<close>, then the loop comparing
  \<open>path + 1\<close> with every file name.
\<close>

definition find_entry :: "'s fs \<Rightarrow> string \<Rightarrow> (directory_entry option \<times> 's fs) outcome" where
  "find_entry st path =
     bindO (validO (path \<noteq> [] \<or> entries (fs_root st) = [])) (\<lambda>_.
     bindO (search_dir (\<lambda>e. strcmp_eq (tl path) (d_filename e)) (InitReaddir (fs_root st))) (\<lambda>(r, d).
     Ret (r, st\<lparr>fs_root := d\<rparr>)))"

record stat_t =
  st_mode :: nat
  st_nlink :: nat
  st_size :: u64

text \<open>\<open>dcfs_getattr\<close>: \<open>S_IFDIR | 0755\<close> is 16877, \<open>S_IFREG | 0444\<close> is 33060.\<close>

definition dcfs_getattr :: "env \<Rightarrow> 's dcserver \<Rightarrow> 's fs \<Rightarrow> string \<Rightarrow> (int \<times> stat_t \<times> 's fs) outcome" where
  "dcfs_getattr E srv st path =
     (let zero = \<lparr>st_mode = 0, st_nlink = 0, st_size = 0\<rparr> in
      if strcmp_eq path ''/'' then Ret (0, zero\<lparr>st_mode := 16877, st_nlink := 2\<rparr>, st)
      else bindO (find_entry st path) (\<lambda>(ent, st).
        case ent of
          None \<Rightarrow> Ret (- ENOENT, zero, st)
        | Some e \<Rightarrow>
            bindO (get_inode E srv st (d_hashname e)) (\<lambda>(p, st).
            bindO (deref p) (\<lambda>ino.
            Ret (0, zero\<lparr>st_mode := 33060, st_nlink := 1, st_size := i_size ino\<rparr>, st)))))"

text \<open>\<open>dcfs_readdir\<close>: the names handed to the filler, in order.\<close>

definition dcfs_readdir :: "'s fs \<Rightarrow> string \<Rightarrow> (int \<times> string list \<times> 's fs) outcome" where
  "dcfs_readdir st path =
     (if \<not> strcmp_eq path ''/'' then Ret (- ENOENT, [], st)
      else bindO (list_dir (InitReaddir (fs_root st)) [''.'', ''..'']) (\<lambda>(names, d).
        Ret (0, names, st\<lparr>fs_root := d\<rparr>)))"

text \<open>\<open>fd = ++fd_cnt; fd_table[fd] = hashname; fi->fh = fd\<close>.\<close>

definition new_fd :: "'s fs \<Rightarrow> string \<Rightarrow> (u64 \<times> 's fs) outcome" where
  "new_fd st hashname =
     (let fd = fd_cnt st + 1 in
      bindO (vec_set (fd_table st) (unat fd) hashname) (\<lambda>t.
      Ret (fd, st\<lparr>fd_cnt := fd, fd_table := t\<rparr>)))"

definition dcfs_create ::
    "env \<Rightarrow> 's dcserver \<Rightarrow> 's fs \<Rightarrow> string \<Rightarrow> u64 \<Rightarrow> (int \<times> u64 \<times> 's fs) outcome" where
  "dcfs_create E srv st path fh =
     bindO (find_entry st path) (\<lambda>(ent, st).
     if ent \<noteq> None then Ret (- EEXIST, fh, st)
     else bindO (allocate_inode E srv st) (\<lambda>(p, st).
       case p of
         None \<Rightarrow> Ret (- ENOMEM, fh, st)
       | Some ino \<Rightarrow>
           bindO (validO (path \<noteq> [])) (\<lambda>_.
           let h = i_hashname ino;
               e = \<lparr>d_filename = tl path, d_hashname = h\<rparr>;
               st = st\<lparr>inode_table := (inode_table st)(h \<mapsto> Ref ino), fs_root := snd (Addent (fs_root st) e)\<rparr> in
           bindO (new_fd st (d_hashname e)) (\<lambda>(fd, st). Ret (0, fd, st)))))"

definition dcfs_open ::
    "env \<Rightarrow> 's dcserver \<Rightarrow> 's fs \<Rightarrow> string \<Rightarrow> u64 \<Rightarrow> (int \<times> u64 \<times> 's fs) outcome" where
  "dcfs_open E srv st path fh =
     bindO (find_entry st path) (\<lambda>(ent, st).
     case ent of
       None \<Rightarrow> Ret (- ENOENT, fh, st)
     | Some e \<Rightarrow>
         bindO (get_inode E srv st (d_hashname e)) (\<lambda>(p, st).
         case p of
           None \<Rightarrow> Ret (- ENOENT, fh, st)
         | Some ino \<Rightarrow>
             let st = st\<lparr>inode_table := (inode_table st)(d_hashname e \<mapsto> Ref ino)\<rparr> in
             bindO (new_fd st (d_hashname e)) (\<lambda>(fd, st). Ret (0, fd, st))))"

text \<open>
  How \<open>dcfs_read\<close>, \<open>dcfs_write\<close> and \<open>dcfs_flush\<close> get their inode, with the name it has in the
  table: by the handle, or by a search when the handle is 0. \<open>None\<close> in the first place means that
  the search found no entry, after which \<open>dcfs_read\<close> tests an uninitialised pointer.
\<close>

definition handle_inode ::
    "env \<Rightarrow> 's dcserver \<Rightarrow> 's fs \<Rightarrow> string \<Rightarrow> u64 \<Rightarrow> ((string \<times> inode option) option \<times> 's fs) outcome" where
  "handle_inode E srv st path fh =
     (if 0 < fh
      then bindO (vec_at (fd_table st) (unat fh)) (\<lambda>h.
        bindO (get_inode E srv st h) (\<lambda>(p, st). Ret (Some (h, p), st)))
      else bindO (find_entry st path) (\<lambda>(ent, st).
        case ent of
          None \<Rightarrow> Ret (None, st)
        | Some e \<Rightarrow> bindO (get_inode E srv st (d_hashname e)) (\<lambda>(p, st). Ret (Some (d_hashname e, p), st))))"

text \<open>A \<open>size_t\<close> returned as an \<open>int\<close>.\<close>

definition int_of :: "u64 \<Rightarrow> int" where
  "int_of w = sint (ucast w :: 32 word)"

definition dcfs_read ::
    "env \<Rightarrow> 's dcserver \<Rightarrow> 's fs \<Rightarrow> string \<Rightarrow> string \<Rightarrow> u64 \<Rightarrow> u64 \<Rightarrow> u64 \<Rightarrow> (int \<times> string \<times> 's fs) outcome" where
  "dcfs_read E srv st path dst sz offset fh =
     bindO (handle_inode E srv st path fh) (\<lambda>(r, st).
     bindO (deref r) (\<lambda>(h, p).
     case p of
       None \<Rightarrow> Ret (- ENOENT, dst, st)
     | Some ino \<Rightarrow>
         let len = i_size ino in
         if offset < len
         then
           let sz' = (if len < offset + sz then len - offset else sz) in
           bindO (Inode_Read E srv ino (fs_backend st) dst offset sz') (\<lambda>(err, n, dst', ino', b).
           let st = st\<lparr>fs_backend := b, inode_table := (inode_table st)(h \<mapsto> ino')\<rparr> in
           if err < 0 then bindO (log_code ''read error:'' err) (\<lambda>_. Ret (- EIO, dst', st))
           else Ret (int_of sz', dst', st))
         else Ret (int_of 0, dst, st)))"

definition dcfs_write ::
    "env \<Rightarrow> 's dcserver \<Rightarrow> 's fs \<Rightarrow> string \<Rightarrow> string \<Rightarrow> u64 \<Rightarrow> u64 \<Rightarrow> u64 \<Rightarrow> (int \<times> 's fs) outcome" where
  "dcfs_write E srv st path src sz offset fh =
     bindO (handle_inode E srv st path fh) (\<lambda>(r, st).
     case r of
       Some (h, Some ino) \<Rightarrow>
         bindO (Inode_Write E srv ino (fs_backend st) src offset sz) (\<lambda>(err, n, ino', b).
         let st = st\<lparr>fs_backend := b, inode_table := (inode_table st)(h \<mapsto> ino')\<rparr> in
         if err < 0 then bindO (log_code ''write error: '' err) (\<lambda>_. Ret (- EIO, st))
         else Ret (int_of sz, st))
     | _ \<Rightarrow> Ret (- ENOENT, st))"

definition dcfs_flush ::
    "env \<Rightarrow> 's dcserver \<Rightarrow> 's fs \<Rightarrow> string \<Rightarrow> u64 \<Rightarrow> (int \<times> u64 \<times> 's fs) outcome" where
  "dcfs_flush E srv st path fh =
     bindO (handle_inode E srv st path fh) (\<lambda>(r, st).
     case r of
       Some (h, Some ino) \<Rightarrow>
         bindO (Unref E srv ino (fs_backend st)) (\<lambda>(cnt, ino', b).
         let st = st\<lparr>fs_backend := b, inode_table := (inode_table st)(h \<mapsto> ino')\<rparr> in
         if cnt = 0
         then
           let st = release_inode st (i_hashname ino') in
           if 0 < fh then bindO (vec_set (fd_table st) (unat fh) []) (\<lambda>t. Ret (0, 0, st\<lparr>fd_table := t\<rparr>))
           else Ret (0, 0, st)
         else Ret (0, fh, st))
     | _ \<Rightarrow> Ret (- ENOENT, fh, st))"

section \<open>The invariant of the mounted file system\<close>

text \<open>
  Inodes are well formed and stand under their names; file names are distinct C strings; handles
  up to \<open>fd_cnt\<close> have been given out and the rest of the table is empty.
\<close>

definition fs_ok :: "'s fs \<Rightarrow> bool" where
  "fs_ok st \<longleftrightarrow>
     table_ok (inode_table st) \<and> dir_wf (fs_root st) \<and>
     distinct (map d_filename (entries (fs_root st))) \<and> (\<forall>e \<in> set (entries (fs_root st)). NUL \<notin> set (d_filename e)) \<and>
     length (fd_table st) = FD_TABLE_MAX \<and> 10 \<le> unat (fd_cnt st) \<and> unat (fd_cnt st) < FD_TABLE_MAX \<and>
     (\<forall>i. unat (fd_cnt st) < i \<and> i < FD_TABLE_MAX \<longrightarrow> fd_table st ! i = [])"

text \<open>A state that differs in the cursor, the backend and the cached inodes only.\<close>

definition fs_frame :: "'s fs \<Rightarrow> 's fs \<Rightarrow> bool" where
  "fs_frame st st' \<longleftrightarrow>
     entries (fs_root st') = entries (fs_root st) \<and> fd_cnt st' = fd_cnt st \<and> fd_table st' = fd_table st \<and>
     (dir_wf (fs_root st) \<longrightarrow> dir_wf (fs_root st')) \<and> (table_ok (inode_table st) \<longrightarrow> table_ok (inode_table st'))"

inductive fs_step :: "env \<Rightarrow> 's dcserver \<Rightarrow> 's fs \<Rightarrow> 's fs \<Rightarrow> bool" for E srv where
  step_getattr: "dcfs_getattr E srv st path = Ret (r, a, st') \<Longrightarrow> fs_step E srv st st'"
| step_readdir: "dcfs_readdir st path = Ret (r, names, st') \<Longrightarrow> fs_step E srv st st'"
| step_create: "NUL \<notin> set path \<Longrightarrow> dcfs_create E srv st path fh = Ret (r, fh', st') \<Longrightarrow> fs_step E srv st st'"
| step_open: "dcfs_open E srv st path fh = Ret (r, fh', st') \<Longrightarrow> fs_step E srv st st'"
| step_read: "dcfs_read E srv st path dst sz offset fh = Ret (r, dst', st') \<Longrightarrow> fs_step E srv st st'"
| step_write: "dcfs_write E srv st path src sz offset fh = Ret (r, st') \<Longrightarrow> fs_step E srv st st'"
| step_flush: "dcfs_flush E srv st path fh = Ret (r, fh', st') \<Longrightarrow> fs_step E srv st st'"

inductive fs_reach :: "env \<Rightarrow> 's dcserver \<Rightarrow> 's fs \<Rightarrow> 's fs \<Rightarrow> bool" for E srv st0 where
  reach_init: "fs_reach E srv st0 st0"
| reach_step: "fs_reach E srv st0 st \<Longrightarrow> fs_step E srv st st' \<Longrightarrow> fs_reach E srv st0 st'"

lemma fs_frame_trans: "fs_frame st st1 \<Longrightarrow> fs_frame st1 st2 \<Longrightarrow> fs_frame st st2"
  by (auto simp: fs_frame_def)

lemma fs_frame_ok: "fs_frame st st' \<Longrightarrow> fs_ok st \<Longrightarrow> fs_ok st'"
  by (simp add: fs_frame_def fs_ok_def)

lemma find_entry_frame:
  assumes "find_entry st path = Ret (r, st')"
  shows "fs_frame st st'" and "r = List.find (\<lambda>e. strcmp_eq (tl path) (d_filename e)) (entries (fs_root st))"
    and "inode_table st' = inode_table st" and "fs_backend st' = fs_backend st" and "fs_kb st' = fs_kb st"
proof -
  obtain d where d: "search_dir (\<lambda>e. strcmp_eq (tl path) (d_filename e)) (InitReaddir (fs_root st)) =
      Ret (List.find (\<lambda>e. strcmp_eq (tl path) (d_filename e)) (entries (fs_root st)), d)"
    "dir_wf d" "entries d = entries (fs_root st)" by (rule search_dir_find)
  with assms have "r = List.find (\<lambda>e. strcmp_eq (tl path) (d_filename e)) (entries (fs_root st))" "st' = st\<lparr>fs_root := d\<rparr>"
    by (auto simp: find_entry_def outcome_simps)
  with d show "fs_frame st st'" "r = List.find (\<lambda>e. strcmp_eq (tl path) (d_filename e)) (entries (fs_root st))"
    "inode_table st' = inode_table st" "fs_backend st' = fs_backend st" "fs_kb st' = fs_kb st"
    by (simp_all add: fs_frame_def)
qed

lemma find_entry_total:
  assumes "path \<noteq> []"
  obtains st' where "find_entry st path = Ret (List.find (\<lambda>e. strcmp_eq (tl path) (d_filename e)) (entries (fs_root st)), st')"
    and "st' = st\<lparr>fs_root := fs_root st'\<rparr>" and "entries (fs_root st') = entries (fs_root st)"
proof -
  obtain d where "search_dir (\<lambda>e. strcmp_eq (tl path) (d_filename e)) (InitReaddir (fs_root st)) =
      Ret (List.find (\<lambda>e. strcmp_eq (tl path) (d_filename e)) (entries (fs_root st)), d)"
    "dir_wf d" "entries d = entries (fs_root st)" by (rule search_dir_find)
  then show thesis using assms that [of "st\<lparr>fs_root := d\<rparr>"] by (simp add: find_entry_def)
qed

lemma get_inode_fs_frame: "get_inode E srv st h = Ret (r, st') \<Longrightarrow> fs_frame st st'"
  using get_inode_frame [of E srv st h r st'] by (simp add: fs_frame_def)

lemma handle_inode_frame:
  assumes "handle_inode E srv st path fh = Ret (r, st')"
  shows "fs_frame st st'" and "r = Some (h, Some ino) \<Longrightarrow> inode_table st' h = Some ino"
proof -
  have "fs_frame st st' \<and> (\<forall>h ino. r = Some (h, Some ino) \<longrightarrow> inode_table st' h = Some ino)"
  proof (cases "0 < fh")
    case True
    with assms show ?thesis
      by (auto simp: handle_inode_def outcome_simps dest: get_inode_fs_frame get_inode_frame(6))
  next
    case False
    with assms show ?thesis
      by (auto simp: handle_inode_def outcome_simps split: option.splits
          dest: find_entry_frame(1) get_inode_fs_frame get_inode_frame(6) intro: fs_frame_trans)
  qed
  then show "fs_frame st st'" "r = Some (h, Some ino) \<Longrightarrow> inode_table st' h = Some ino" by blast+
qed

text \<open>Changing one inode of the table.\<close>

lemma fs_frame_inode:
  assumes "inode_table st h = Some ino" and "table_ok (inode_table st) \<Longrightarrow> inode_ok ino' \<and> i_hashname ino' = i_hashname ino"
  shows "fs_frame st (st\<lparr>fs_backend := b, inode_table := (inode_table st)(h \<mapsto> ino')\<rparr>)"
  using assms by (auto simp: fs_frame_def intro!: table_ok_upd dest: table_okD)

lemma strcmp_eq_cstr:
  assumes "NUL \<notin> set a" and "NUL \<notin> set b"
  shows "strcmp_eq a b \<longleftrightarrow> a = b"
proof -
  have "takeWhile (\<lambda>c. c \<noteq> NUL) a = a" "takeWhile (\<lambda>c. c \<noteq> NUL) b = b"
    using assms by (auto simp: takeWhile_eq_all_conv)
  then show ?thesis by (simp only: strcmp_eq_def)
qed

lemma new_fd_ok:
  assumes "new_fd st h = Ret (fd, st')" and "fs_ok st"
  shows "fs_ok st'" and "unat fd = Suc (unat (fd_cnt st))" and "unat fd < 256" and "fd_table st' ! unat fd = h"
    and "fs_root st' = fs_root st" and "inode_table st' = inode_table st" and "fs_backend st' = fs_backend st" and "fs_kb st' = fs_kb st"
proof -
  have "unat (fd_cnt st) < 256" using assms(2) by (simp add: fs_ok_def)
  then have u: "unat (fd_cnt st + 1) = Suc (unat (fd_cnt st))"
    using unat_add_lem [of "fd_cnt st" 1] by simp
  from assms(1) have s: "unat (fd_cnt st + 1) < length (fd_table st)" "fd = fd_cnt st + 1"
    "st' = st\<lparr>fd_cnt := fd, fd_table := (fd_table st)[unat fd := h]\<rparr>"
    by (auto simp: new_fd_def Let_def outcome_simps)
  show "fs_ok st'" using assms(2) s u by (simp add: fs_ok_def nth_list_update)
  show "unat fd = Suc (unat (fd_cnt st))" "unat fd < 256" "fd_table st' ! unat fd = h" "fs_root st' = fs_root st"
    "inode_table st' = inode_table st" "fs_backend st' = fs_backend st" "fs_kb st' = fs_kb st"
    using s u assms(2) by (simp_all add: fs_ok_def)
qed

lemma create_ok:
  assumes E: "env_ok E" and path: "NUL \<notin> set path" and ok: "fs_ok st" and c: "dcfs_create E srv st path fh = Ret (r, fh', st')"
  shows "fs_ok st'"
proof -
  obtain ent st1 where f: "find_entry st path = Ret (ent, st1)" using c by (auto simp: dcfs_create_def outcome_simps)
  have ok1: "fs_ok st1" by (rule fs_frame_ok [OF find_entry_frame(1) [OF f] ok])
  show ?thesis
  proof (cases ent)
    case (Some e)
    with c f ok1 show ?thesis by (auto simp: dcfs_create_def)
  next
    case None
    with c f obtain p st2 where a: "allocate_inode E srv st1 = Ret (p, st2)" by (auto simp: dcfs_create_def outcome_simps)
    obtain ino where ino: "p = Some ino" "inode_ok ino" "i_ref_count ino = 0" "i_size ino = 0" "fs_root st2 = fs_root st1" "fs_kb st2 = fs_kb st1"
      "fd_cnt st2 = fd_cnt st1" "fd_table st2 = fd_table st1" "inode_table st2 = (inode_table st1)(i_hashname ino \<mapsto> ino)"
      by (rule allocate_inode_frame [OF E a])
    let ?e = "\<lparr>d_filename = tl path, d_hashname = i_hashname ino\<rparr>"
    define st3 where "st3 = st2\<lparr>inode_table := (inode_table st2)(i_hashname ino \<mapsto> Ref ino), fs_root := snd (Addent (fs_root st2) ?e)\<rparr>"
    obtain fd where n: "new_fd st3 (i_hashname ino) = Ret (fd, st')" "path \<noteq> []"
      using c f None a ino(1) by (auto simp: dcfs_create_def outcome_simps Let_def st3_def)
    have tl: "NUL \<notin> set (tl path)" using path n(2) by (meson list.set_sel(2))
    have "entries (fs_root st1) = entries (fs_root st)" using find_entry_frame(1) [OF f] by (simp add: fs_frame_def)
    then have fresh: "\<forall>e \<in> set (entries (fs_root st1)). d_filename e \<noteq> tl path"
      using find_entry_frame(2) [OF f, symmetric] None by (auto simp: find_None_iff)
    have cs: "\<forall>e \<in> set (entries (fs_root st1)). NUL \<notin> set (d_filename e)" using ok1 by (simp add: fs_ok_def)
    have "fs_ok st3"
      using ok1 ino tl fresh cs
      by (auto simp: fs_ok_def st3_def Addent_entries Addent_wf Ref_def intro!: table_ok_upd)
    then show ?thesis by (rule new_fd_ok(1) [OF n(1)])
  qed
qed

lemma open_ok:
  assumes ok: "fs_ok st" and c: "dcfs_open E srv st path fh = Ret (r, fh', st')"
  shows "fs_ok st'"
proof -
  obtain ent st1 where f: "find_entry st path = Ret (ent, st1)" using c by (auto simp: dcfs_open_def outcome_simps)
  have ok1: "fs_ok st1" by (rule fs_frame_ok [OF find_entry_frame(1) [OF f] ok])
  show ?thesis
  proof (cases ent)
    case None
    with c f ok1 show ?thesis by (auto simp: dcfs_open_def)
  next
    case (Some e)
    with c f obtain p st2 where g: "get_inode E srv st1 (d_hashname e) = Ret (p, st2)" by (auto simp: dcfs_open_def outcome_simps)
    have ok2: "fs_ok st2" by (rule fs_frame_ok [OF get_inode_fs_frame [OF g] ok1])
    show ?thesis
    proof (cases p)
      case None
      with c f Some g ok2 show ?thesis by (auto simp: dcfs_open_def)
    next
      case (Some ino)
      have t: "inode_ok ino" "i_hashname ino = d_hashname e"
        using get_inode_frame(6) [OF g Some] ok2 by (auto simp: fs_ok_def dest: table_okD)
      obtain fd where "new_fd (st2\<lparr>inode_table := (inode_table st2)(d_hashname e \<mapsto> Ref ino)\<rparr>) (d_hashname e) = Ret (fd, st')"
        using c f \<open>ent = Some e\<close> g Some by (auto simp: dcfs_open_def outcome_simps Let_def)
      moreover have "fs_ok (st2\<lparr>inode_table := (inode_table st2)(d_hashname e \<mapsto> Ref ino)\<rparr>)"
        using ok2 t by (auto simp: fs_ok_def Ref_def intro!: table_ok_upd)
      ultimately show ?thesis by (rule new_fd_ok(1))
    qed
  qed
qed

text \<open>The inode operations keep the name and the invariant.\<close>

lemma Inode_Read_keeps:
  assumes "env_ok E" and "inode_ok ino" and "Inode_Read E srv ino b dst offset sz = Ret (rc, n, dst', ino', b')"
  shows "inode_ok ino' \<and> i_hashname ino' = i_hashname ino"
proof -
  have "ino' = ino \<or> (\<exists>sz'. RecordCache_Read E srv ino b dst offset sz' = Ret (rc, dst', ino', b'))"
    using assms(3) by (auto simp: Inode_Read_def Let_def outcome_simps split: if_split_asm)
  then show ?thesis using assms(2) RecordCache_Read_inv [OF assms(1,2)] meta_eqD(1) by metis
qed

lemma Inode_Write_keeps:
  assumes "env_ok E" and "inode_ok ino" and "Inode_Write E srv ino b src offset sz = Ret (rc, n, ino', b')"
  shows "inode_ok ino' \<and> i_hashname ino' = i_hashname ino"
proof -
  obtain at ino1 where w: "RecordCache_Write E srv ino b src at sz = Ret (rc, ino1, b')" "ino' = ino1 \<or> (\<exists>s. ino' = ino1\<lparr>i_size := s\<rparr>)"
    using assms(3) unfolding Inode_Write_def Let_def by (elim bindO_RetE) (auto split: if_split_asm prod.splits)
  from RecordCache_Write_inv [OF assms(1,2) w(1)] w(2) meta_eqD(1) [of ino1 ino] show ?thesis by auto
qed

lemma Unref_keeps:
  assumes "inode_ok ino" and "Unref E srv ino b = Ret (n, ino', b')"
  shows "inode_ok ino' \<and> i_hashname ino' = i_hashname ino"
proof -
  let ?ino1 = "ino\<lparr>i_ref_count := i_ref_count ino - 1\<rparr>"
  have "ino' = ?ino1 \<or> (\<exists>rc. FlushCache E srv ?ino1 b = Ret (rc, ino', b'))"
    using assms(2) unfolding Unref_def Let_def by (elim bindO_RetE) (auto simp: outcome_simps split: if_split_asm)
  moreover have "inode_ok ino' \<and> i_hashname ino' = i_hashname ino" if "FlushCache E srv ?ino1 b = Ret (rc, ino', b')" for rc
  proof -
    have "inode_ok ino' \<and> meta ino' = meta ?ino1" using FlushCache_inv [OF _ that] assms(1) cache_fields_refs(1) by blast
    then show ?thesis using meta_eqD(1) [of ino' ?ino1] by simp
  qed
  ultimately show ?thesis using assms(1) by auto
qed

lemma getattr_frame:
  assumes "dcfs_getattr E srv st path = Ret (r, a, st')"
  shows "fs_frame st st'"
proof (cases "strcmp_eq path ''/''")
  case True
  with assms show ?thesis by (auto simp: dcfs_getattr_def fs_frame_def Let_def)
next
  case False
  with assms obtain ent st1 where f: "find_entry st path = Ret (ent, st1)"
    by (auto simp: dcfs_getattr_def Let_def outcome_simps)
  show ?thesis
  proof (cases ent)
    case None
    with assms False f show ?thesis by (auto simp: dcfs_getattr_def Let_def dest: find_entry_frame(1))
  next
    case (Some e)
    with assms False f obtain p where "get_inode E srv st1 (d_hashname e) = Ret (p, st')"
      by (auto simp: dcfs_getattr_def Let_def outcome_simps)
    then show ?thesis using find_entry_frame(1) [OF f] get_inode_fs_frame fs_frame_trans by blast
  qed
qed

lemma readdir_frame:
  assumes "dcfs_readdir st path = Ret (r, names, st')"
  shows "fs_frame st st'"
proof -
  obtain d where "list_dir (InitReaddir (fs_root st)) [''.'', ''..''] = Ret ([''.'', ''..''] @ map d_filename (entries (fs_root st)), d)"
    "dir_wf d" "entries d = entries (fs_root st)" by (rule list_dir_all)
  with assms show ?thesis by (auto simp: dcfs_readdir_def fs_frame_def split: if_split_asm)
qed

lemma read_frame:
  assumes E: "env_ok E" and ok: "table_ok (inode_table st)" and r: "dcfs_read E srv st path dst sz offset fh = Ret (rc, dst', st')"
  shows "fs_frame st st'"
proof -
  obtain h p st1 where f: "handle_inode E srv st path fh = Ret (Some (h, p), st1)"
    using r by (auto simp: dcfs_read_def outcome_simps)
  note fr = handle_inode_frame(1) [OF f]
  show ?thesis
  proof (cases p)
    case None
    with r f fr show ?thesis by (auto simp: dcfs_read_def)
  next
    case (Some ino)
    have t: "inode_table st1 h = Some ino" using handle_inode_frame(2) [OF f] Some by simp
    have io: "inode_ok ino" using fr ok t by (auto simp: fs_frame_def dest: table_okD)
    have "fs_frame st1 st'"
    proof (cases "offset < i_size ino")
      case False
      with r f Some show ?thesis by (simp add: dcfs_read_def Let_def fs_frame_def)
    next
      case True
      define sz' where "sz' = (if i_size ino < offset + sz then i_size ino - offset else sz)"
      from r f Some True obtain err n d ino' b where
        i: "Inode_Read E srv ino (fs_backend st1) dst offset sz' = Ret (err, n, d, ino', b)"
          "st' = st1\<lparr>fs_backend := b, inode_table := (inode_table st1)(h \<mapsto> ino')\<rparr>"
        by (auto simp: dcfs_read_def bindO_Ret_iff Let_def sz'_def [symmetric] split: if_split_asm)
      show ?thesis
        unfolding i(2) by (rule fs_frame_inode [OF t]) (use Inode_Read_keeps [OF E io i(1)] in simp)
    qed
    then show ?thesis using fr fs_frame_trans by blast
  qed
qed

lemma write_frame:
  assumes E: "env_ok E" and ok: "table_ok (inode_table st)" and r: "dcfs_write E srv st path src sz offset fh = Ret (rc, st')"
  shows "fs_frame st st'"
proof -
  obtain x st1 where f: "handle_inode E srv st path fh = Ret (x, st1)"
    using r by (auto simp: dcfs_write_def outcome_simps)
  note fr = handle_inode_frame(1) [OF f]
  show ?thesis
  proof (cases "\<exists>h ino. x = Some (h, Some ino)")
    case False
    with r f fr show ?thesis by (auto simp: dcfs_write_def split: option.splits prod.splits)
  next
    case True
    then obtain h ino where x: "x = Some (h, Some ino)" by blast
    have t: "inode_table st1 h = Some ino" using handle_inode_frame(2) [OF f] x by simp
    have io: "inode_ok ino" using fr ok t by (auto simp: fs_frame_def dest: table_okD)
    obtain err n ino' b where w: "Inode_Write E srv ino (fs_backend st1) src offset sz = Ret (err, n, ino', b)"
      "st' = st1\<lparr>fs_backend := b, inode_table := (inode_table st1)(h \<mapsto> ino')\<rparr>"
      using r f x by (auto simp: dcfs_write_def outcome_simps Let_def split: if_split_asm)
    have "fs_frame st1 st'"
      unfolding w(2) by (rule fs_frame_inode [OF t]) (use Inode_Write_keeps [OF E io w(1)] in simp)
    then show ?thesis using fr fs_frame_trans by blast
  qed
qed

lemma clear_nth: "xs ! i = [] \<Longrightarrow> xs[k := []] ! i = []"
  by (cases "k < length xs"; cases "i = k") (simp_all add: list_update_beyond)

lemma flush_ok:
  assumes ok: "fs_ok st" and r: "dcfs_flush E srv st path fh = Ret (rc, fh', st')"
  shows "fs_ok st'"
proof -
  obtain x st1 where f: "handle_inode E srv st path fh = Ret (x, st1)"
    using r by (auto simp: dcfs_flush_def outcome_simps)
  have ok1: "fs_ok st1" by (rule fs_frame_ok [OF handle_inode_frame(1) [OF f] ok])
  show ?thesis
  proof (cases "\<exists>h ino. x = Some (h, Some ino)")
    case False
    with r f ok1 show ?thesis by (auto simp: dcfs_flush_def split: option.splits prod.splits)
  next
    case True
    then obtain h ino where x: "x = Some (h, Some ino)" by blast
    have t: "inode_table st1 h = Some ino" using handle_inode_frame(2) [OF f] x by simp
    have io: "inode_ok ino" using ok1 t by (auto simp: fs_ok_def dest: table_okD)
    obtain cnt ino' b where u: "Unref E srv ino (fs_backend st1) = Ret (cnt, ino', b)"
      using r f x by (auto simp: dcfs_flush_def outcome_simps)
    define st2 where "st2 = st1\<lparr>fs_backend := b, inode_table := (inode_table st1)(h \<mapsto> ino')\<rparr>"
    have ok2: "fs_ok st2"
      unfolding st2_def by (rule fs_frame_ok [OF fs_frame_inode [OF t] ok1]) (use Unref_keeps [OF io u] in simp)
    then have ok3: "fs_ok (release_inode st2 (i_hashname ino'))" by (auto simp: fs_ok_def release_inode_def table_ok_del)
    then have "fs_ok (release_inode st2 (i_hashname ino')\<lparr>fd_table := (fd_table (release_inode st2 (i_hashname ino')))[k := []]\<rparr>)" for k
      by (auto simp: fs_ok_def clear_nth)
    with r f x u ok2 ok3 show ?thesis
      by (auto simp: dcfs_flush_def outcome_simps Let_def st2_def split: if_split_asm)
  qed
qed

inductive_cases fs_stepE: "fs_step E srv st st'"

lemma fs_step_ok:
  assumes "env_ok E" and "fs_ok st" and "fs_step E srv st st'"
  shows "fs_ok st'"
proof -
  have t: "table_ok (inode_table st)" using assms(2) by (simp add: fs_ok_def)
  from assms(3) show ?thesis
  proof (rule fs_stepE)
    fix path dst sz offset fh r dst' assume "dcfs_read E srv st path dst sz offset fh = Ret (r, dst', st')"
    then show ?thesis by (rule fs_frame_ok [OF read_frame [OF assms(1) t] assms(2)])
  next
    fix path src sz offset fh r assume "dcfs_write E srv st path src sz offset fh = Ret (r, st')"
    then show ?thesis by (rule fs_frame_ok [OF write_frame [OF assms(1) t] assms(2)])
  qed (use assms(1,2) in \<open>blast intro: create_ok open_ok flush_ok fs_frame_ok getattr_frame readdir_frame\<close>)+
qed

lemma init_ok: "fs_ok (dcfs_init E opts s)"
  by (simp add: fs_ok_def dcfs_init_def LoadRoot_def table_ok_def Let_def)

lemma fs_reach_ok: "fs_reach E srv st0 st \<Longrightarrow> env_ok E \<Longrightarrow> fs_ok st0 \<Longrightarrow> fs_ok st"
  by (induction rule: fs_reach.induct) (auto intro: fs_step_ok)

section \<open>A new file\<close>

lemma find_append_new:
  "\<forall>e \<in> set es. \<not> p e \<Longrightarrow> List.find p (es @ [x]) = (if p x then Some x else None)"
  by (induction es) auto

text \<open>The records the first flush of capsule \<open>h\<close> writes in state \<open>st\<close>.\<close>

definition first_batch :: "env \<Rightarrow> 's fs \<Rightarrow> string \<Rightarrow> capsule_pdu list" where
  "first_batch E st h =
     (let ino = the (inode_table st h); m = be_mid (fs_backend st) in
      batch_records E (mid_tick m) h h h [] (sealed_key E (symmetric_middleware_key m) (i_aes_key ino))
        (map (cipher E ino) (dirty_blocks ino)))"

lemma handle_open_file:
  assumes "0 < fd" and "unat fd < length (fd_table st)" and "fd_table st ! unat fd = h" and "inode_table st h = Some ino"
  shows "handle_inode E srv st path fd = Ret (Some (h, Some ino), st)"
  using assms by (simp add: handle_inode_def get_inode_def vec_at_def)

lemma fd_table_length: "fs_ok st \<Longrightarrow> length (fd_table st) = 256"
  by (simp add: fs_ok_def)

lemma cipher_refs [simp]: "cipher E (ino\<lparr>i_ref_count := r\<rparr>) = cipher E ino"
  by (simp add: cipher_def fun_eq_iff)

lemma int_of_small:
  assumes "unat w < 2 ^ 31"
  shows "int_of w = int (unat w)"
proof -
  have "int_of w = signed_take_bit 31 (int (unat w))" by (simp add: int_of_def signed_ucast_eq)
  also have "\<dots> = int (unat w)"
  proof (rule signed_take_bit_int_eq_self)
    show "int (unat w) < 2 ^ 31" using assms by (metis of_nat_less_iff of_nat_numeral of_nat_power)
  qed (rule order_trans [of _ 0], simp_all)
  finally show ?thesis .
qed

lemma getattr_known:
  assumes "path \<noteq> []" and "NUL \<notin> set path" and "path \<noteq> ''/''"
    and "List.find (\<lambda>e. strcmp_eq (tl path) (d_filename e)) (entries (fs_root st)) = Some e" and "inode_table st (d_hashname e) = Some ino"
  shows "\<exists>st'. dcfs_getattr E srv st path = Ret (0, \<lparr>st_mode = 33060, st_nlink = 1, st_size = i_size ino\<rparr>, st')"
proof -
  obtain st' where f: "find_entry st path = Ret (Some e, st')" "st' = st\<lparr>fs_root := fs_root st'\<rparr>"
    "entries (fs_root st') = entries (fs_root st)"
    by (rule find_entry_total [OF assms(1), of st, unfolded assms(4)])
  have "inode_table st' = inode_table st" by (rule find_entry_frame(3) [OF f(1)])
  moreover have "\<not> strcmp_eq path ''/''" using strcmp_eq_cstr [OF assms(2), of "''/''"] assms(3) by simp
  ultimately show ?thesis using f(1) assms(5) by (simp add: dcfs_getattr_def get_inode_def Let_def)
qed

text \<open>A file that is not in the table and whose metadata cannot be read takes the call down with it.\<close>

lemma meta_fault:
  assumes "path \<noteq> []" and "NUL \<notin> set path"
    and "List.find (\<lambda>e. strcmp_eq (tl path) (d_filename e)) (entries (fs_root st)) = Some e"
    and "inode_table st (d_hashname e) = None" and "ReadFileMeta E srv (fs_backend st) (d_hashname e) = Fault x"
  shows "dcfs_open E srv st path fh = Fault x" and "path \<noteq> ''/'' \<Longrightarrow> dcfs_getattr E srv st path = Fault x"
proof -
  obtain st' where f: "find_entry st path = Ret (Some e, st')"
    by (rule find_entry_total [OF assms(1), of st, unfolded assms(3)])
  have g: "get_inode E srv st' (d_hashname e) = Fault x"
    using find_entry_frame(3,4) [OF f] assms(4,5) by (simp add: get_inode_def)
  show "dcfs_open E srv st path fh = Fault x" using f g by (simp add: dcfs_open_def)
  show "dcfs_getattr E srv st path = Fault x" if "path \<noteq> ''/''"
    using that f g strcmp_eq_cstr [OF assms(2), of "''/''"] by (simp add: dcfs_getattr_def Let_def)
qed

text \<open>Closing the last reference of an open file: the cache is flushed and the inode released.\<close>

lemma flush_last_reference:
  assumes "handle_inode E srv st path fd = Ret (Some (h, Some ino), st)" and "0 < fd" and "unat fd < length (fd_table st)"
    and "i_ref_count ino = 1" and "FlushCache E srv (ino\<lparr>i_ref_count := 0\<rparr>) (fs_backend st) = Ret (rc, ino', b')"
    and "i_ref_count ino' = 0" and "i_hashname ino' = h"
  shows "dcfs_flush E srv st path fd =
    Ret (0, 0, st\<lparr>fs_backend := b', inode_table := (inode_table st)(h := None), fd_table := (fd_table st)[unat fd := []]\<rparr>)"
  using assms by (simp add: dcfs_flush_def Unref_def Let_def release_inode_def vec_set_def)

text \<open>Opening a file that is not in the table: its inode is made from the metadata and gets a new handle.\<close>

lemma open_reload:
  assumes "path \<noteq> []" and "List.find (\<lambda>e. strcmp_eq (tl path) (d_filename e)) (entries (fs_root st)) = Some e"
    and "d_hashname e = h" and "inode_table st h = None" and "unat (fd_cnt st) < 255" and "length (fd_table st) = 256"
    and "ReadFileMeta E srv (fs_backend st) h = Ret (NO_ERR, recordname, sz, key, bm, b')"
    and "Inode h recordname bm (fs_kb st) 512 sz key = Ret ino"
  obtains st' where "dcfs_open E srv st path fh = Ret (0, fd_cnt st + 1, st')"
    and "handle_inode E srv st' path (fd_cnt st + 1) = Ret (Some (h, Some (Ref ino)), st')" and "fs_backend st' = b'"
    and "entries (fs_root st') = entries (fs_root st)" and "inode_table st' h = Some (Ref ino)"
proof -
  obtain st1 where f: "find_entry st path = Ret (Some e, st1)" "entries (fs_root st1) = entries (fs_root st)"
    by (rule find_entry_total [OF assms(1), of st, unfolded assms(2)])
  note ff = find_entry_frame [OF f(1)]
  have fd: "fd_cnt st1 = fd_cnt st" "fd_table st1 = fd_table st" using ff(1) by (simp_all add: fs_frame_def)
  have u: "unat (fd_cnt st + 1) = Suc (unat (fd_cnt st))" using assms(5) unat_add_lem [of "fd_cnt st" 1] by simp
  define st2 where "st2 = st1\<lparr>fs_backend := b', inode_table := (inode_table st)(h \<mapsto> Ref ino)\<rparr>"
  define st' where "st' = st2\<lparr>fd_cnt := fd_cnt st + 1, fd_table := (fd_table st)[unat (fd_cnt st + 1) := h]\<rparr>"
  have "get_inode E srv st1 h = Ret (Some ino, st1\<lparr>fs_backend := b', inode_table := (inode_table st)(h \<mapsto> ino)\<rparr>)"
    using ff(3-5) assms(4,7,8) by (simp add: get_inode_def)
  moreover have "new_fd st2 h = Ret (fd_cnt st + 1, st')"
    using fd u assms(5,6) by (simp add: new_fd_def Let_def vec_set_def st'_def st2_def)
  ultimately have o: "dcfs_open E srv st path fh = Ret (0, fd_cnt st + 1, st')"
    using f(1) assms(3) by (simp add: dcfs_open_def Let_def st2_def)
  have "0 < fd_cnt st + 1" using u by (simp add: word_less_nat_alt)
  then have "handle_inode E srv st' path (fd_cnt st + 1) = Ret (Some (h, Some (Ref ino)), st')"
    using u assms(5,6) by (intro handle_open_file) (simp_all add: st'_def st2_def)
  then show thesis by (rule that [OF o]) (use f(2) in \<open>simp_all add: st'_def st2_def\<close>)
qed

lemma flush_descs_clean:
  "\<forall>i \<in> set is. i < length (dcache_stats ino) \<and> \<not> is_dirty ino i \<Longrightarrow> flush_descs E ino is = Ret (NO_ERR, [])"
  by (induction "is") (auto simp: vec_at_def is_dirty_def)

text \<open>Without dirty blocks nothing is written.\<close>

lemma flush_clean:
  assumes "\<forall>i. \<not> is_dirty ino i"
  shows "FlushCache E srv ino b = Ret (NO_ERR, drop_caches ino, b)"
proof -
  have "flush_descs E ino [0..<length (dcache_stats ino)] = Ret (NO_ERR, [])"
    using assms by (intro flush_descs_clean) simp
  then show ?thesis by (simp add: FlushCache_def StorageBackend_WriteRecord_def)
qed

text \<open>
  The life of a file is proved once, for every record server that keeps its contract.
\<close>

context record_store
begin

lemma create_capsule:
  assumes "env_ok E" and "inv (be_srv b)" and w: "writable E (be_srv b) [meta_pdu E (mid_tick (be_mid b))]"
  obtains h key b' where "CreateNewFile E srv b = Ret (NO_ERR, h, key, b')"
    and "length h = 32" and "length key = 16" and "inv (be_srv b')" and "known (be_srv b') h"
    and "be_client_key_pair b' = be_client_key_pair b" and "mid_client_key_pair (be_mid b') = mid_client_key_pair (be_mid b)"
    and "symmetric_middleware_key (be_mid b') = symmetric_middleware_key (be_mid b)"
    and "mid_index (be_mid b') = (mid_index (be_mid b))(h \<mapsto> [])" and "mid_tick (be_mid b') = mid_tick (be_mid b) + 2"
    and "h = header_hash (meta_pdu E (mid_tick (be_mid b)))" and "\<forall>r. r \<noteq> h \<longrightarrow> fresh (be_srv b) r \<longrightarrow> fresh (be_srv b') r"
    and "\<forall>c r. r \<noteq> h \<longrightarrow> lookup (be_srv b') c r = lookup (be_srv b) c r" and "\<forall>c. known (be_srv b) c \<longrightarrow> known (be_srv b') c"
proof -
  define p where "p = meta_pdu E (mid_tick (be_mid b))"
  define h where "h = header_hash p"
  have c: "composeRecord E (mid_tick (be_mid b)) META [] None = Ret (NO_ERR, ser_pdu (cdc E) p, h)"
    unfolding p_def h_def by (rule compose_meta [OF env_okD(2) [OF assms(1)]])
  then have h: "length h = 32" using composed_ok [OF assms(1)] by blast
  obtain s' where s': "WriteRecord srv (be_srv b) h h (ser_pdu (cdc E) p) = Ret (NO_ERR, s')" "inv s'" "known s' h"
    "\<forall>r. r \<noteq> h \<longrightarrow> fresh (be_srv b) r \<longrightarrow> fresh s' r" "\<forall>c r. r \<noteq> h \<longrightarrow> lookup s' c r = lookup (be_srv b) c r"
    "\<forall>c. known (be_srv b) c \<longrightarrow> known s' c"
    using write_stores [of "be_srv b" h h "ser_pdu (cdc E) p"] assms(2) w by (auto simp: writable_def h_def p_def)
  obtain key where key: "RAND_bytes (ossl E) (Suc (mid_tick (be_mid b))) = (1, key)" "length key = 16"
    using env_okD(4) [OF assms(1)] unfolding rand_ok_def by blast
  let ?b = "b\<lparr>be_mid := (be_mid b)\<lparr>mid_index := (mid_index (be_mid b))(h \<mapsto> []), mid_tick := Suc (Suc (mid_tick (be_mid b)))\<rparr>, be_srv := s'\<rparr>"
  have "CreateNewFile E srv b = Ret (NO_ERR, h, key, ?b)"
    using c s'(1) key by (simp add: CreateNewFile_def CreateNew_def Let_def generate_symmetric_key_def)
  then show thesis using that [of h key ?b] h key s' by (simp add: h_def p_def)
qed

text \<open>
  A file that is open and has no records yet: \<open>h\<close> is its capsule, \<open>fd\<close> its handle, \<open>e\<close> its
  directory entry.
\<close>

definition new_file :: "env \<Rightarrow> 's fs \<Rightarrow> string \<Rightarrow> string \<Rightarrow> u64 \<Rightarrow> inode \<Rightarrow> bool" where
  "new_file E st path h fd ino \<longleftrightarrow>
     fs_ok st \<and> path \<noteq> [] \<and> NUL \<notin> set path \<and> keys_ok E (fs_backend st) \<and> length h = 32 \<and>
     known (be_srv (fs_backend st)) h \<and> mid_index (be_mid (fs_backend st)) h = Some [] \<and>
     inode_table st h = Some ino \<and> rd.intact E (fs_backend st) ino \<and> (\<forall>i. \<not> is_dirty ino i) \<and>
     i_hashname ino = h \<and> i_ino_recordname ino = [] \<and> i_size ino = 0 \<and> i_ref_count ino = 1 \<and>
     i_block_size ino = fs_kb st * 1024 \<and> unsaved ino \<and>
     0 < fd \<and> unat fd < FD_TABLE_MAX \<and> fd_table st ! unat fd = h \<and>
     List.find (\<lambda>e. strcmp_eq (tl path) (d_filename e)) (entries (fs_root st)) = Some \<lparr>d_filename = tl path, d_hashname = h\<rparr>"

lemma create_new_file:
  assumes E: "env_ok E" and ok: "fs_ok st" and K: "keys_ok E (fs_backend st)" and s: "inv (be_srv (fs_backend st))"
    and path: "path \<noteq> []" "NUL \<notin> set path" and fresh: "tl path \<notin> d_filename ` set (entries (fs_root st))"
    and fd: "unat (fd_cnt st) < 255" and kb: "fs_kb st * 1024 \<noteq> 0"
    and w: "writable E (be_srv (fs_backend st)) [meta_pdu E (mid_tick (be_mid (fs_backend st)))]"
  obtains h ino st' where "dcfs_create E srv st path fh = Ret (0, fd_cnt st + 1, st')"
    and "new_file E st' path h (fd_cnt st + 1) ino"
    and "entries (fs_root st') = entries (fs_root st) @ [\<lparr>d_filename = tl path, d_hashname = h\<rparr>]"
    and "inode_table st' = (inode_table st)(h \<mapsto> ino)" and "fd_cnt st' = fd_cnt st + 1" and "fs_kb st' = fs_kb st"
    and "mid_tick (be_mid (fs_backend st')) = mid_tick (be_mid (fs_backend st)) + 2"
    and "h = header_hash (meta_pdu E (mid_tick (be_mid (fs_backend st))))"
    and "\<forall>r. r \<noteq> h \<longrightarrow> fresh (be_srv (fs_backend st)) r \<longrightarrow> fresh (be_srv (fs_backend st')) r"
    and "\<forall>c r. r \<noteq> h \<longrightarrow> lookup (be_srv (fs_backend st')) c r = lookup (be_srv (fs_backend st)) c r"
    and "fd_table st' = (fd_table st)[unat (fd_cnt st + 1) := h]" and "\<forall>q. rd.file_byte E (fs_backend st') ino q = NUL"
    and "\<forall>c. known (be_srv (fs_backend st)) c \<longrightarrow> known (be_srv (fs_backend st')) c"
    and "mid_index (be_mid (fs_backend st')) = (mid_index (be_mid (fs_backend st)))(h \<mapsto> [])"
    and "symmetric_middleware_key (be_mid (fs_backend st')) = symmetric_middleware_key (be_mid (fs_backend st))"
proof -
  have tlp: "NUL \<notin> set (tl path)" using path by (meson list.set_sel(2))
  have ne: "\<forall>e \<in> set (entries (fs_root st)). \<not> strcmp_eq (tl path) (d_filename e)"
    using fresh ok tlp strcmp_eq_cstr by (auto simp: fs_ok_def)
  have none: "List.find (\<lambda>e. strcmp_eq (tl path) (d_filename e)) (entries (fs_root st)) = None"
    using ne by (auto simp: find_None_iff)
  obtain st1 where f: "find_entry st path = Ret (None, st1)" "st1 = st\<lparr>fs_root := fs_root st1\<rparr>"
    "entries (fs_root st1) = entries (fs_root st)"
    by (rule find_entry_total [OF path(1), of st, unfolded none])
  note ff = find_entry_frame [OF f(1)]
  obtain h key b' where c: "CreateNewFile E srv (fs_backend st) = Ret (NO_ERR, h, key, b')"
    "length h = 32" "length key = 16" "inv (be_srv b')" "known (be_srv b') h"
    "be_client_key_pair b' = be_client_key_pair (fs_backend st)" "mid_client_key_pair (be_mid b') = mid_client_key_pair (be_mid (fs_backend st))"
    "symmetric_middleware_key (be_mid b') = symmetric_middleware_key (be_mid (fs_backend st))"
    "mid_index (be_mid b') = (mid_index (be_mid (fs_backend st)))(h \<mapsto> [])" "mid_tick (be_mid b') = mid_tick (be_mid (fs_backend st)) + 2"
    "h = header_hash (meta_pdu E (mid_tick (be_mid (fs_backend st))))"
    "\<forall>r. r \<noteq> h \<longrightarrow> fresh (be_srv (fs_backend st)) r \<longrightarrow> fresh (be_srv b') r"
    "\<forall>c r. r \<noteq> h \<longrightarrow> lookup (be_srv b') c r = lookup (be_srv (fs_backend st)) c r"
    "\<forall>c. known (be_srv (fs_backend st)) c \<longrightarrow> known (be_srv b') c"
    by (rule create_capsule [OF E s w])
  obtain ino where i: "Inode_fresh h (fs_kb st) 512 key = Ret ino"
    using kb by (simp add: Inode_fresh_def Inode_def Let_def)
  note I = Inode_ok [OF i [unfolded Inode_fresh_def] c(3)]
  have fields: "i_hashname ino = h" "i_ino_recordname ino = []" "i_size ino = 0" "i_ref_count ino = 0" "i_block_size ino = fs_kb st * 1024"
    using arg_cong [OF I(4), of i_hashname] arg_cong [OF I(4), of i_ino_recordname] arg_cong [OF I(4), of i_size]
      arg_cong [OF I(4), of i_ref_count] arg_cong [OF I(4), of i_block_size] by simp_all
  have a: "allocate_inode E srv st1 = Ret (Some ino, st1\<lparr>fs_backend := b', inode_table := (inode_table st)(h \<mapsto> ino)\<rparr>)"
    using c(1) i ff by (simp add: allocate_inode_def)
  let ?e = "\<lparr>d_filename = tl path, d_hashname = h\<rparr>"
  define st2 where "st2 = st1\<lparr>fs_backend := b', inode_table := (inode_table st)(h \<mapsto> Ref ino), fs_root := snd (Addent (fs_root st1) ?e)\<rparr>"
  have fd1: "fd_cnt st1 = fd_cnt st" "fd_table st1 = fd_table st" "length (fd_table st) = 256" "fs_kb st1 = fs_kb st"
    using ff(1,5) ok by (simp_all add: fs_frame_def fs_ok_def)
  have u: "unat (fd_cnt st + 1) = Suc (unat (fd_cnt st))" using fd unat_add_lem [of "fd_cnt st" 1] by simp
  define st' where "st' = st2\<lparr>fd_cnt := fd_cnt st + 1, fd_table := (fd_table st)[unat (fd_cnt st + 1) := h]\<rparr>"
  have n: "new_fd st2 h = Ret (fd_cnt st + 1, st')"
    using fd fd1 u by (simp add: new_fd_def Let_def vec_set_def st2_def st'_def)
  have cr: "dcfs_create E srv st path fh = Ret (0, fd_cnt st + 1, st')"
    using f(1) a n path(1) fields(1) by (simp add: dcfs_create_def Let_def st2_def)
  have "fs_ok st'" by (rule create_ok [OF E path(2) ok cr])
  moreover have "keys_ok E b'" using K c(6-8) by (simp add: keys_ok_def)
  moreover have "\<forall>q. rd.file_byte E b' (Ref ino) q = NUL" using rd.fresh_intact(2) [OF _ i c(3)] c(4) by (simp add: Ref_def)
  moreover have "rd.intact E b' (Ref ino)" using rd.fresh_intact(1) [OF _ i c(3)] c(4) by (simp add: Ref_def)
  moreover have "List.find (\<lambda>e. strcmp_eq (tl path) (d_filename e)) (entries (fs_root st) @ [?e]) = Some ?e"
    using find_append_new [OF ne, of ?e] by simp
  moreover have "unsaved (Ref ino)" using fresh_unsaved [OF i] by (simp add: unsaved_def Ref_def)
  moreover have "0 < fd_cnt st + 1" using u by (simp add: word_less_nat_alt)
  ultimately have "new_file E st' path h (fd_cnt st + 1) (Ref ino)" "\<forall>q. rd.file_byte E (fs_backend st') (Ref ino) q = NUL"
    using path c(2,5,9) I(3) fields fd fd1 u f(3)
    by (simp_all add: new_file_def st'_def st2_def Addent_entries) (simp add: Ref_def)
  then show thesis
    using that [OF cr] f(3) fd1 c(8-14) by (simp add: st'_def st2_def Addent_entries)
qed

lemma write_new_file:
  assumes E: "env_ok E" and N: "new_file E st path h fd ino" and n: "0 < n"
    and src: "unat n + overrun (BlockSize ino) 0 (unat n) \<le> length src"
  obtains ino1 where "dcfs_write E srv st path src n 0 fd = Ret (int_of n, st\<lparr>inode_table := (inode_table st)(h \<mapsto> ino1)\<rparr>)"
    and "rd.intact E (fs_backend st) ino1" and "meta ino1 = (meta ino)\<lparr>i_size := n\<rparr>"
    and "\<forall>i. is_dirty ino1 i \<longleftrightarrow> i < Suc (unat n div BlockSize ino)"
    and "\<forall>q < unat n. rd.file_byte E (fs_backend st) ino1 q = src ! q"
proof -
  have N': "rd.intact E (fs_backend st) ino" "i_size ino = 0" "\<forall>i. \<not> is_dirty ino i" "inode_table st h = Some ino"
    "0 < fd" "unat fd < 256" "fd_table st ! unat fd = h" "fs_ok st" "unsaved ino"
    using N by (simp_all add: new_file_def)
  have h: "handle_inode E srv st path fd = Ret (Some (h, Some ino), st)"
    using N' fd_table_length [OF N'(8)] by (intro handle_open_file) auto
  obtain ino1 b1 where w: "Inode_Write E srv ino (fs_backend st) src 0 n = Ret (NO_ERR, n, ino1, b1)"
    "rd.intact E b1 ino1" "meta ino1 = (meta ino)\<lparr>i_size := max (i_size ino) (0 + n)\<rparr>"
    "\<forall>q. rd.file_byte E b1 ino1 q = (if unat (0 :: u64) \<le> q \<and> q < unat (0 :: u64) + unat n + overrun (BlockSize ino) (unat (0 :: u64)) (unat n)
        then src ! (q - unat (0 :: u64)) else rd.file_byte E (fs_backend st) ino q)"
    "\<forall>i. is_dirty ino1 i \<longleftrightarrow> is_dirty ino i \<or> unat (0 :: u64) div BlockSize ino \<le> i \<and> i \<le> (unat (0 :: u64) + unat n) div BlockSize ino"
    using rd.inode_write_ok [OF N'(1) E n, where offset = 0 and at = 0 and src = src] N'(2) src unsigned_less [of n] by auto
  have b: "b1 = fs_backend st" by (rule Inode_Write_unsaved [OF N'(9) w(1)])
  have "dcfs_write E srv st path src n 0 fd = Ret (int_of n, st\<lparr>inode_table := (inode_table st)(h \<mapsto> ino1)\<rparr>)"
    using h w(1) b by (simp add: dcfs_write_def Let_def)
  then show thesis
    using that [of ino1] w(2-5) b N'(2,3) by (auto simp: less_Suc_eq_le)
qed

text \<open>Flushing a file whose first \<open>k\<close> blocks are dirty, through the handle, and opening it by its path.\<close>

text \<open>Flushing a new file to which nothing was written writes no record and releases the inode.\<close>

lemma flush_empty_file:
  assumes N: "new_file E st path h fd ino"
  obtains st3 where "dcfs_flush E srv st path fd = Ret (0, 0, st3)" and "fs_backend st3 = fs_backend st"
    and "inode_table st3 h = None" and "fs_root st3 = fs_root st"
proof -
  have N': "inode_table st h = Some ino" "0 < fd" "unat fd < 256" "fd_table st ! unat fd = h" "fs_ok st"
    "i_hashname ino = h" "i_ref_count ino = 1" "\<forall>i. \<not> is_dirty ino i"
    using N by (simp_all add: new_file_def)
  have len: "length (fd_table st) = 256" by (rule fd_table_length [OF N'(5)])
  have hd1: "handle_inode E srv st path fd = Ret (Some (h, Some ino), st)"
    using N' len by (intro handle_open_file) auto
  define ino0 where "ino0 = ino\<lparr>i_ref_count := 0\<rparr>"
  have f: "FlushCache E srv (ino\<lparr>i_ref_count := 0\<rparr>) (fs_backend st) = Ret (NO_ERR, drop_caches ino0, fs_backend st)"
    using N'(8) flush_clean [of ino0] by (simp add: ino0_def)
  have "i_ref_count (drop_caches ino0) = 0" "i_hashname (drop_caches ino0) = h"
    using meta_eqD [OF drop_caches_inv(2)] N'(6) by (simp_all add: ino0_def)
  from flush_last_reference [OF hd1 N'(2) _ N'(7) f this] N'(3) len show thesis by (simp add: that)
qed

lemma flush_open_new_file:
  assumes E: "env_ok E" and N: "new_file E st path h fd ino"
    and st1: "st1 = st\<lparr>inode_table := (inode_table st)(h \<mapsto> ino1)\<rparr>" and I: "rd.intact E (fs_backend st) ino1"
    and m: "meta ino1 = (meta ino)\<lparr>i_size := n\<rparr>" and k: "\<forall>i. is_dirty ino1 i \<longleftrightarrow> i < k" "0 < k" "k \<le> 512"
    and bs: "BlockSize ino \<le> 16384" and fdc: "unat (fd_cnt st) < 255"
    and w: "writable E (be_srv (fs_backend st1)) (first_batch E st1 h)"
    and rv: "\<forall>p \<in> set (first_batch E st1 h). rvalid (header_hash p) (ser_pdu (cdc E) p)"
    and nz: "\<forall>p \<in> set (first_batch E st1 h). hd (header_hash p) \<noteq> NUL"
  obtains st2 st3 ino2 where "dcfs_flush E srv st1 path fd = Ret (0, 0, st2)" and "inode_table st2 h = None"
    and "dcfs_open E srv st2 path fh = Ret (0, fd_cnt st + 1, st3)"
    and "handle_inode E srv st3 path (fd_cnt st + 1) = Ret (Some (h, Some ino2), st3)"
    and "rd.intact E (fs_backend st3) ino2" and "i_size ino2 = of_nat k * 16 * 1024" and "BlockSize ino2 = BlockSize ino"
    and "\<forall>q < k * BlockSize ino. rd.file_byte E (fs_backend st3) ino2 q = rd.file_byte E (fs_backend st) ino1 q"
    and "entries (fs_root st3) = entries (fs_root st)" and "inode_table st3 h = Some ino2"
proof -
  have N': "keys_ok E (fs_backend st)" "length h = 32" "known (be_srv (fs_backend st)) h" "mid_index (be_mid (fs_backend st)) h = Some []"
    "0 < fd" "unat fd < 256" "fd_table st ! unat fd = h" "fs_ok st" "path \<noteq> []"
    "i_hashname ino = h" "i_ino_recordname ino = []" "i_ref_count ino = 1" "i_block_size ino = fs_kb st * 1024"
    "List.find (\<lambda>e. strcmp_eq (tl path) (d_filename e)) (entries (fs_root st)) = Some \<lparr>d_filename = tl path, d_hashname = h\<rparr>"
    using N by (simp_all add: new_file_def)
  have "meta ino1 = meta (ino\<lparr>i_size := n\<rparr>)" using m by simp
  note m1 = meta_eqD [OF this]
  define ino0 where "ino0 = ino1\<lparr>i_ref_count := 0\<rparr>"
  have ino0: "rd.intact E (fs_backend st) ino0" "i_hashname ino0 = h" "i_ino_recordname ino0 = []"
    "\<forall>i. is_dirty ino0 i \<longleftrightarrow> i < k" "i_block_size ino0 = fs_kb st * 1024" "BlockSize ino0 = BlockSize ino" "i_aes_key ino0 = i_aes_key ino1"
    using I m1 N' k(1) by (simp_all add: ino0_def)
  define recs where "recs = first_batch E st1 h"
  have recs: "recs = batch_records E (mid_tick (be_mid (fs_backend st))) h h h []
      (sealed_key E (symmetric_middleware_key (be_mid (fs_backend st))) (i_aes_key ino0)) (map (cipher E ino0) [0..<k])"
    using dirty_prefix [OF k(1)] by (simp add: recs_def first_batch_def st1 Let_def ino0_def)
  have nz': "\<forall>i < k. hd (header_hash (recs ! i)) \<noteq> NUL"
    using nz recs unfolding recs_def [symmetric] by (auto intro!: nth_mem)
  have w': "writable E (be_srv (fs_backend st)) recs" using w by (simp add: recs_def st1)
  obtain b' s2 ino2 where fl: "FlushCache E srv ino0 (fs_backend st) = Ret (NO_ERR, drop_caches ino0, b')"
    "keys_ok E b'" "mid_index (be_mid b') = (mid_index (be_mid (fs_backend st)))(h \<mapsto> header_hash (last recs))"
    "ReadFileMeta E srv b' h = Ret (NO_ERR, header_hash (last recs), of_nat k * 16 * 1024, i_aes_key ino0, header_hash (recs ! k), b'\<lparr>be_srv := s2\<rparr>)"
    "Inode h (header_hash (last recs)) (header_hash (recs ! k)) (fs_kb st) 512 (of_nat k * 16 * 1024) (i_aes_key ino0) = Ret ino2"
    "rd.intact E (b'\<lparr>be_srv := s2\<rparr>) ino2" "BlockSize ino2 = BlockSize ino0"
    "\<forall>q < k * BlockSize ino0. rd.file_byte E (b'\<lparr>be_srv := s2\<rparr>) ino2 q = rd.file_byte E (fs_backend st) ino0 q"
    by (rule flush_reopen [OF E N'(1) ino0(1) N'(2) ino0(2) N'(3,4) ino0(3,4) k(2,3) ino0(5) _ recs w' rv [folded recs_def] nz'])
       (use ino0(6) bs in simp)
  have hd1: "handle_inode E srv st1 path fd = Ret (Some (h, Some ino1), st1)"
    using N' fd_table_length [OF N'(8)] by (intro handle_open_file) (auto simp: st1)
  have len: "length (fd_table st) = 256" by (rule fd_table_length [OF N'(8)])
  define st2 where "st2 = st1\<lparr>fs_backend := b', inode_table := (inode_table st1)(h := None), fd_table := (fd_table st1)[unat fd := []]\<rparr>"
  have dc: "i_ref_count (drop_caches ino0) = 0" "i_hashname (drop_caches ino0) = h"
    using meta_eqD [OF drop_caches_inv(2), of ino0] ino0(2) by (simp_all add: ino0_def)
  have f: "dcfs_flush E srv st1 path fd = Ret (0, 0, st2)"
    unfolding st2_def by (rule flush_last_reference [OF hd1 N'(5) _ _ _ dc]) (use N'(6,12) len m1(8) fl(1) in \<open>simp_all add: st1 ino0_def\<close>)
  have st2: "entries (fs_root st2) = entries (fs_root st)" "inode_table st2 h = None" "fs_backend st2 = b'" "fd_cnt st2 = fd_cnt st"
    "length (fd_table st2) = 256" "fs_kb st2 = fs_kb st"
    using len by (simp_all add: st2_def st1)
  obtain st3 where o: "dcfs_open E srv st2 path fh = Ret (0, fd_cnt st2 + 1, st3)"
    "handle_inode E srv st3 path (fd_cnt st2 + 1) = Ret (Some (h, Some (Ref ino2)), st3)" "fs_backend st3 = b'\<lparr>be_srv := s2\<rparr>"
    "entries (fs_root st3) = entries (fs_root st2)" "inode_table st3 h = Some (Ref ino2)"
    by (rule open_reload [OF N'(9) N'(14) [folded st2(1)] _ st2(2) _ st2(5) fl(4) [folded st2(3)] fl(5) [folded st2(6)], of fh])
       (use fdc st2(3,4) in simp_all)
  have sz: "i_size ino2 = of_nat k * 16 * 1024"
    using arg_cong [OF Inode_ok(4) [OF fl(5)], of i_size] inode_okD(2) [of ino0] ino0(1) by (simp add: rd.intact_def)
  show thesis
    by (rule that [OF f st2(2) o(1) [unfolded st2(4)] o(2) [unfolded st2(4)]])
      (use o(3-5) st2(1) fl(6-8) ino0 sz in \<open>simp_all add: Ref_def ino0_def\<close>)
qed

text \<open>Reading through an open handle, inside the file or up to its end.\<close>

lemma read_open_file:
  assumes E: "env_ok E" and h: "handle_inode E srv st path fh = Ret (Some (h, Some ino), st)" and I: "rd.intact E (fs_backend st) ino"
    and sz: "0 < sz" "unat offset + unat sz < 2 ^ 64" and len: "offset < i_size ino"
    and n: "n = (if i_size ino < offset + sz then i_size ino - offset else sz)" "unat n < 2 ^ 31"
    and dst: "unat n + overrun (BlockSize ino) (unat offset) (unat n) \<le> length dst"
  obtains dst' ino' b' where "dcfs_read E srv st path dst sz offset fh =
      Ret (int (unat n), dst', st\<lparr>fs_backend := b', inode_table := (inode_table st)(h \<mapsto> ino')\<rparr>)"
    and "rd.loads E ino (fs_backend st) ino' b'" and "length dst' = length dst"
    and "\<forall>x < unat n. dst' ! x = rd.file_byte E (fs_backend st) ino (unat offset + x)"
proof -
  have e: "unat (offset + sz) = unat offset + unat sz" using sz(2) unat_add_lem [of offset sz] by simp
  have n': "0 < n" "unat offset + unat n \<le> unat (i_size ino)"
    using len e sz(1) by (auto simp: n(1) word_less_nat_alt unat_sub_if_size)
  obtain dst' ino' b' where r: "Inode_Read E srv ino (fs_backend st) dst offset n = Ret (NO_ERR, Some n, dst', ino', b')"
    "rd.loads E ino (fs_backend st) ino' b'" "length dst' = length dst"
    "\<forall>x < unat n. dst' ! x = rd.file_byte E (fs_backend st) ino (unat offset + x)"
    using rd.inode_read_ok [OF I E n' dst] by blast
  have "dcfs_read E srv st path dst sz offset fh =
      Ret (int (unat n), dst', st\<lparr>fs_backend := b', inode_table := (inode_table st)(h \<mapsto> ino')\<rparr>)"
    using h len r(1) int_of_small [OF n(2)] by (simp add: dcfs_read_def Let_def n(1) [symmetric])
  then show thesis by (rule that [OF _ r(2-4)])
qed

text \<open>The records of the first flush are composed records of bounded size.\<close>

lemma first_batch_small:
  assumes E: "env_ok E" and h: "length h = 32" "keys_ok E (fs_backend st)" and I: "rd.intact E (fs_backend st) ino1"
    and ino1: "inode_table st h = Some ino1"
    and k: "\<forall>i. is_dirty ino1 i \<longleftrightarrow> i < k" "0 < k" "k \<le> 512" and bs: "BlockSize ino1 \<le> 16384"
  shows "\<forall>p \<in> set (first_batch E st h). \<exists>k t hs d. p = record_pdu E k t hs d \<and> (\<forall>h \<in> set hs. length h \<le> 32) \<and>
      length hs \<le> 2 \<and> d \<noteq> [] \<and> length d < 2 ^ 30"
proof
  fix p assume p: "p \<in> set (first_batch E st h)"
  let ?m = "be_mid (fs_backend st)" and ?cs = "map (cipher E ino1) [0..<k]"
  have f: "first_batch E st h = batch_records E (mid_tick ?m) h h h [] (sealed_key E (symmetric_middleware_key ?m) (i_aes_key ino1)) ?cs"
    using dirty_prefix [OF k(1)] by (simp add: first_batch_def ino1 Let_def)
  have ok: "inode_ok ino1" "\<forall>i < k. is_cached ino1 i" using I k(1) by (auto simp: rd.intact_def)
  have cs: "\<forall>d \<in> set ?cs. d \<noteq> [] \<and> length d \<le> 16400"
    using cipher_ok(2) [OF E ok(1) disjI1] ok(2) bs by fastforce
  note sl = sealed_key_length(1) [OF E keys_okD [OF h(2)] inode_okD(2) [OF ok(1)]]
  show "\<exists>k t hs d. p = record_pdu E k t hs d \<and> (\<forall>h \<in> set hs. length h \<le> 32) \<and> length hs \<le> 2 \<and> d \<noteq> [] \<and> length d < 2 ^ 30"
    by (rule batch_record_small [OF E h(1,1,1) sl _ cs _ _ p [unfolded f]]) (use k in auto)
qed

text \<open>A new file with \<open>n\<close> bytes in its cache: closed, opened again and read.\<close>

lemma close_open_read:
  assumes E: "env_ok E" and N: "new_file E st1 path h fd ino" and st2: "st2 = st1\<lparr>inode_table := (inode_table st1)(h \<mapsto> ino1)\<rparr>"
    and I: "rd.intact E (fs_backend st1) ino1" and m: "meta ino1 = (meta ino)\<lparr>i_size := n\<rparr>" and k: "k = Suc (unat n div bs)"
    and d: "\<forall>i. is_dirty ino1 i \<longleftrightarrow> i < k" and bytes: "\<forall>q < unat n. rd.file_byte E (fs_backend st1) ino1 q = src ! q"
    and bs: "BlockSize ino = bs" "0 < bs" "bs \<le> 16384" and n: "0 < n" "unat n < 2 ^ 31" "unat n div bs < 512" and fd: "unat (fd_cnt st1) < 255"
    and src: "unat n + overrun bs 0 (unat n) \<le> length src" and dst: "unat n + overrun bs 0 (unat n) \<le> length dst"
    and b: "writable E (be_srv (fs_backend st2)) (first_batch E st2 h)"
      "\<forall>p \<in> set (first_batch E st2 h). rvalid (header_hash p) (ser_pdu (cdc E) p)" "\<forall>p \<in> set (first_batch E st2 h). hd (header_hash p) \<noteq> NUL"
  shows "\<exists>st3 st4 dst' st5. dcfs_flush E srv st2 path fd = Ret (0, 0, st3) \<and>
    dcfs_open E srv st3 path 0 = Ret (0, fd_cnt st1 + 1, st4) \<and>
    dcfs_read E srv st4 path dst n 0 (fd_cnt st1 + 1) = Ret (int (unat n), dst', st5) \<and> take (unat n) dst' = take (unat n) src \<and>
    (path \<noteq> ''/'' \<longrightarrow> (\<exists>a st6. dcfs_getattr E srv st4 path = Ret (0, a, st6) \<and> st_size a = of_nat (unat n div bs + 1) * 16 * 1024))"
proof -
  have k1: "0 < k" "k \<le> 512" "BlockSize ino \<le> 16384" using n(3) bs(1,3) by (simp_all add: k)
  have path: "path \<noteq> []" "NUL \<notin> set path" using N by (simp_all add: new_file_def)
  obtain st3 st4 ino2 where f: "dcfs_flush E srv st2 path fd = Ret (0, 0, st3)" "inode_table st3 h = None"
    "dcfs_open E srv st3 path 0 = Ret (0, fd_cnt st1 + 1, st4)"
    "handle_inode E srv st4 path (fd_cnt st1 + 1) = Ret (Some (h, Some ino2), st4)"
    "rd.intact E (fs_backend st4) ino2" "i_size ino2 = of_nat k * 16 * 1024" "BlockSize ino2 = BlockSize ino"
    "\<forall>q < k * BlockSize ino. rd.file_byte E (fs_backend st4) ino2 q = rd.file_byte E (fs_backend st1) ino1 q"
    "entries (fs_root st4) = entries (fs_root st1)" "inode_table st4 h = Some ino2"
    by (rule flush_open_new_file [where fh = 0, OF E N st2 I m d k1 fd b])
  have sz: "unat (i_size ino2) = k * 16384" using f(6) k1 by (simp add: unat_word_ariths unat_of_nat)
  have "unat n < k * bs" using bs(2) dividend_less_div_times [of bs "unat n"] by (simp add: k)
  also have "\<dots> \<le> k * 16384" using bs(3) by simp
  finally have nk: "unat n < k * bs" "unat n < k * 16384" using \<open>unat n < k * bs\<close> by simp_all
  have lt: "0 < i_size ino2" "\<not> i_size ino2 < n" using sz nk by (simp_all add: word_less_nat_alt k)
  obtain dst' ino3 b3 where rd: "dcfs_read E srv st4 path dst n 0 (fd_cnt st1 + 1) =
      Ret (int (unat n), dst', st4\<lparr>fs_backend := b3, inode_table := (inode_table st4)(h \<mapsto> ino3)\<rparr>)"
    "length dst' = length dst" "\<forall>x < unat n. dst' ! x = rd.file_byte E (fs_backend st4) ino2 (unat (0 :: u64) + x)"
    by (rule read_open_file [OF E f(4,5) n(1) _ lt(1) _ n(2), of dst]) (use lt(2) f(7) bs(1) dst unsigned_less [of n] in auto)
  have t: "take (unat n) dst' = take (unat n) src"
    using rd(2,3) f(8) bytes src dst nk(1) bs(1) by (intro nth_equalityI) auto
  have e: "List.find (\<lambda>e. strcmp_eq (tl path) (d_filename e)) (entries (fs_root st4)) = Some \<lparr>d_filename = tl path, d_hashname = h\<rparr>"
    using N f(9) by (simp add: new_file_def)
  have "\<exists>a st6. dcfs_getattr E srv st4 path = Ret (0, a, st6) \<and> st_size a = of_nat (unat n div bs + 1) * 16 * 1024" if "path \<noteq> ''/''"
    using getattr_known [OF path that e, of ino2 E srv] f(6,10) by (auto simp: k)
  then show ?thesis using f(1,3) rd(1) t by blast
qed

lemma file_life:
  assumes E: "env_ok E" and ok: "fs_ok st" and K: "keys_ok E (fs_backend st)" and s: "inv (be_srv (fs_backend st))"
    and path: "path \<noteq> []" "NUL \<notin> set path" and fresh: "tl path \<notin> d_filename ` set (entries (fs_root st))"
    and fd: "unat (fd_cnt st) < 254" and bs: "bs = unat (fs_kb st * 1024)" "0 < bs" "bs \<le> 16384"
    and n: "0 < n" "unat n < 2 ^ 31" "unat n div bs < 512"
    and wm: "writable E (be_srv (fs_backend st)) [meta_pdu E (mid_tick (be_mid (fs_backend st)))]"
    and src: "unat n + overrun bs 0 (unat n) \<le> length src" and dst: "unat n + overrun bs 0 (unat n) \<le> length dst"
  obtains h st1 st2 where "dcfs_create E srv st path fh = Ret (0, fd_cnt st + 1, st1)"
    and "dcfs_write E srv st1 path src n 0 (fd_cnt st + 1) = Ret (int (unat n), st2)"
    and "length (first_batch E st2 h) = unat n div bs + 3"
    and "mid_tick (be_mid (fs_backend st2)) = mid_tick (be_mid (fs_backend st)) + 2"
    and "h = header_hash (meta_pdu E (mid_tick (be_mid (fs_backend st))))"
    and "\<forall>r. r \<noteq> h \<longrightarrow> fresh (be_srv (fs_backend st)) r \<longrightarrow> fresh (be_srv (fs_backend st2)) r"
    and "\<forall>p \<in> set (first_batch E st2 h). \<exists>k t hs d. p = record_pdu E k t hs d \<and> (\<forall>h \<in> set hs. length h \<le> 32) \<and>
      length hs \<le> 2 \<and> d \<noteq> [] \<and> length d < 2 ^ 30"
    and "writable E (be_srv (fs_backend st2)) (first_batch E st2 h) \<Longrightarrow>
      \<forall>p \<in> set (first_batch E st2 h). rvalid (header_hash p) (ser_pdu (cdc E) p) \<Longrightarrow>
      \<forall>p \<in> set (first_batch E st2 h). hd (header_hash p) \<noteq> NUL \<Longrightarrow>
      \<exists>st3 st4 dst' st5. dcfs_flush E srv st2 path (fd_cnt st + 1) = Ret (0, 0, st3) \<and>
        dcfs_open E srv st3 path 0 = Ret (0, fd_cnt st + 2, st4) \<and>
        dcfs_read E srv st4 path dst n 0 (fd_cnt st + 2) = Ret (int (unat n), dst', st5) \<and>
        take (unat n) dst' = take (unat n) src \<and>
        (path \<noteq> ''/'' \<longrightarrow> (\<exists>a st6. dcfs_getattr E srv st4 path = Ret (0, a, st6) \<and>
           st_size a = of_nat (unat n div bs + 1) * 16 * 1024))"
proof -
  have kb: "fs_kb st * 1024 \<noteq> 0" using bs by auto
  obtain h ino st1 where c: "dcfs_create E srv st path fh = Ret (0, fd_cnt st + 1, st1)"
    "new_file E st1 path h (fd_cnt st + 1) ino"
    "entries (fs_root st1) = entries (fs_root st) @ [\<lparr>d_filename = tl path, d_hashname = h\<rparr>]"
    "inode_table st1 = (inode_table st)(h \<mapsto> ino)" "fd_cnt st1 = fd_cnt st + 1" "fs_kb st1 = fs_kb st"
    "mid_tick (be_mid (fs_backend st1)) = mid_tick (be_mid (fs_backend st)) + 2"
    "h = header_hash (meta_pdu E (mid_tick (be_mid (fs_backend st))))"
    "\<forall>r. r \<noteq> h \<longrightarrow> fresh (be_srv (fs_backend st)) r \<longrightarrow> fresh (be_srv (fs_backend st1)) r"
    "\<forall>c r. r \<noteq> h \<longrightarrow> lookup (be_srv (fs_backend st1)) c r = lookup (be_srv (fs_backend st)) c r"
    "fd_table st1 = (fd_table st)[unat (fd_cnt st + 1) := h]" "\<forall>q. rd.file_byte E (fs_backend st1) ino q = NUL"
    "\<forall>c. known (be_srv (fs_backend st)) c \<longrightarrow> known (be_srv (fs_backend st1)) c"
    "mid_index (be_mid (fs_backend st1)) = (mid_index (be_mid (fs_backend st)))(h \<mapsto> [])"
    "symmetric_middleware_key (be_mid (fs_backend st1)) = symmetric_middleware_key (be_mid (fs_backend st))"
    by (rule create_new_file [OF E ok K s path fresh _ kb wm]) (use fd in simp)
  have bsi: "BlockSize ino = bs" using c(2,6) bs(1) by (simp add: new_file_def BlockSize_def)
  note src' = src [folded bsi]
  obtain ino1 where w: "dcfs_write E srv st1 path src n 0 (fd_cnt st + 1) = Ret (int_of n, st1\<lparr>inode_table := (inode_table st1)(h \<mapsto> ino1)\<rparr>)"
    "rd.intact E (fs_backend st1) ino1" "meta ino1 = (meta ino)\<lparr>i_size := n\<rparr>"
    "\<forall>i. is_dirty ino1 i \<longleftrightarrow> i < Suc (unat n div BlockSize ino)"
    "\<forall>q < unat n. rd.file_byte E (fs_backend st1) ino1 q = src ! q"
    by (rule write_new_file [OF E c(2) n(1) src'])
  define st2 where "st2 = st1\<lparr>inode_table := (inode_table st1)(h \<mapsto> ino1)\<rparr>"
  define k where "k = Suc (unat n div bs)"
  note w4 = w(4) [unfolded bsi, folded k_def]
  have len: "length (first_batch E st2 h) = unat n div bs + 3"
    using dirty_prefix [OF w4] by (simp add: first_batch_def st2_def Let_def k_def)
  have e: "fd_cnt st1 + 1 = fd_cnt st + 2" by (simp add: c(5))
  have fd1: "unat (fd_cnt st1) < 255" using c(5) fd unat_add_lem [of "fd_cnt st" 1] by simp
  have k1: "0 < k" "k \<le> 512" "BlockSize ino \<le> 16384" using n(3) bs(3) bsi by (simp_all add: k_def)
  have bs1: "BlockSize ino1 = bs" using meta_eqD(9) [of ino1 "ino\<lparr>i_size := n\<rparr>"] w(3) bsi by simp
  show thesis
  proof (rule that [OF c(1) _ len])
    show "dcfs_write E srv st1 path src n 0 (fd_cnt st + 1) = Ret (int (unat n), st2)"
      using w(1) int_of_small [OF n(2)] by (simp add: st2_def)
    show "mid_tick (be_mid (fs_backend st2)) = mid_tick (be_mid (fs_backend st)) + 2" using c(7) by (simp add: st2_def)
    show "h = header_hash (meta_pdu E (mid_tick (be_mid (fs_backend st))))" by (rule c(8))
    show "\<forall>r. r \<noteq> h \<longrightarrow> fresh (be_srv (fs_backend st)) r \<longrightarrow> fresh (be_srv (fs_backend st2)) r"
      using c(9) by (simp add: st2_def)
    show "\<forall>p \<in> set (first_batch E st2 h). \<exists>k t hs d. p = record_pdu E k t hs d \<and> (\<forall>h \<in> set hs. length h \<le> 32) \<and>
      length hs \<le> 2 \<and> d \<noteq> [] \<and> length d < 2 ^ 30"
      by (rule first_batch_small [OF E _ _ _ _ w4 k1(1,2)]) (use c(2) w(2) bs(3) bs1 in \<open>simp_all add: new_file_def st2_def\<close>)
    assume b: "writable E (be_srv (fs_backend st2)) (first_batch E st2 h)"
      "\<forall>p \<in> set (first_batch E st2 h). rvalid (header_hash p) (ser_pdu (cdc E) p)" "\<forall>p \<in> set (first_batch E st2 h). hd (header_hash p) \<noteq> NUL"
    show "\<exists>st3 st4 dst' st5. dcfs_flush E srv st2 path (fd_cnt st + 1) = Ret (0, 0, st3) \<and>
        dcfs_open E srv st3 path 0 = Ret (0, fd_cnt st + 2, st4) \<and>
        dcfs_read E srv st4 path dst n 0 (fd_cnt st + 2) = Ret (int (unat n), dst', st5) \<and>
        take (unat n) dst' = take (unat n) src \<and>
        (path \<noteq> ''/'' \<longrightarrow> (\<exists>a st6. dcfs_getattr E srv st4 path = Ret (0, a, st6) \<and>
           st_size a = of_nat (unat n div bs + 1) * 16 * 1024))"
      using close_open_read [OF E c(2) st2_def w(2,3) k_def w4 w(5) bsi bs(2,3) n fd1 src dst b] unfolding e .
  qed
qed

end

text \<open>On the simulated server only the names have to be distinct.\<close>

lemma sim_meta_writable: "sha_ok (ossl E) \<Longrightarrow> sim.writable E s [meta_pdu E n]"
  using length_digest [of E "ser_header (cdc E) (record_header E n META [] ''0'')"]
  by (auto simp: sim.writable_def meta_pdu_def Let_def)

lemma sim_first_batch:
  assumes "sha_ok (ossl E)" and "distinct (map header_hash (first_batch E st h))"
  shows "sim.writable E s (first_batch E st h)" and "\<forall>p \<in> set (first_batch E st h). header_hash p \<noteq> []"
  using sim_writable [OF assms] batch_name_nonempty [OF assms(1)] by (auto simp: first_batch_def Let_def)

section \<open>A concrete mount\<close>

definition sample_fs :: "dcserver_sim fs" where
  "sample_fs = dcfs_init sample_env main_defaults sim_init"

lemma sample_fs_simps [simp]:
  "fs_root sample_fs = Directory" "fd_cnt sample_fs = 10" "fs_kb sample_fs = 16" "inode_table sample_fs = Map.empty"
  "be_srv (fs_backend sample_fs) = sim_init" "fd_table sample_fs = replicate 256 []"
  by (simp_all add: sample_fs_def dcfs_init_def LoadRoot_def main_defaults_def StorageBackend_def Let_def)

lemma sample_fs_ok: "fs_ok sample_fs"
  by (simp add: sample_fs_def init_ok)

lemma sample_fs_keys: "keys_ok sample_env (fs_backend sample_fs)"
proof -
  have "\<exists>k. be_client_key_pair (fs_backend sample_fs) = Some k"
    by (simp add: sample_fs_def dcfs_init_def StorageBackend_def generate_ECDSA_key_def sample_env_def sample_openssl_def Let_def)
  then show ?thesis
    using sample_ecdsa_ok
    by (auto simp: keys_ok_def sample_fs_def dcfs_init_def StorageBackend_def DCFSMidSim_def generate_symmetric_key_def
        sample_env_def sample_openssl_def Let_def)
qed

lemma sample_first_batch_ok:
  assumes "length (first_batch sample_env st h) < 1000" and "mid_tick (be_mid (fs_backend st)) < 1000"
  shows "distinct (map header_hash (first_batch sample_env st h))"
    and "\<forall>p \<in> set (first_batch sample_env st h). hd (header_hash p) \<noteq> NUL"
proof -
  let ?bs = "map (cipher sample_env (the (inode_table st h))) (dirty_blocks (the (inode_table st h)))"
  let ?m = "be_mid (fs_backend st)"
  let ?r = "batch_records sample_env (mid_tick ?m) h h h [] (sealed_key sample_env (symmetric_middleware_key ?m) (i_aes_key (the (inode_table st h)))) ?bs"
  have f: "first_batch sample_env st h = ?r" by (simp add: first_batch_def Let_def)
  then have "length ?bs + 2 < 1000" using assms(1) by simp
  then show "distinct (map header_hash (first_batch sample_env st h))"
    unfolding f using assms(2) by (intro sample_batch_distinct) simp
  show "\<forall>p \<in> set (first_batch sample_env st h). hd (header_hash p) \<noteq> NUL"
    unfolding f
  proof
    fix p assume "p \<in> set ?r"
    then obtain i where "i < length ?bs + 2" "p = ?r ! i" by (metis batch_records_length in_set_conv_nth)
    then show "hd (header_hash p) \<noteq> NUL" using sample_batch_nonzero by metis
  qed
qed

section \<open>Properties\<close>

text \<open>
  C2. The life of a file, from the first call to the last: on a mounted file system over the
  simulated server, with a block size of at most 16 KiB, \<open>create\<close> of a new name succeeds, a \<open>write\<close>
  of up to 512 blocks at the start succeeds and returns its size, and if the names of the records
  the flush composes are distinct and none starts with a zero byte, then \<open>flush\<close> succeeds, the
  file can be opened again, and reading it through the new handle returns every byte that was
  written. The reopened file's size is the number of blocks times 16 KiB, not the number of bytes
  written.
\<close>

theorem file_round_trip:
  assumes "env_ok E" and "fs_ok st" and "keys_ok E (fs_backend st)" and "sim_healthy (be_srv (fs_backend st))"
    and "path \<noteq> []" and "NUL \<notin> set path" and "tl path \<notin> d_filename ` set (entries (fs_root st))"
    and "unat (fd_cnt st) < 254" and "bs = unat (fs_kb st * 1024)" and "0 < bs" and "bs \<le> 16384"
    and "0 < n" and "unat n < 2 ^ 31" and "unat n div bs < 512"
    and "unat n + overrun bs 0 (unat n) \<le> length src" and "unat n + overrun bs 0 (unat n) \<le> length dst"
  shows "\<exists>h st1 st2. dcfs_create E sim_server st path fh = Ret (0, fd_cnt st + 1, st1) \<and>
    dcfs_write E sim_server st1 path src n 0 (fd_cnt st + 1) = Ret (int (unat n), st2) \<and>
    length (first_batch E st2 h) = unat n div bs + 3 \<and>
    mid_tick (be_mid (fs_backend st2)) = mid_tick (be_mid (fs_backend st)) + 2 \<and>
    (distinct (map header_hash (first_batch E st2 h)) \<and> (\<forall>p \<in> set (first_batch E st2 h). hd (header_hash p) \<noteq> NUL) \<longrightarrow>
      (\<exists>st3 st4 dst' st5. dcfs_flush E sim_server st2 path (fd_cnt st + 1) = Ret (0, 0, st3) \<and>
        dcfs_open E sim_server st3 path 0 = Ret (0, fd_cnt st + 2, st4) \<and>
        dcfs_read E sim_server st4 path dst n 0 (fd_cnt st + 2) = Ret (int (unat n), dst', st5) \<and>
        take (unat n) dst' = take (unat n) src \<and>
        (path \<noteq> ''/'' \<longrightarrow> (\<exists>a st6. dcfs_getattr E sim_server st4 path = Ret (0, a, st6) \<and>
           st_size a = of_nat (unat n div bs + 1) * 16 * 1024))))"
proof -
  note sha = env_okD(2) [OF assms(1)]
  obtain h st1 st2 where r: "dcfs_create E sim_server st path fh = Ret (0, fd_cnt st + 1, st1)"
    "dcfs_write E sim_server st1 path src n 0 (fd_cnt st + 1) = Ret (int (unat n), st2)"
    "length (first_batch E st2 h) = unat n div bs + 3"
    "mid_tick (be_mid (fs_backend st2)) = mid_tick (be_mid (fs_backend st)) + 2"
    and life: "sim.writable E (be_srv (fs_backend st2)) (first_batch E st2 h) \<Longrightarrow>
      \<forall>p \<in> set (first_batch E st2 h). header_hash p \<noteq> [] \<Longrightarrow> \<forall>p \<in> set (first_batch E st2 h). hd (header_hash p) \<noteq> NUL \<Longrightarrow>
      \<exists>st3 st4 dst' st5. dcfs_flush E sim_server st2 path (fd_cnt st + 1) = Ret (0, 0, st3) \<and>
        dcfs_open E sim_server st3 path 0 = Ret (0, fd_cnt st + 2, st4) \<and>
        dcfs_read E sim_server st4 path dst n 0 (fd_cnt st + 2) = Ret (int (unat n), dst', st5) \<and>
        take (unat n) dst' = take (unat n) src \<and>
        (path \<noteq> ''/'' \<longrightarrow> (\<exists>a st6. dcfs_getattr E sim_server st4 path = Ret (0, a, st6) \<and>
           st_size a = of_nat (unat n div bs + 1) * 16 * 1024))"
    by (rule sim.file_life [OF assms(1-14) sim_meta_writable [OF sha] assms(15,16), of fh]) (rule that)
  show ?thesis using r life sim_first_batch [OF sha] by blast
qed

theorem file_round_trip_witness:
  "\<exists>st1 st2 st3 st4 dst' st5. dcfs_create sample_env sim_server sample_fs ''/f'' 0 = Ret (0, 11, st1) \<and>
     dcfs_write sample_env sim_server st1 ''/f'' ''hello'' 5 0 11 = Ret (5, st2) \<and>
     dcfs_flush sample_env sim_server st2 ''/f'' 11 = Ret (0, 0, st3) \<and>
     dcfs_open sample_env sim_server st3 ''/f'' 0 = Ret (0, 12, st4) \<and>
     dcfs_read sample_env sim_server st4 ''/f'' ''.....'' 5 0 12 = Ret (5, dst', st5) \<and> take 5 dst' = ''hello''"
proof -
  have t: "mid_tick (be_mid (fs_backend sample_fs)) = 2"
    by (simp add: sample_fs_def dcfs_init_def StorageBackend_def DCFSMidSim_def Let_def)
  obtain h st1 st2 where r: "dcfs_create sample_env sim_server sample_fs ''/f'' 0 = Ret (0, 11, st1)"
    "dcfs_write sample_env sim_server st1 ''/f'' ''hello'' 5 0 11 = Ret (5, st2)"
    "length (first_batch sample_env st2 h) = 3" "mid_tick (be_mid (fs_backend st2)) = 4"
    "distinct (map header_hash (first_batch sample_env st2 h)) \<and> (\<forall>p \<in> set (first_batch sample_env st2 h). hd (header_hash p) \<noteq> NUL) \<longrightarrow>
      (\<exists>st3 st4 dst' st5. dcfs_flush sample_env sim_server st2 ''/f'' 11 = Ret (0, 0, st3) \<and>
        dcfs_open sample_env sim_server st3 ''/f'' 0 = Ret (0, 12, st4) \<and>
        dcfs_read sample_env sim_server st4 ''/f'' ''.....'' 5 0 12 = Ret (5, dst', st5) \<and> take 5 dst' = ''hello'')"
    using file_round_trip [OF sample_env_ok sample_fs_ok sample_fs_keys, where path = "''/f''" and bs = 16384 and n = 5
        and src = "''hello''" and dst = "''.....''" and fh = 0] sim_init_healthy t
    by (simp add: overrun_def) blast
  then show ?thesis using sample_first_batch_ok [of st2 h] by simp
qed

text \<open>
  C5. In every state that calls of the file system operations can reach from a fresh mount, over
  any record server whatsoever, the file names are distinct, every inode in the table is well
  formed and stands under its own capsule's name, and the handles given out all lie in the table.
\<close>

theorem fs_invariant:
  assumes "env_ok E" and "fs_reach E srv (dcfs_init E opts s) st"
  shows "fs_ok st"
  by (rule fs_reach_ok [OF assms(2,1) init_ok])

theorem fs_invariant_witness:
  "\<exists>st. fs_reach sample_env sim_server (dcfs_init sample_env main_defaults sim_init) st \<and> fs_ok st \<and>
     map d_filename (entries (fs_root st)) = [''f'']"
proof -
  obtain h ino st' where c: "dcfs_create sample_env sim_server sample_fs ''/f'' 0 = Ret (0, fd_cnt sample_fs + 1, st')"
    "entries (fs_root st') = entries (fs_root sample_fs) @ [\<lparr>d_filename = tl ''/f'', d_hashname = h\<rparr>]"
    by (rule sim.create_new_file [OF sample_env_ok sample_fs_ok sample_fs_keys, of "''/f''" 0])
       (use sim_init_healthy sim_meta_writable [OF env_okD(2) [OF sample_env_ok]] in simp_all)
  have "NUL \<notin> set ''/f''" by simp
  then have r: "fs_reach sample_env sim_server (dcfs_init sample_env main_defaults sim_init) st'"
    using reach_step [OF reach_init step_create [OF _ c(1)]] by (simp add: sample_fs_def)
  show ?thesis using fs_invariant [OF sample_env_ok r] r c(2) by auto
qed

text \<open>
  C21. Listing and looking up: \<open>readdir\<close> of the root returns the two dot entries and then every
  file name in the order of creation; names that are not there give \<open>-ENOENT\<close> from \<open>open\<close> and
  \<open>getattr\<close>, any other directory gives \<open>-ENOENT\<close> from \<open>readdir\<close>, and \<open>create\<close> of a name that is there
  gives \<open>-EEXIST\<close>. None of these changes a file.
\<close>

theorem directory_operations:
  assumes "fs_ok st" and "path \<noteq> []" and "NUL \<notin> set path" and "path \<noteq> ''/''"
  shows "(\<exists>st'. dcfs_readdir st ''/'' = Ret (0, ''.'' # ''..'' # map d_filename (entries (fs_root st)), st') \<and> fs_frame st st') \<and>
    dcfs_readdir st path = Ret (- ENOENT, [], st) \<and>
    (if tl path \<in> d_filename ` set (entries (fs_root st))
     then \<exists>st'. dcfs_create E srv st path fh = Ret (- EEXIST, fh, st') \<and> fs_frame st st'
     else \<exists>st' a. dcfs_open E srv st path fh = Ret (- ENOENT, fh, st') \<and> dcfs_getattr E srv st path = Ret (- ENOENT, a, st') \<and> fs_frame st st')"
proof -
  obtain d where d: "list_dir (InitReaddir (fs_root st)) [''.'', ''..''] = Ret ([''.'', ''..''] @ map d_filename (entries (fs_root st)), d)"
    "dir_wf d" "entries d = entries (fs_root st)" by (rule list_dir_all)
  have p: "\<not> strcmp_eq path ''/''" using strcmp_eq_cstr [OF assms(3), of "''/''"] assms(4) by simp
  have tlp: "NUL \<notin> set (tl path)" using assms(2,3) by (meson list.set_sel(2))
  have eq: "strcmp_eq (tl path) (d_filename e) \<longleftrightarrow> tl path = d_filename e" if "e \<in> set (entries (fs_root st))" for e
    using strcmp_eq_cstr [OF tlp] that assms(1) by (auto simp: fs_ok_def)
  let ?found = "List.find (\<lambda>e. strcmp_eq (tl path) (d_filename e)) (entries (fs_root st))"
  obtain st' where f: "find_entry st path = Ret (?found, st')" by (rule find_entry_total [OF assms(2)])
  have found: "?found \<noteq> None \<longleftrightarrow> tl path \<in> d_filename ` set (entries (fs_root st))"
    using eq by (auto simp: find_None_iff image_iff)
  have "if tl path \<in> d_filename ` set (entries (fs_root st))
     then \<exists>st'. dcfs_create E srv st path fh = Ret (- EEXIST, fh, st') \<and> fs_frame st st'
     else \<exists>st' a. dcfs_open E srv st path fh = Ret (- ENOENT, fh, st') \<and> dcfs_getattr E srv st path = Ret (- ENOENT, a, st') \<and> fs_frame st st'"
    using f find_entry_frame(1) [OF f] found p
    by (auto simp: dcfs_create_def dcfs_open_def dcfs_getattr_def Let_def)
  with d p show ?thesis by (auto simp: dcfs_readdir_def fs_frame_def)
qed

theorem directory_operations_witness:
  "\<exists>st' a. dcfs_open sample_env sim_server sample_fs ''/x'' 0 = Ret (- ENOENT, 0, st') \<and>
     dcfs_getattr sample_env sim_server sample_fs ''/x'' = Ret (- ENOENT, a, st')"
  using directory_operations [OF sample_fs_ok, of "''/x''" sample_env sim_server 0] by auto

text \<open>
  C20. File handles are never reused: with 255 as the last handle given out, opening a file whose
  inode is in memory writes outside the handle table.
\<close>

theorem handles_run_out:
  assumes "fs_ok st" and "path \<noteq> []" and "fd_cnt st = 255"
    and "List.find (\<lambda>e. strcmp_eq (tl path) (d_filename e)) (entries (fs_root st)) = Some e" and "inode_table st (d_hashname e) = Some ino"
  shows "dcfs_open E srv st path fh = Fault Undefined_behaviour"
proof -
  obtain st' where f: "find_entry st path = Ret (Some e, st')" "st' = st\<lparr>fs_root := fs_root st'\<rparr>"
    "entries (fs_root st') = entries (fs_root st)"
    by (rule find_entry_total [OF assms(2), of st, unfolded assms(4)])
  have "inode_table st' = inode_table st" "fd_cnt st' = 255" "length (fd_table st') = 256"
    using find_entry_frame [OF f(1)] assms(1,3) by (simp_all add: fs_frame_def fs_ok_def)
  then show ?thesis using f(1) assms(5) by (simp add: dcfs_open_def get_inode_def new_fd_def vec_set_def Let_def)
qed

theorem handles_run_out_witness:
  "\<exists>st. fs_ok st \<and> dcfs_open sample_env sim_server st ''/f'' 0 = Fault Undefined_behaviour"
proof -
  define st where "st = sample_fs\<lparr>fs_root := \<lparr>entries = [\<lparr>d_filename = ''f'', d_hashname = sample_dc\<rparr>], it = 0\<rparr>,
    inode_table := [sample_dc \<mapsto> sample_inode], fd_cnt := 255\<rparr>"
  have "inode_ok sample_inode" using sample_intact by (simp add: sim.rd.intact_def)
  then have "fs_ok st" by (simp add: st_def fs_ok_def table_ok_def dir_wf_def) (simp add: sample_inode_def)
  then show ?thesis
    using handles_run_out [of st "''/f''" "\<lparr>d_filename = ''f'', d_hashname = sample_dc\<rparr>" sample_inode sample_env sim_server 0]
    by (auto simp: st_def)
qed

text \<open>
  C19. A flush that fails is reported as a success and loses the file's unwritten blocks: when the
  last handle of a file is flushed and \<open>FlushCache\<close> returns an error, \<open>dcfs_flush\<close> returns 0, the
  inode with its dirty blocks is gone from the table, and the handle is cleared.
\<close>

theorem flush_loses_data:
  assumes "fs_ok st" and "0 < fd" and "unat fd < 256" and "fd_table st ! unat fd = h" and "inode_table st h = Some ino"
    and "i_ref_count ino = 1" and "FlushCache E srv (ino\<lparr>i_ref_count := 0\<rparr>) (fs_backend st) = Ret (rc, ino', b')" and "rc < 0"
  shows "\<exists>st'. dcfs_flush E srv st path fd = Ret (0, 0, st') \<and> inode_table st' h = None \<and> fd_table st' ! unat fd = [] \<and> fs_backend st' = b'"
proof -
  have io: "inode_ok ino" "i_hashname ino = h" using assms(1,5) by (auto simp: fs_ok_def dest: table_okD)
  have len: "length (fd_table st) = 256" by (rule fd_table_length [OF assms(1)])
  have ino': "ino' = ino\<lparr>i_ref_count := 0\<rparr>" using FlushCache_inv [OF _ assms(7)] io(1) assms(8) by simp
  have h: "handle_inode E srv st path fd = Ret (Some (h, Some ino), st)"
    by (rule handle_open_file) (use assms len in simp_all)
  have "Unref E srv ino (fs_backend st) = Ret (0, ino', b')"
    using assms(6,7) ino' by (simp add: Unref_def Let_def)
  then show ?thesis
    using h assms(2,3) len io(2) ino' by (simp add: dcfs_flush_def Let_def release_inode_def vec_set_def)
qed

theorem flush_loses_data_witness:
  "\<exists>st st'. fs_ok st \<and> (\<exists>ino. inode_table st sample_dc = Some ino \<and> is_dirty ino 0) \<and>
     dcfs_flush (sample_env\<lparr>no_sign := True\<rparr>) sim_server st ''/f'' 11 = Ret (0, 0, st') \<and> inode_table st' sample_dc = None"
proof -
  define st where "st = sample_fs\<lparr>inode_table := [sample_dc \<mapsto> sample_dirty\<lparr>i_ref_count := 1\<rparr>], fd_cnt := 11,
    fd_table := (replicate 256 [])[11 := sample_dc]\<rparr>"
  have ok: "fs_ok st"
    using sample_dirty_ok by (simp add: st_def fs_ok_def table_ok_def nth_list_update) (simp add: sample_dirty_def sample_inode_def)
  have f: "FlushCache (sample_env\<lparr>no_sign := True\<rparr>) sim_server (sample_dirty\<lparr>i_ref_count := 1, i_ref_count := 0\<rparr>) (fs_backend st)
      = Ret (ERR_SIGN, sample_dirty\<lparr>i_ref_count := 0\<rparr>, fs_backend st)"
    using sample_flush_fails by simp
  have "\<exists>st'. dcfs_flush (sample_env\<lparr>no_sign := True\<rparr>) sim_server st ''/f'' 11 = Ret (0, 0, st') \<and> inode_table st' sample_dc = None \<and>
      fd_table st' ! unat (11 :: u64) = [] \<and> fs_backend st' = fs_backend st"
    by (rule flush_loses_data [OF ok _ _ _ _ _ f]) (simp_all add: st_def)
  moreover have "is_dirty (sample_dirty\<lparr>i_ref_count := 1\<rparr>) 0" by (simp add: sample_dirty_def is_dirty_def)
  moreover have "inode_table st sample_dc = Some (sample_dirty\<lparr>i_ref_count := 1\<rparr>)" by (simp add: st_def)
  ultimately show ?thesis using ok by blast
qed

end
