(* ===== verification/Races.thy ===== *)
theory Races
  imports Dcfs
begin

text \<open>
  Concurrent calls. The program runs FUSE's loop with its default of several threads; the inode table
  has a lock (\<open>inode_table_mutex\<close> of \<open>src/src/fs/inode.cpp\<close>), the directory, its cursor and the table of
  handles have none (the mutex of \<open>Directory\<close> is never locked). Here \<open>dcfs_create\<close> is cut into the
  operations it calls, each taken as atomic, and several calls are interleaved. One call alone is
  \<open>dcfs_create\<close>; two calls can create the same name twice, and a search can miss a file that exists.
\<close>

section \<open>One call, operation by operation\<close>

datatype create_point = Begin | Scanning | Absent | Allocated inode | Finished int u64

definition create_step ::
    "env \<Rightarrow> 's dcserver \<Rightarrow> string \<Rightarrow> u64 \<Rightarrow> 's fs \<Rightarrow> create_point \<Rightarrow> (create_point \<times> 's fs) outcome" where
  "create_step E srv path fh st pt =
     (case pt of
        Begin \<Rightarrow> Ret (Scanning, st\<lparr>fs_root := InitReaddir (fs_root st)\<rparr>)
      | Scanning \<Rightarrow>
          bindO (Readdir (fs_root st)) (\<lambda>(r, d).
          case r of
            None \<Rightarrow> Ret (Absent, st\<lparr>fs_root := d\<rparr>)
          | Some e \<Rightarrow>
              bindO (validO (path \<noteq> [])) (\<lambda>_.
              Ret (if strcmp_eq (tl path) (d_filename e) then Finished (- EEXIST) fh else Scanning, st\<lparr>fs_root := d\<rparr>)))
      | Absent \<Rightarrow>
          bindO (allocate_inode E srv st) (\<lambda>(p, st').
          Ret (case p of None \<Rightarrow> Finished (- ENOMEM) fh | Some ino \<Rightarrow> Allocated ino, st'))
      | Allocated ino \<Rightarrow>
          bindO (validO (path \<noteq> [])) (\<lambda>_.
          let h = i_hashname ino;
              e = \<lparr>d_filename = tl path, d_hashname = h\<rparr>;
              st' = st\<lparr>inode_table := (inode_table st)(h \<mapsto> Ref ino), fs_root := snd (Addent (fs_root st) e)\<rparr> in
          bindO (new_fd st' (d_hashname e)) (\<lambda>(fd, st''). Ret (Finished 0 fd, st'')))
      | Finished r fd \<Rightarrow> Ret (Finished r fd, st))"

fun create_steps ::
    "env \<Rightarrow> 's dcserver \<Rightarrow> string \<Rightarrow> u64 \<Rightarrow> nat \<Rightarrow> 's fs \<Rightarrow> create_point \<Rightarrow> (create_point \<times> 's fs) outcome" where
  "create_steps E srv path fh 0 st pt = Ret (pt, st)"
| "create_steps E srv path fh (Suc n) st pt =
     bindO (create_step E srv path fh st pt) (\<lambda>(pt', st'). create_steps E srv path fh n st' pt')"

text \<open>Calls for the paths \<open>paths\<close>, interleaved: the schedule says which one takes the next step.\<close>

fun interleave ::
    "env \<Rightarrow> 's dcserver \<Rightarrow> string list \<Rightarrow> nat list \<Rightarrow> 's fs \<Rightarrow> create_point list \<Rightarrow> (create_point list \<times> 's fs) outcome" where
  "interleave E srv paths [] st pts = Ret (pts, st)"
| "interleave E srv paths (i # is) st pts =
     bindO (create_step E srv (paths ! i) 0 st (pts ! i)) (\<lambda>(pt, st'). interleave E srv paths is st' (pts[i := pt]))"

section \<open>Schedules\<close>

lemma create_steps_add:
  "create_steps E srv path fh (m + n) st pt =
     bindO (create_steps E srv path fh m st pt) (\<lambda>(pt', st'). create_steps E srv path fh n st' pt')"
  by (induction m arbitrary: st pt) (auto simp: bindO_assoc intro!: bindO_cong)

lemma interleave_append:
  "interleave E srv paths (is @ js) st pts =
     bindO (interleave E srv paths is st pts) (\<lambda>(pts', st'). interleave E srv paths js st' pts')"
  by (induction "is" arbitrary: st pts) (auto simp: bindO_assoc intro!: bindO_cong)

lemma interleave_solo:
  assumes "i < length pts"
  shows "interleave E srv paths (replicate n i) st pts =
    bindO (create_steps E srv (paths ! i) 0 n st (pts ! i)) (\<lambda>(pt, st'). Ret (pts[i := pt], st'))"
  using assms
proof (induction n arbitrary: st pts)
  case (Suc n)
  then show ?case by (auto simp: bindO_assoc intro!: bindO_cong)
qed simp

text \<open>The scan of one call is the search loop, and where it leaves the cursor.\<close>

lemma scan_search:
  assumes "path \<noteq> []" and "dir_wf (fs_root st)"
  shows "\<exists>n. create_steps E srv path fh n st Scanning =
    bindO (search_dir (\<lambda>e. strcmp_eq (tl path) (d_filename e)) (fs_root st)) (\<lambda>(r, d).
    Ret (case r of None \<Rightarrow> Absent | Some e \<Rightarrow> Finished (- EEXIST) fh, st\<lparr>fs_root := d\<rparr>))"
  using assms(2)
proof (induction "remaining (fs_root st)" arbitrary: st)
  case Nil
  then have "Readdir (fs_root st) = Ret (None, (fs_root st)\<lparr>it := 0\<rparr>)" by (simp add: dir_wf_def remaining_def Readdir_end)
  then show ?case by (intro exI [of _ "Suc 0"]) (simp add: create_step_def search_dir.simps)
next
  case (Cons e es)
  note r = Readdir_next [OF Cons(2) [symmetric]]
  let ?st = "st\<lparr>fs_root := (fs_root st)\<lparr>it := Suc (it (fs_root st))\<rparr>\<rparr>"
  show ?case
  proof (cases "strcmp_eq (tl path) (d_filename e)")
    case True
    with r assms(1) show ?thesis
      by (intro exI [of _ "Suc 0"]) (simp add: create_step_def search_dir.simps [of _ "fs_root st"])
  next
    case False
    have "es = remaining (fs_root ?st)" "dir_wf (fs_root ?st)" using r by (simp_all add: remaining_def dir_wf_def)
    from Cons.hyps(1) [OF this] obtain n where "create_steps E srv path fh n ?st Scanning =
        bindO (search_dir (\<lambda>e. strcmp_eq (tl path) (d_filename e)) (fs_root ?st)) (\<lambda>(r, d).
        Ret (case r of None \<Rightarrow> Absent | Some e \<Rightarrow> Finished (- EEXIST) fh, ?st\<lparr>fs_root := d\<rparr>))" by blast
    with False r assms(1) show ?thesis
      by (intro exI [of _ "Suc n"]) (simp add: create_step_def search_dir.simps [of _ "fs_root st"])
  qed
qed

lemma search_from:
  assumes "path \<noteq> []"
  obtains n where "create_steps E srv path fh n st Begin =
    bindO (find_entry st path) (\<lambda>(r, st'). Ret (case r of None \<Rightarrow> Absent | Some e \<Rightarrow> Finished (- EEXIST) fh, st'))"
proof -
  let ?st = "st\<lparr>fs_root := InitReaddir (fs_root st)\<rparr>"
  have "dir_wf (fs_root ?st)" by (simp add: dir.rewind_all)
  from scan_search [OF assms this] obtain n where "create_steps E srv path fh n ?st Scanning =
      bindO (search_dir (\<lambda>e. strcmp_eq (tl path) (d_filename e)) (fs_root ?st)) (\<lambda>(r, d).
      Ret (case r of None \<Rightarrow> Absent | Some e \<Rightarrow> Finished (- EEXIST) fh, ?st\<lparr>fs_root := d\<rparr>))" by blast
  then show thesis
    using assms by (intro that [of "Suc n"]) (simp add: create_step_def find_entry_def bindO_assoc case_prod_beta')
qed

lemma search_cursor:
  assumes "dir_wf d" and "search_dir p d = Ret (r, d')"
  shows "case r of None \<Rightarrow> d' = d\<lparr>it := 0\<rparr>
    | Some e \<Rightarrow> \<exists>k. d' = d\<lparr>it := Suc k\<rparr> \<and> k < length (entries d) \<and> entries d ! k = e \<and> p e"
  using assms
proof (induction "remaining d" arbitrary: d)
  case Nil
  then have "Readdir d = Ret (None, d\<lparr>it := 0\<rparr>)" by (simp add: dir_wf_def remaining_def Readdir_end)
  with Nil.prems(2) show ?case by (simp add: search_dir.simps)
next
  case (Cons e es)
  note r = Readdir_next [OF Cons(2) [symmetric]]
  have e: "entries d ! it d = e" using r by (auto simp: Readdir_def vec_at_def outcome_simps split: if_splits)
  show ?case
  proof (cases "p e")
    case True
    with Cons.prems(2) r e show ?thesis by (subst (asm) search_dir.simps) auto
  next
    case False
    with Cons.prems(2) r have "search_dir p (d\<lparr>it := Suc (it d)\<rparr>) = Ret (r, d')" by (subst (asm) search_dir.simps) auto
    with Cons.hyps(1) [of "d\<lparr>it := Suc (it d)\<rparr>"] r show ?thesis
      by (auto simp: remaining_def dir_wf_def split: option.splits)
  qed
qed

text \<open>A call that is not interrupted is \<open>dcfs_create\<close>.\<close>

lemma create_rest:
  "path \<noteq> [] \<Longrightarrow> create_steps E srv path fh 2 st Absent =
     bindO (allocate_inode E srv st) (\<lambda>(p, st).
       case p of
         None \<Rightarrow> Ret (Finished (- ENOMEM) fh, st)
       | Some ino \<Rightarrow>
           let e = \<lparr>d_filename = tl path, d_hashname = i_hashname ino\<rparr>;
               st = st\<lparr>inode_table := (inode_table st)(i_hashname ino \<mapsto> Ref ino), fs_root := snd (Addent (fs_root st) e)\<rparr> in
           bindO (new_fd st (i_hashname ino)) (\<lambda>(fd, st). Ret (Finished 0 fd, st)))"
  by (simp add: numeral_2_eq_2 create_step_def bindO_assoc Let_def case_prod_beta')
     (rule bindO_cong [OF refl], simp split: option.split prod.split add: create_step_def bindO_assoc Let_def case_prod_beta')

lemma finished_stays: "create_steps E srv path fh n st (Finished r fd) = Ret (Finished r fd, st)"
  by (induction n) (simp_all add: create_step_def)

lemma create_alone:
  assumes "path \<noteq> []"
  shows "\<exists>n. create_steps E srv path fh n st Begin =
    bindO (dcfs_create E srv st path fh) (\<lambda>(r, fd, st'). Ret (Finished r fd, st'))"
proof -
  obtain n where n: "create_steps E srv path fh n st Begin =
      bindO (find_entry st path) (\<lambda>(r, st'). Ret (case r of None \<Rightarrow> Absent | Some e \<Rightarrow> Finished (- EEXIST) fh, st'))"
    by (rule search_from [OF assms])
  have "create_steps E srv path fh (n + 2) st Begin =
      bindO (dcfs_create E srv st path fh) (\<lambda>(r, fd, st'). Ret (Finished r fd, st'))"
    unfolding create_steps_add n dcfs_create_def bindO_assoc
    by (rule bindO_cong [OF refl])
       (auto simp: finished_stays create_rest [OF assms] bindO_assoc Let_def assms split: option.splits intro!: bindO_cong)
  then show ?thesis by blast
qed

lemma interleave_steps:
  assumes "i < length pts" and "create_steps E srv (paths ! i) 0 n st (pts ! i) = Ret (pt, st')"
  shows "interleave E srv paths (replicate n i @ is) st pts = interleave E srv paths is st' (pts[i := pt])"
  using assms by (simp add: interleave_append interleave_solo)

section \<open>Two calls for one name\<close>

text \<open>Where a successful call gets its inode and its handle, and what it does to the directory.\<close>

lemma create_parts:
  assumes "path \<noteq> []" and "dcfs_create E srv st path fh = Ret (0, fd, st')"
  obtains ino st1 where "find_entry st path = Ret (None, st\<lparr>fs_root := (fs_root st)\<lparr>it := 0\<rparr>\<rparr>)"
    and "allocate_inode E srv (st\<lparr>fs_root := (fs_root st)\<lparr>it := 0\<rparr>\<rparr>) = Ret (Some ino, st1)"
    and "new_fd (st1\<lparr>inode_table := (inode_table st1)(i_hashname ino \<mapsto> Ref ino),
       fs_root := snd (Addent (fs_root st1) \<lparr>d_filename = tl path, d_hashname = i_hashname ino\<rparr>)\<rparr>) (i_hashname ino) = Ret (fd, st')"
proof -
  let ?p = "\<lambda>e. strcmp_eq (tl path) (d_filename e)"
  obtain d where d: "search_dir ?p (InitReaddir (fs_root st)) = Ret (List.find ?p (entries (fs_root st)), d)"
    by (rule search_dir_find [of ?p "fs_root st"])
  then have f: "find_entry st path = Ret (List.find ?p (entries (fs_root st)), st\<lparr>fs_root := d\<rparr>)"
    using assms(1) by (simp add: find_entry_def)
  with assms have none: "List.find ?p (entries (fs_root st)) = None"
    by (auto simp: dcfs_create_def split: if_splits)
  have "d = (fs_root st)\<lparr>it := 0\<rparr>"
    using search_cursor [OF _ d] none dir.rewind_all(1) by (simp add: InitReaddir_def)
  with f none have f: "find_entry st path = Ret (None, st\<lparr>fs_root := (fs_root st)\<lparr>it := 0\<rparr>\<rparr>)" by simp
  from assms show thesis
    unfolding dcfs_create_def f
    by (auto simp: Let_def outcome_simps split: option.splits intro: that [OF f])
qed

lemma create_root:
  assumes "env_ok E" and "path \<noteq> []" and "dcfs_create E srv st path fh = Ret (0, fd, st')"
  shows "\<exists>h. fs_root st' = \<lparr>entries = entries (fs_root st) @ [\<lparr>d_filename = tl path, d_hashname = h\<rparr>], it = 0\<rparr>"
proof -
  obtain ino st1 where a: "allocate_inode E srv (st\<lparr>fs_root := (fs_root st)\<lparr>it := 0\<rparr>\<rparr>) = Ret (Some ino, st1)"
    and n: "new_fd (st1\<lparr>inode_table := (inode_table st1)(i_hashname ino \<mapsto> Ref ino),
       fs_root := snd (Addent (fs_root st1) \<lparr>d_filename = tl path, d_hashname = i_hashname ino\<rparr>)\<rparr>) (i_hashname ino) = Ret (fd, st')"
    by (rule create_parts [OF assms(2,3)])
  have "fs_root st1 = (fs_root st)\<lparr>it := 0\<rparr>" using allocate_inode_frame [OF assms(1) a] by simp
  with n show ?thesis by (auto simp: new_fd_def Addent_def Let_def outcome_simps)
qed

lemma new_fd_root:
  "new_fd (st\<lparr>fs_root := d\<rparr>) h = Ret (fd, st') \<Longrightarrow> new_fd (st\<lparr>fs_root := d'\<rparr>) h = Ret (fd, st'\<lparr>fs_root := d'\<rparr>)"
  by (auto simp: new_fd_def Let_def vec_set_def outcome_simps split: if_splits)

lemma find_entry_cursor: "find_entry (st\<lparr>fs_root := (fs_root st)\<lparr>it := k\<rparr>\<rparr>) path = find_entry st path"
  by (simp add: find_entry_def InitReaddir_def)

lemma strcmp_refl: "strcmp_eq a a"
  by (simp add: strcmp_eq_def)

lemma found_last: "p x \<Longrightarrow> \<exists>e. List.find p (es @ [x]) = Some e"
  by (induction es) auto

lemma sequential_creates:
  assumes "env_ok E" and "path \<noteq> []" and "dcfs_create E srv st path 0 = Ret (0, f1, st1)"
  shows "\<exists>sched st'. interleave E srv [path, path] sched st [Begin, Begin] = Ret ([Finished 0 f1, Finished (- EEXIST) 0], st')"
proof -
  obtain h where r1: "fs_root st1 = \<lparr>entries = entries (fs_root st) @ [\<lparr>d_filename = tl path, d_hashname = h\<rparr>], it = 0\<rparr>"
    using create_root [OF assms] by blast
  obtain k where k: "create_steps E srv path 0 k st Begin = Ret (Finished 0 f1, st1)"
    using create_alone [OF assms(2), of E srv 0 st] assms(3) by auto
  obtain e s' where f: "find_entry st1 path = Ret (Some e, s')"
    using find_entry_total [OF assms(2), of st1] r1 strcmp_refl by (metis found_last directory.select_convs(1) directory_entry.select_convs(1))
  obtain k' where "create_steps E srv path 0 k' st1 Begin = Ret (Finished (- EEXIST) 0, s')"
    using search_from [OF assms(2), of E srv 0 st1] f by (metis (no_types, lifting) bindO.simps(1) case_prod_conv option.simps(5))
  with k have "interleave E srv [path, path] (replicate k 0 @ replicate k' 1 @ []) st [Begin, Begin] =
      Ret ([Finished 0 f1, Finished (- EEXIST) 0], s')"
    by (simp add: interleave_steps del: append_Nil2)
  then show ?thesis by blast
qed

section \<open>Properties\<close>

text \<open>
  C6. Creating a file is not atomic. Whenever two calls of \<open>dcfs_create\<close> for different names succeed one
  after the other, two concurrent calls for the first name can both succeed, with the same two handles:
  the directory then holds the name twice and the file system is no longer well formed, while a second
  call after the first returns \<open>EEXIST\<close>. Every operation the calls make is atomic in this schedule, so
  locks inside the directory or the inode table would not prevent it.
\<close>

theorem concurrent_creates:
  assumes "env_ok E" and "path \<noteq> []" and "path2 \<noteq> []"
    and "dcfs_create E srv st path 0 = Ret (0, f1, st1)" and "dcfs_create E srv st1 path2 0 = Ret (0, f2, st2)"
  shows "(\<exists>sched st'. interleave E srv [path, path] sched st [Begin, Begin] = Ret ([Finished 0 f1, Finished 0 f2], st') \<and>
      map d_filename (entries (fs_root st')) = map d_filename (entries (fs_root st)) @ [tl path, tl path] \<and> \<not> fs_ok st') \<and>
    (\<exists>sched st'. interleave E srv [path, path] sched st [Begin, Begin] = Ret ([Finished 0 f1, Finished (- EEXIST) 0], st'))"
proof -
  let ?s = "st\<lparr>fs_root := (fs_root st)\<lparr>it := 0\<rparr>\<rparr>"
  obtain ino sa where p1: "find_entry st path = Ret (None, ?s)" "allocate_inode E srv ?s = Ret (Some ino, sa)"
    "new_fd (sa\<lparr>inode_table := (inode_table sa)(i_hashname ino \<mapsto> Ref ino),
       fs_root := snd (Addent (fs_root sa) \<lparr>d_filename = tl path, d_hashname = i_hashname ino\<rparr>)\<rparr>) (i_hashname ino) = Ret (f1, st1)"
    by (rule create_parts [OF assms(2,4)])
  obtain h where r1: "fs_root st1 = \<lparr>entries = entries (fs_root st) @ [\<lparr>d_filename = tl path, d_hashname = h\<rparr>], it = 0\<rparr>"
    using create_root [OF assms(1,2,4)] by blast
  then have "st1\<lparr>fs_root := (fs_root st1)\<lparr>it := 0\<rparr>\<rparr> = st1" by simp
  then obtain ino2 sb where p2: "allocate_inode E srv st1 = Ret (Some ino2, sb)"
    "new_fd (sb\<lparr>inode_table := (inode_table sb)(i_hashname ino2 \<mapsto> Ref ino2),
       fs_root := snd (Addent (fs_root sb) \<lparr>d_filename = tl path2, d_hashname = i_hashname ino2\<rparr>)\<rparr>) (i_hashname ino2) = Ret (f2, st2)"
    by (metis create_parts [OF assms(3,5)])
  let ?e = "\<lparr>d_filename = tl path, d_hashname = i_hashname ino2\<rparr>" and ?t = "sb\<lparr>inode_table := (inode_table sb)(i_hashname ino2 \<mapsto> Ref ino2)\<rparr>"
  let ?fin = "st2\<lparr>fs_root := snd (Addent (fs_root sb) ?e)\<rparr>"
  have nf: "new_fd (?t\<lparr>fs_root := snd (Addent (fs_root sb) ?e)\<rparr>) (i_hashname ino2) = Ret (f2, ?fin)"
    by (rule new_fd_root [OF p2(2)])
  obtain n where n: "create_steps E srv path 0 n st Begin = Ret (Absent, ?s)"
    using search_from [OF assms(2), of E srv 0 st] p1(1) by (metis (no_types, lifting) bindO.simps(1) case_prod_conv option.simps(4))
  obtain n' where n': "create_steps E srv path 0 n' ?s Begin = Ret (Absent, ?s)"
    using search_from [OF assms(2), of E srv 0 ?s] p1(1) find_entry_cursor [where st = st and k = 0 and path = path]
    by (metis (no_types, lifting) bindO.simps(1) case_prod_conv option.simps(4))
  have fin1: "create_steps E srv path 0 2 ?s Absent = Ret (Finished 0 f1, st1)"
    using p1(2,3) assms(2) by (simp add: create_rest Let_def)
  have fin2: "create_steps E srv path 0 2 st1 Absent = Ret (Finished 0 f2, ?fin)"
    using p2(1) nf assms(2) by (simp add: create_rest Let_def)
  have run: "interleave E srv [path, path] (replicate n 0 @ replicate n' 1 @ replicate 2 0 @ replicate 2 1 @ []) st [Begin, Begin] =
      Ret ([Finished 0 f1, Finished 0 f2], ?fin)"
    using n n' fin1 fin2 by (simp add: interleave_steps del: append_Nil2)
  have "fs_root sb = fs_root st1" using allocate_inode_frame [OF assms(1) p2(1)] by simp
  then have names: "map d_filename (entries (fs_root ?fin)) = map d_filename (entries (fs_root st)) @ [tl path, tl path]"
    using r1 by (simp add: Addent_def)
  then have "\<not> fs_ok ?fin" by (simp add: fs_ok_def)
  moreover note sequential_creates [OF assms(1,2,4)]
  ultimately show ?thesis using run names by blast
qed

lemma sample_create:
  assumes "fs_ok st" "keys_ok sample_env (fs_backend st)" "sim_healthy (be_srv (fs_backend st))" "unat (fd_cnt st) < 255" "fs_kb st = 16"
    and "path \<noteq> []" "NUL \<notin> set path" "tl path \<notin> d_filename ` set (entries (fs_root st))"
  obtains h st' where "dcfs_create sample_env sim_server st path 0 = Ret (0, fd_cnt st + 1, st')" and "fs_ok st'"
    and "keys_ok sample_env (fs_backend st')" and "sim_healthy (be_srv (fs_backend st'))" and "fd_cnt st' = fd_cnt st + 1" and "fs_kb st' = 16"
    and "entries (fs_root st') = entries (fs_root st) @ [\<lparr>d_filename = tl path, d_hashname = h\<rparr>]"
proof -
  have kb: "fs_kb st * 1024 \<noteq> 0" using assms(5) by simp
  obtain h ino st' where "dcfs_create sample_env sim_server st path 0 = Ret (0, fd_cnt st + 1, st')"
    "sim.new_file sample_env st' path h (fd_cnt st + 1) ino" "entries (fs_root st') = entries (fs_root st) @ [\<lparr>d_filename = tl path, d_hashname = h\<rparr>]"
    "fd_cnt st' = fd_cnt st + 1" "fs_kb st' = fs_kb st"
    using sim.create_new_file [OF sample_env_ok assms(1-3,6-8,4) kb sim_meta_writable [OF env_okD(2) [OF sample_env_ok]], of 0] by metis
  with assms(5) show thesis by (intro that [of st' h]) (simp_all add: sim.new_file_def sim.rd.intact_def)
qed

lemma sample_one_file:
  obtains h st where "dcfs_create sample_env sim_server sample_fs ''/f'' 0 = Ret (0, 11, st)" and "fs_ok st"
    and "keys_ok sample_env (fs_backend st)" and "sim_healthy (be_srv (fs_backend st))" and "fd_cnt st = 11" and "fs_kb st = 16"
    and "entries (fs_root st) = [\<lparr>d_filename = ''f'', d_hashname = h\<rparr>]"
proof (rule sample_create [OF sample_fs_ok sample_fs_keys, of "''/f''"])
  fix h st
  assume "dcfs_create sample_env sim_server sample_fs ''/f'' 0 = Ret (0, fd_cnt sample_fs + 1, st)" "fs_ok st"
    "keys_ok sample_env (fs_backend st)" "sim_healthy (be_srv (fs_backend st))" "fd_cnt st = fd_cnt sample_fs + 1" "fs_kb st = 16"
    "entries (fs_root st) = entries (fs_root sample_fs) @ [\<lparr>d_filename = tl ''/f'', d_hashname = h\<rparr>]"
  then show thesis using that [of st h] by (simp add: Directory_def)
qed (simp_all add: Directory_def sim_init_healthy)

theorem concurrent_creates_witness:
  "\<exists>sched st'. interleave sample_env sim_server [''/f'', ''/f''] sched sample_fs [Begin, Begin] = Ret ([Finished 0 11, Finished 0 12], st') \<and>
     map d_filename (entries (fs_root st')) = [''f'', ''f'']"
proof -
  obtain h1 st1 where c1: "dcfs_create sample_env sim_server sample_fs ''/f'' 0 = Ret (0, 11, st1)" "fs_ok st1"
    "keys_ok sample_env (fs_backend st1)" "sim_healthy (be_srv (fs_backend st1))" "fd_cnt st1 = 11" "fs_kb st1 = 16"
    "entries (fs_root st1) = [\<lparr>d_filename = ''f'', d_hashname = h1\<rparr>]"
    by (rule sample_one_file)
  obtain st2 where "dcfs_create sample_env sim_server st1 ''/g'' 0 = Ret (0, 12, st2)"
    by (rule sample_create [OF c1(2-4), of "''/g''"]) (use c1(5-7) in auto)
  then show ?thesis using concurrent_creates [OF sample_env_ok _ _ c1(1)] by (fastforce simp: Directory_def)
qed

text \<open>
  C23. The directory has one cursor for all calls. In a well-formed file system with files, a call that
  looks for any name, and is overtaken after \<open>InitReaddir\<close> by a search for the last file, reads on from
  the end: it takes its own name for absent, even if that file exists, and goes on to create it.
\<close>

theorem search_misses_file:
  assumes "fs_ok st" and "path \<noteq> []" and "entries (fs_root st) \<noteq> []"
  shows "\<exists>sched. interleave E srv [path, CHR ''/'' # d_filename (last (entries (fs_root st)))] sched st [Begin, Begin] =
    Ret ([Absent, Finished (- EEXIST) 0], st\<lparr>fs_root := (fs_root st)\<lparr>it := 0\<rparr>\<rparr>)"
proof -
  let ?es = "entries (fs_root st)"
  let ?n = "d_filename (last ?es)" and ?i = "st\<lparr>fs_root := InitReaddir (fs_root st)\<rparr>" and ?fin = "st\<lparr>fs_root := (fs_root st)\<lparr>it := length ?es\<rparr>\<rparr>"
  let ?p = "\<lambda>e. strcmp_eq ?n (d_filename e)"
  have nul: "NUL \<notin> set (d_filename e)" if "e \<in> set ?es" for e using that assms(1) by (simp add: fs_ok_def)
  obtain d where d: "search_dir ?p (InitReaddir (fs_root st)) = Ret (List.find ?p ?es, d)" by (rule search_dir_find [of ?p "fs_root st"])
  obtain e where e: "List.find ?p ?es = Some e"
    using assms(3) strcmp_refl found_last [of ?p "last ?es" "butlast ?es"] by auto
  obtain k where k: "d = (fs_root st)\<lparr>it := Suc k\<rparr>" "k < length ?es" "?p (?es ! k)"
    using search_cursor [OF dir.rewind_all(1) d] e by (auto simp: InitReaddir_def)
  have "d_filename (?es ! k) = ?n" using k(2,3) strcmp_eq_cstr nul assms(3) by (metis last_in_set nth_mem)
  then have "map d_filename ?es ! k = map d_filename ?es ! (length ?es - 1)"
    using k(2) assms(3) by (simp add: last_conv_nth)
  then have "Suc k = length ?es"
    using assms(1,3) k(2) nth_eq_iff_index_eq [of "map d_filename ?es" k "length ?es - 1"] by (simp add: fs_ok_def)
  then have "find_entry ?i (CHR ''/'' # ?n) = Ret (Some e, ?fin)"
    using d e k(1) by (simp add: find_entry_def InitReaddir_def)
  then obtain m where m: "create_steps E srv (CHR ''/'' # ?n) 0 m ?i Begin = Ret (Finished (- EEXIST) 0, ?fin)"
    using search_from [of "CHR ''/'' # ?n" E srv 0 ?i] by (metis (no_types, lifting) bindO.simps(1) case_prod_conv list.distinct(1) option.simps(5))
  have first: "create_steps E srv path 0 (Suc 0) st Begin = Ret (Scanning, ?i)" by (simp add: create_step_def)
  have last: "create_steps E srv path 0 (Suc 0) ?fin Scanning = Ret (Absent, st\<lparr>fs_root := (fs_root st)\<lparr>it := 0\<rparr>\<rparr>)"
    by (simp add: create_step_def Readdir_def)
  have "interleave E srv [path, CHR ''/'' # ?n] (replicate (Suc 0) 0 @ replicate m 1 @ replicate (Suc 0) 0 @ []) st [Begin, Begin] =
      Ret ([Absent, Finished (- EEXIST) 0], st\<lparr>fs_root := (fs_root st)\<lparr>it := 0\<rparr>\<rparr>)"
    using first m last by (simp add: interleave_steps del: append_Nil2 replicate_Suc create_steps.simps)
  then show ?thesis by blast
qed

theorem search_misses_file_witness:
  "\<exists>st sched st'. map d_filename (entries (fs_root st)) = [''f''] \<and>
     interleave sample_env sim_server [''/f'', ''/f''] sched st [Begin, Begin] = Ret ([Absent, Finished (- EEXIST) 0], st')"
proof -
  obtain h1 st1 where c: "dcfs_create sample_env sim_server sample_fs ''/f'' 0 = Ret (0, 11, st1)" and c1: "fs_ok st1"
    and "keys_ok sample_env (fs_backend st1)" "sim_healthy (be_srv (fs_backend st1))" "fd_cnt st1 = 11" "fs_kb st1 = 16"
    and e: "entries (fs_root st1) = [\<lparr>d_filename = ''f'', d_hashname = h1\<rparr>]"
    by (rule sample_one_file)
  obtain sched where "interleave sample_env sim_server [''/f'', ''/f''] sched st1 [Begin, Begin] =
      Ret ([Absent, Finished (- EEXIST) 0], st1\<lparr>fs_root := (fs_root st1)\<lparr>it := 0\<rparr>\<rparr>)"
    using search_misses_file [OF c1, of "''/f''" sample_env sim_server] e by auto
  moreover have "map d_filename (entries (fs_root st1)) = [''f'']" using e by simp
  ultimately show ?thesis by (intro exI [of _ st1] exI [of _ sched] exI conjI)
qed

end
