(* ===== verification/File_Store.thy ===== *)
theory File_Store
  imports Dcfs
begin

text \<open>
  What the read and write calls of the file system promise together, as an abstract file store: a
  file is a size and a byte at every position, and a call through a handle reads or writes the
  file of the handle. Every sequence of calls on open files refines it, over every record store.
\<close>

section \<open>The abstract file store\<close>

record afile =
  a_size :: u64
  a_bytes :: "nat \<Rightarrow> char"

text \<open>A call carries the handle, the path, the caller's buffer, the size and the offset.\<close>

datatype file_call =
    Read_call u64 string string u64 u64
  | Write_call u64 string string u64 u64

text \<open>
  A write beyond the end is moved to the end; when it ends in a later block than it starts in, the
  byte after the caller's data is stored too. The size grows to the end of the written range.
\<close>

definition spec_at :: "afile \<Rightarrow> u64 \<Rightarrow> u64" where
  "spec_at f offset = min (a_size f) offset"

definition spec_write :: "nat \<Rightarrow> afile \<Rightarrow> string \<Rightarrow> u64 \<Rightarrow> u64 \<Rightarrow> afile" where
  "spec_write bs f src sz offset =
     (let at = unat (spec_at f offset); n = unat sz + overrun bs at (unat sz) in
      \<lparr>a_size = max (a_size f) (spec_at f offset + sz),
       a_bytes = (\<lambda>q. if at \<le> q \<and> q < at + n then src ! (q - at) else a_bytes f q)\<rparr>)"

text \<open>A read stops at the end of the file.\<close>

definition spec_read :: "afile \<Rightarrow> u64 \<Rightarrow> u64 \<Rightarrow> string" where
  "spec_read f sz offset = map (a_bytes f) [unat offset..<min (unat offset + unat sz) (unat (a_size f))]"

text \<open>
  One call on the files \<open>fs\<close> with the handles \<open>fds\<close>: the result and the files after it. A call has a
  result if its handle is open, it asks for something, positions do not overflow, and the buffer
  holds what is copied.
\<close>

definition buffer_fits :: "nat \<Rightarrow> nat \<Rightarrow> nat \<Rightarrow> string \<Rightarrow> bool" where
  "buffer_fits bs off n bf \<longleftrightarrow> n < 2 ^ 31 \<and> off + n < 2 ^ 64 \<and> n + overrun bs off n \<le> length bf"

definition open_file :: "string list \<Rightarrow> (string \<Rightarrow> afile option) \<Rightarrow> u64 \<Rightarrow> (string \<times> afile) option" where
  "open_file fds fs fh =
     (if 0 < fh \<and> unat fh < length fds then map_option (Pair (fds ! unat fh)) (fs (fds ! unat fh)) else None)"

fun spec_call :: "nat \<Rightarrow> string list \<Rightarrow> (string \<Rightarrow> afile option) \<Rightarrow> file_call \<Rightarrow>
    ((int \<times> string) \<times> (string \<Rightarrow> afile option)) option" where
  "spec_call bs fds fs (Read_call fh path dst sz offset) =
     (case open_file fds fs fh of
        None \<Rightarrow> None
      | Some (h, f) \<Rightarrow>
          let data = spec_read f sz offset in
          if 0 < sz \<and> unat offset + unat sz < 2 ^ 64 \<and> buffer_fits bs (unat offset) (length data) dst
          then Some ((int (length data), data), fs) else None)"
| "spec_call bs fds fs (Write_call fh path src sz offset) =
     (case open_file fds fs fh of
        None \<Rightarrow> None
      | Some (h, f) \<Rightarrow>
          if 0 < sz \<and> buffer_fits bs (unat (spec_at f offset)) (unat sz) src
          then Some ((int (unat sz), []), fs(h \<mapsto> spec_write bs f src sz offset)) else None)"

fun spec_calls :: "nat \<Rightarrow> string list \<Rightarrow> (string \<Rightarrow> afile option) \<Rightarrow> file_call list \<Rightarrow>
    ((int \<times> string) list \<times> (string \<Rightarrow> afile option)) option" where
  "spec_calls bs fds fs [] = Some ([], fs)"
| "spec_calls bs fds fs (c # cs) =
     (case spec_call bs fds fs c of
        None \<Rightarrow> None
      | Some (r, fs1) \<Rightarrow> map_option (\<lambda>(rs, fs2). (r # rs, fs2)) (spec_calls bs fds fs1 cs))"

section \<open>The calls of the file system\<close>

text \<open>What the caller of a read sees: the returned count and as many bytes of its buffer.\<close>

fun fs_call :: "env \<Rightarrow> 's dcserver \<Rightarrow> 's fs \<Rightarrow> file_call \<Rightarrow> ((int \<times> string) \<times> 's fs) outcome" where
  "fs_call E srv st (Read_call fh path dst sz offset) =
     bindO (dcfs_read E srv st path dst sz offset fh) (\<lambda>(n, dst', st'). Ret ((n, take (nat n) dst'), st'))"
| "fs_call E srv st (Write_call fh path src sz offset) =
     bindO (dcfs_write E srv st path src sz offset fh) (\<lambda>(n, st'). Ret ((n, []), st'))"

fun fs_calls :: "env \<Rightarrow> 's dcserver \<Rightarrow> 's fs \<Rightarrow> file_call list \<Rightarrow> ((int \<times> string) list \<times> 's fs) outcome" where
  "fs_calls E srv st [] = Ret ([], st)"
| "fs_calls E srv st (c # cs) =
     bindO (fs_call E srv st c) (\<lambda>(r, st1). bindO (fs_calls E srv st1 cs) (\<lambda>(rs, st2). Ret (r # rs, st2)))"

section \<open>Refinement\<close>

lemma spec_read_length:
  "length (spec_read f sz offset) = min (unat offset + unat sz) (unat (a_size f)) - unat offset"
  by (simp add: spec_read_def)

context record_store
begin

text \<open>The files in the table of inodes, seen through cache and records, and when they can be seen.\<close>

definition files_of :: "env \<Rightarrow> 's fs \<Rightarrow> string \<Rightarrow> afile option" where
  "files_of E st h =
     map_option (\<lambda>ino. \<lparr>a_size = i_size ino, a_bytes = rd.file_byte E (fs_backend st) ino\<rparr>) (inode_table st h)"

definition files_intact :: "nat \<Rightarrow> env \<Rightarrow> 's fs \<Rightarrow> bool" where
  "files_intact bs E st \<longleftrightarrow>
     (\<forall>h ino. inode_table st h = Some ino \<longrightarrow> rd.intact E (fs_backend st) ino \<and> BlockSize ino = bs)"

lemma same_backend_view:
  assumes "rd.same_backend b b'"
  shows "rd.intact E b ino \<Longrightarrow> rd.intact E b' ino" and "rd.file_byte E b' ino = rd.file_byte E b ino"
proof -
  have p: "payload_at b' = payload_at b" using assms by (simp add: rd.same_backend_def)
  have m: "rd.map_bytes E b' ino = rd.map_bytes E b ino" by (rule rd.map_bytes_cong [OF refl refl p])
  then have v: "rd.block_view E b' ino = rd.block_view E b ino"
    using rd.stored_block_cong [OF refl m p] by (simp add: rd.block_view_def fun_eq_iff)
  show "rd.intact E b ino \<Longrightarrow> rd.intact E b' ino"
    using assms m v by (simp add: rd.intact_def rd.same_backend_def)
  show "rd.file_byte E b' ino = rd.file_byte E b ino" using v by (simp add: rd.file_byte_def fun_eq_iff)
qed

text \<open>Storing one inode back over a backend whose records are the same.\<close>

lemma files_update:
  assumes "files_intact bs E st" and "inode_table st h = Some ino" and "rd.same_backend (fs_backend st) b"
    and "rd.intact E b ino'" and "BlockSize ino' = bs"
    and "st' = st\<lparr>fs_backend := b, inode_table := (inode_table st)(h \<mapsto> ino')\<rparr>"
  shows "files_intact bs E st'"
    and "files_of E st' = (files_of E st)(h \<mapsto> \<lparr>a_size = i_size ino', a_bytes = rd.file_byte E b ino'\<rparr>)"
proof -
  note keep = same_backend_view [OF assms(3)]
  show "files_intact bs E st'" using assms keep(1) by (simp add: files_intact_def)
  show "files_of E st' = (files_of E st)(h \<mapsto> \<lparr>a_size = i_size ino', a_bytes = rd.file_byte E b ino'\<rparr>)"
    by (rule ext) (simp add: assms(6) files_of_def keep(2))
qed

lemma open_file_inode:
  assumes "open_file (fd_table st) (files_of E st) fh = Some (h, f)"
  obtains ino where "inode_table st h = Some ino" and "f = \<lparr>a_size = i_size ino, a_bytes = rd.file_byte E (fs_backend st) ino\<rparr>"
    and "handle_inode E srv st path fh = Ret (Some (h, Some ino), st)"
  using assms handle_open_file [of fh st h] by (auto simp: open_file_def files_of_def split: if_split_asm)

text \<open>A read of an open file inside its size returns its bytes and changes only what is cached.\<close>

lemma read_spec:
  assumes E: "env_ok E" and h: "handle_inode E srv st path fh = Ret (Some (h, Some ino), st)" and I: "rd.intact E (fs_backend st) ino"
    and f: "f = \<lparr>a_size = i_size ino, a_bytes = rd.file_byte E (fs_backend st) ino\<rparr>" and bs: "BlockSize ino = bs"
    and g: "0 < sz" "unat offset + unat sz < 2 ^ 64" and lt: "offset < i_size ino"
    and data: "data = spec_read f sz offset" and fits: "buffer_fits bs (unat offset) (length data) dst"
  obtains dst' ino' b' where "dcfs_read E srv st path dst sz offset fh =
      Ret (int (length data), dst', st\<lparr>fs_backend := b', inode_table := (inode_table st)(h \<mapsto> ino')\<rparr>)"
    and "take (length data) dst' = data" and "rd.loads E ino (fs_backend st) ino' b'"
proof -
  define n where "n = (if i_size ino < offset + sz then i_size ino - offset else sz)"
  have e: "unat (offset + sz) = unat offset + unat sz" using g(2) unat_add_lem [of offset sz] by simp
  have n: "unat n = length data"
    using lt e f by (auto simp: n_def data spec_read_length word_less_nat_alt unat_sub_if_size)
  obtain dst' ino' b' where r: "dcfs_read E srv st path dst sz offset fh =
      Ret (int (unat n), dst', st\<lparr>fs_backend := b', inode_table := (inode_table st)(h \<mapsto> ino')\<rparr>)"
    "rd.loads E ino (fs_backend st) ino' b'" "length dst' = length dst"
    "\<forall>x < unat n. dst' ! x = rd.file_byte E (fs_backend st) ino (unat offset + x)"
    by (rule read_open_file [OF E h I g lt n_def, of dst]) (use fits n bs in \<open>auto simp: buffer_fits_def\<close>)
  have "take (length data) dst' = data"
  proof (rule nth_equalityI)
    show "length (take (length data) dst') = length data" using fits r(3) by (simp add: buffer_fits_def)
    show "take (length data) dst' ! i = data ! i" if "i < length (take (length data) dst')" for i
      using that r(4) n f by (simp add: data spec_read_def nth_upt less_diff_conv2 less_diff_conv add.commute)
  qed
  then show thesis using that r(1,2) n by simp
qed

lemma read_refines:
  assumes "env_ok E" and "files_intact bs E st"
    and "spec_call bs (fd_table st) (files_of E st) (Read_call fh path dst sz offset) = Some (r, fs1)"
  shows "\<exists>st1. fs_call E srv st (Read_call fh path dst sz offset) = Ret (r, st1) \<and> files_of E st1 = fs1 \<and>
    files_intact bs E st1 \<and> fd_table st1 = fd_table st"
proof -
  obtain h f where o: "open_file (fd_table st) (files_of E st) fh = Some (h, f)"
    using assms(3) by (auto split: option.splits)
  define data where "data = spec_read f sz offset"
  from o assms(3) have g: "0 < sz" "unat offset + unat sz < 2 ^ 64" "buffer_fits bs (unat offset) (length data) dst"
    "r = (int (length data), data)" "fs1 = files_of E st"
    by (auto simp: data_def Let_def split: if_split_asm)
  obtain ino where ino: "inode_table st h = Some ino" "f = \<lparr>a_size = i_size ino, a_bytes = rd.file_byte E (fs_backend st) ino\<rparr>"
    "handle_inode E srv st path fh = Ret (Some (h, Some ino), st)" by (rule open_file_inode [OF o])
  have I: "rd.intact E (fs_backend st) ino" "BlockSize ino = bs" using assms(2) ino(1) by (auto simp: files_intact_def)
  show ?thesis
  proof (cases "offset < i_size ino")
    case False
    then have "data = []" using ino(2) by (simp add: data_def spec_read_def word_less_nat_alt)
    then show ?thesis using False ino(3) g(4,5) assms(2) by (simp add: dcfs_read_def Let_def int_of_def)
  next
    case True
    obtain dst' ino' b' where r: "dcfs_read E srv st path dst sz offset fh =
        Ret (int (length data), dst', st\<lparr>fs_backend := b', inode_table := (inode_table st)(h \<mapsto> ino')\<rparr>)"
      "take (length data) dst' = data" "rd.loads E ino (fs_backend st) ino' b'"
      by (rule read_spec [OF assms(1) ino(3) I(1) ino(2) I(2) g(1,2) True data_def g(3)])
    then have c: "fs_call E srv st (Read_call fh path dst sz offset) =
        Ret (r, st\<lparr>fs_backend := b', inode_table := (inode_table st)(h \<mapsto> ino')\<rparr>)"
      using g(4) by simp
    have m: "meta ino' = meta ino" "rd.same_backend (fs_backend st) b'" "rd.intact E b' ino'"
      using r(3) by (simp_all add: rd.loads_def)
    have v: "\<lparr>a_size = i_size ino', a_bytes = rd.file_byte E b' ino'\<rparr> = f"
      using ino(2) meta_eqD(3) [OF m(1)] rd.file_byte_loads [OF r(3)] by simp
    have "files_of E st h = Some f" using ino(1,2) by (simp add: files_of_def)
    then show ?thesis
      using c files_update [OF assms(2) ino(1) m(2,3) _ refl] meta_eqD(9) [OF m(1)] I(2) v g(5) by (simp add: fun_upd_idem)
  qed
qed

text \<open>A write of an open file stores the bytes of the specification in its cache.\<close>

lemma write_spec:
  assumes E: "env_ok E" and h: "handle_inode E srv st path fh = Ret (Some (h, Some ino), st)" and I: "rd.intact E (fs_backend st) ino"
    and f: "f = \<lparr>a_size = i_size ino, a_bytes = rd.file_byte E (fs_backend st) ino\<rparr>" and bs: "BlockSize ino = bs"
    and at: "at = spec_at f offset" and g: "0 < sz" "buffer_fits bs (unat at) (unat sz) src"
  obtains ino' b' where "dcfs_write E srv st path src sz offset fh =
      Ret (int (unat sz), st\<lparr>fs_backend := b', inode_table := (inode_table st)(h \<mapsto> ino')\<rparr>)"
    and "rd.intact E b' ino'" and "rd.same_backend (fs_backend st) b'" and "meta ino' = meta (ino\<lparr>i_size := max (i_size ino) (at + sz)\<rparr>)"
    and "\<lparr>a_size = i_size ino', a_bytes = rd.file_byte E b' ino'\<rparr> = spec_write bs f src sz offset"
    and "\<forall>i. is_dirty ino' i \<longleftrightarrow> is_dirty ino i \<or> unat at div bs \<le> i \<and> i \<le> (unat at + unat sz) div bs"
proof -
  have at': "at = (if i_size ino \<le> offset then i_size ino else offset)" using f at by (simp add: spec_at_def min_def)
  obtain ino' b' where w: "Inode_Write E srv ino (fs_backend st) src offset sz = Ret (NO_ERR, sz, ino', b')"
    "rd.intact E b' ino'" "rd.same_backend (fs_backend st) b'"
    "meta ino' = (meta ino)\<lparr>i_size := max (i_size ino) (at + sz)\<rparr>"
    "\<forall>q. rd.file_byte E b' ino' q = (if unat at \<le> q \<and> q < unat at + unat sz + overrun (BlockSize ino) (unat at) (unat sz)
        then src ! (q - unat at) else rd.file_byte E (fs_backend st) ino q)"
    "\<forall>i. is_dirty ino' i \<longleftrightarrow> is_dirty ino i \<or> unat at div BlockSize ino \<le> i \<and> i \<le> (unat at + unat sz) div BlockSize ino"
    using rd.inode_write_ok [OF I E g(1) at', of src] g(2) bs by (auto simp: buffer_fits_def)
  have m: "meta ino' = meta (ino\<lparr>i_size := max (i_size ino) (at + sz)\<rparr>)" using w(4) by simp
  have "int_of sz = int (unat sz)" using int_of_small [of sz] g(2) by (simp add: buffer_fits_def)
  then have c: "dcfs_write E srv st path src sz offset fh =
      Ret (int (unat sz), st\<lparr>fs_backend := b', inode_table := (inode_table st)(h \<mapsto> ino')\<rparr>)"
    using h w(1) by (simp add: dcfs_write_def Let_def)
  have "\<lparr>a_size = i_size ino', a_bytes = rd.file_byte E b' ino'\<rparr> = spec_write bs f src sz offset"
    using meta_eqD(3) [OF m] w(5) f bs at by (simp add: spec_write_def Let_def fun_eq_iff add.assoc)
  then show thesis using that [OF c w(2,3) m] w(6) bs by simp
qed

lemma write_refines:
  assumes "env_ok E" and "files_intact bs E st"
    and "spec_call bs (fd_table st) (files_of E st) (Write_call fh path src sz offset) = Some (r, fs1)"
  shows "\<exists>st1. fs_call E srv st (Write_call fh path src sz offset) = Ret (r, st1) \<and> files_of E st1 = fs1 \<and>
    files_intact bs E st1 \<and> fd_table st1 = fd_table st"
proof -
  obtain h f where o: "open_file (fd_table st) (files_of E st) fh = Some (h, f)"
    using assms(3) by (auto split: option.splits)
  from o assms(3) have g: "0 < sz" "buffer_fits bs (unat (spec_at f offset)) (unat sz) src"
    "r = (int (unat sz), [])" "fs1 = (files_of E st)(h \<mapsto> spec_write bs f src sz offset)"
    by (auto split: if_split_asm)
  obtain ino where ino: "inode_table st h = Some ino" "f = \<lparr>a_size = i_size ino, a_bytes = rd.file_byte E (fs_backend st) ino\<rparr>"
    "handle_inode E srv st path fh = Ret (Some (h, Some ino), st)" by (rule open_file_inode [OF o])
  have I: "rd.intact E (fs_backend st) ino" "BlockSize ino = bs" using assms(2) ino(1) by (auto simp: files_intact_def)
  obtain ino' b' where w: "dcfs_write E srv st path src sz offset fh =
      Ret (int (unat sz), st\<lparr>fs_backend := b', inode_table := (inode_table st)(h \<mapsto> ino')\<rparr>)"
    "rd.intact E b' ino'" "rd.same_backend (fs_backend st) b'" "meta ino' = meta (ino\<lparr>i_size := max (i_size ino) (spec_at f offset + sz)\<rparr>)"
    "\<lparr>a_size = i_size ino', a_bytes = rd.file_byte E b' ino'\<rparr> = spec_write bs f src sz offset"
    by (rule write_spec [OF assms(1) ino(3) I(1) ino(2) I(2) refl g(1,2)])
  have "BlockSize ino' = bs" using meta_eqD(9) [OF w(4)] I(2) by simp
  then show ?thesis using w(1,5) g(3,4) files_update [OF assms(2) ino(1) w(3,2) _ refl] by simp
qed

lemma calls_refine:
  assumes "env_ok E" and "files_intact bs E st" and "spec_calls bs (fd_table st) (files_of E st) cs = Some (rs, fs1)"
  shows "\<exists>st1. fs_calls E srv st cs = Ret (rs, st1) \<and> files_of E st1 = fs1 \<and> files_intact bs E st1"
  using assms(2,3)
proof (induction cs arbitrary: st rs)
  case (Cons c cs)
  obtain r fs2 rs' where s: "spec_call bs (fd_table st) (files_of E st) c = Some (r, fs2)"
    "spec_calls bs (fd_table st) fs2 cs = Some (rs', fs1)" "rs = r # rs'"
    using Cons.prems(2) by (auto split: option.splits)
  obtain st1 where c: "fs_call E srv st c = Ret (r, st1)" "files_of E st1 = fs2" "files_intact bs E st1" "fd_table st1 = fd_table st"
    using read_refines [OF assms(1) Cons.prems(1)] write_refines [OF assms(1) Cons.prems(1)] s(1) by (cases c) blast+
  from Cons.IH [OF c(3)] c(2,4) s(2) obtain st2 where "fs_calls E srv st1 cs = Ret (rs', st2)" "files_of E st2 = fs1" "files_intact bs E st2"
    by auto
  with c(1) s(3) show ?case by simp
qed simp

text \<open>
  Adding records keeps what can be seen of every file: a view that exists rests on records that
  are there.
\<close>

lemma more_records:
  assumes "inv (be_srv b')" and "\<forall>dc r p. payload_at b E dc r = Some p \<longrightarrow> payload_at b' E dc r = Some p"
    and "rd.intact E b ino"
  shows "rd.intact E b' ino" and "rd.file_byte E b' ino = rd.file_byte E b ino"
proof -
  have m: "rd.map_bytes E b' ino = rd.map_bytes E b ino"
    using assms(2,3) by (auto simp: rd.intact_def rd.map_bytes_def Let_def split: option.split_asm if_split_asm option.split)
  have s: "rd.stored_block E b' ino i = Some d" if "rd.stored_block E b ino i = Some d" for i d
    using that assms(2) by (auto simp: rd.stored_block_def m split: option.split_asm if_split_asm option.split)
  have v: "rd.block_view E b' ino = rd.block_view E b ino"
  proof
    fix i
    have "rd.block_view E b ino i \<noteq> None" using assms(3) by (simp add: rd.intact_def)
    then show "rd.block_view E b' ino i = rd.block_view E b ino i" using s by (auto simp: rd.block_view_def)
  qed
  show "rd.intact E b' ino" using assms(1,3) m v by (simp add: rd.intact_def)
  show "rd.file_byte E b' ino = rd.file_byte E b ino" using v by (simp add: rd.file_byte_def fun_eq_iff)
qed

text \<open>\<open>create\<close> adds an empty file under a new handle and leaves every other file as it is.\<close>

lemma create_refines:
  assumes "env_ok E" and "fs_ok st" and "keys_ok E (fs_backend st)" and "inv (be_srv (fs_backend st))"
    and "path \<noteq> []" and "NUL \<notin> set path" and "tl path \<notin> d_filename ` set (entries (fs_root st))"
    and "unat (fd_cnt st) < 255" and "fs_kb st * 1024 \<noteq> 0" and "bs = unat (fs_kb st * 1024)"
    and "writable E (be_srv (fs_backend st)) [meta_pdu E (mid_tick (be_mid (fs_backend st)))]"
    and "h = header_hash (meta_pdu E (mid_tick (be_mid (fs_backend st))))"
    and new: "\<forall>c. lookup (be_srv (fs_backend st)) c h = None" and "files_intact bs E st"
  shows "\<exists>st1. dcfs_create E srv st path fh = Ret (0, fd_cnt st + 1, st1) \<and>
    files_of E st1 = (files_of E st)(h \<mapsto> \<lparr>a_size = 0, a_bytes = \<lambda>_. NUL\<rparr>) \<and> files_intact bs E st1 \<and>
    fd_table st1 = (fd_table st)[unat (fd_cnt st + 1) := h]"
proof -
  obtain ino st1 where c: "dcfs_create E srv st path fh = Ret (0, fd_cnt st + 1, st1)"
    "new_file E st1 path h (fd_cnt st + 1) ino" "inode_table st1 = (inode_table st)(h \<mapsto> ino)" "fs_kb st1 = fs_kb st"
    "\<forall>c r. r \<noteq> h \<longrightarrow> lookup (be_srv (fs_backend st1)) c r = lookup (be_srv (fs_backend st)) c r"
    "fd_table st1 = (fd_table st)[unat (fd_cnt st + 1) := h]" "\<forall>q. rd.file_byte E (fs_backend st1) ino q = NUL"
    using create_new_file [OF assms(1-9,11), of fh] assms(12) by metis
  have n: "rd.intact E (fs_backend st1) ino" "i_size ino = 0" "BlockSize ino = bs" "inv (be_srv (fs_backend st1))"
    using c(2,4) assms(10) by (simp_all add: new_file_def BlockSize_def rd.intact_def)
  have "\<forall>dc r p. payload_at (fs_backend st) E dc r = Some p \<longrightarrow> payload_at (fs_backend st1) E dc r = Some p"
    using c(5) new by (metis (no_types, lifting) option.simps(3,4) payload_at_def)
  note keep = more_records [OF n(4) this]
  have "files_intact bs E st1" using assms(14) keep(1) n c(3) by (auto simp: files_intact_def)
  moreover have "files_of E st1 g = ((files_of E st)(h \<mapsto> \<lparr>a_size = 0, a_bytes = \<lambda>_. NUL\<rparr>)) g" for g
  proof (cases "g = h \<or> inode_table st g = None")
    case True
    then show ?thesis using c(3,7) n(2) by (auto simp: files_of_def fun_eq_iff)
  next
    case False
    then obtain i where i: "inode_table st g = Some i" "rd.intact E (fs_backend st) i" "g \<noteq> h"
      using assms(14) by (auto simp: files_intact_def)
    then show ?thesis using keep(2) [OF i(2)] c(3) by (simp add: files_of_def)
  qed
  ultimately show ?thesis using c(1,6) by blast
qed

end

end
