(* ===== verification/Saved_File.thy ===== *)
theory Saved_File
  imports File_Store
begin

text \<open>
  What stays of a file when it is closed: the records of its first flush and the entry of the
  middleware's index. Opening the file again shows the same bytes, and neither new files nor the
  flushes of other files change that.
\<close>

context record_store
begin

section \<open>Growing record stores\<close>

text \<open>
  The backend \<open>b'\<close> holds all records of \<open>b\<close>, and its index differs for the capsules in \<open>C\<close> only.
\<close>

definition grows :: "string set \<Rightarrow> 's backend \<Rightarrow> 's backend \<Rightarrow> bool" where
  "grows C b b' \<longleftrightarrow> inv (be_srv b') \<and> (\<forall>c r d. lookup (be_srv b) c r = Some d \<longrightarrow> lookup (be_srv b') c r = Some d) \<and>
     (\<forall>c. known (be_srv b) c \<longrightarrow> known (be_srv b') c) \<and>
     symmetric_middleware_key (be_mid b') = symmetric_middleware_key (be_mid b) \<and>
     (\<forall>c. c \<notin> C \<longrightarrow> mid_index (be_mid b') c = mid_index (be_mid b) c)"

lemma grows_refl: "inv (be_srv b) \<Longrightarrow> grows C b b"
  by (simp add: grows_def)

lemma grows_same: "rd.same_backend b b' \<Longrightarrow> grows C b b'"
  by (simp add: grows_def rd.same_backend_def)

lemma grows_read: "inv s' \<Longrightarrow> lookup s' = lookup (be_srv b) \<Longrightarrow> known s' = known (be_srv b) \<Longrightarrow> grows C b (b\<lparr>be_srv := s'\<rparr>)"
  by (simp add: grows_def)

lemma grows_extends:
  assumes "extends E h (be_srv b) recs (be_srv b')" and "\<forall>p \<in> set recs. \<forall>c. lookup (be_srv b) c (header_hash p) = None"
    and "symmetric_middleware_key (be_mid b') = symmetric_middleware_key (be_mid b)"
    and "mid_index (be_mid b') = (mid_index (be_mid b))(h \<mapsto> x)"
  shows "grows {h} b b'"
proof -
  have "lookup (be_srv b') c r = Some d" if l: "lookup (be_srv b) c r = Some d" for c r d
  proof -
    have "r \<notin> header_hash ` set recs" using assms(2) l by auto
    then show ?thesis using assms(1) l by (simp add: extends_def)
  qed
  then show ?thesis using assms by (simp add: grows_def extends_def)
qed

lemma grows_view:
  assumes "grows C b b'" and "rd.intact E b ino"
  shows "rd.intact E b' ino" and "rd.file_byte E b' ino = rd.file_byte E b ino"
proof -
  have p: "\<forall>dc r p. payload_at b E dc r = Some p \<longrightarrow> payload_at b' E dc r = Some p"
    using assms(1) by (auto simp: payload_at_def grows_def split: option.split_asm)
  have i: "inv (be_srv b')" using assms(1) by (simp add: grows_def)
  show "rd.intact E b' ino" "rd.file_byte E b' ino = rd.file_byte E b ino"
    using more_records [OF i p assms(2)] by simp_all
qed

section \<open>Closed files\<close>

text \<open>
  The records of a file of \<open>length cs\<close> blocks: \<open>cs\<close> are the encrypted and \<open>ps\<close> the plain blocks.
\<close>

definition saved_file :: "nat \<Rightarrow> env \<Rightarrow> 's backend \<Rightarrow> string \<Rightarrow> afile \<Rightarrow> bool" where
  "saved_file bs E b h f \<longleftrightarrow>
     (\<exists>recs cs ps key t. length key = 16 \<and> cs \<noteq> [] \<and> length cs \<le> 512 \<and>
        recs = batch_records E t h h h [] (sealed_key E (symmetric_middleware_key (be_mid b)) key) cs \<and>
        mid_index (be_mid b) h = Some (header_hash (last recs)) \<and>
        (\<forall>p \<in> set recs. lookup (be_srv b) h (header_hash p) = Some (ser_pdu (cdc E) p) \<and> rvalid (header_hash p) (ser_pdu (cdc E) p)) \<and>
        (\<forall>i < length cs. length (cs ! i) = bs + 16 \<and> length (ps ! i) = bs \<and>
           decrypt_symmetric (ossl E) key None (cs ! i) = (1, Some (ps ! i)) \<and> hd (header_hash (recs ! i)) \<noteq> NUL) \<and>
        a_size f = of_nat (length cs) * 16 * 1024 \<and>
        (\<forall>q. a_bytes f q = (if q div bs < length cs then ps ! (q div bs) ! (q mod bs) else NUL)))"

lemma saved_file_grows:
  assumes "saved_file bs E b h f" and "grows C b b'" and "h \<notin> C"
  shows "saved_file bs E b' h f"
proof -
  have k: "symmetric_middleware_key (be_mid b') = symmetric_middleware_key (be_mid b)" "mid_index (be_mid b') h = mid_index (be_mid b) h"
    "\<And>r d. lookup (be_srv b) h r = Some d \<Longrightarrow> lookup (be_srv b') h r = Some d"
    using assms(2,3) by (simp_all add: grows_def)
  from assms(1) show ?thesis
    unfolding saved_file_def k(1,2) by (elim exE) (rule exI, rule exI, rule exI, rule exI, rule exI, use k(3) in auto)
qed

lemma saved_reload:
  assumes E: "env_ok E" and K: "keys_ok E b" and inv: "inv (be_srv b)" and h: "length h = 32"
    and bs: "bs = unat (kb * 1024 :: u64)" "0 < bs" "bs \<le> 16384" and S: "saved_file bs E b h f"
  obtains n key bm s2 ino where "ReadFileMeta E srv b h = Ret (NO_ERR, n, a_size f, key, bm, b\<lparr>be_srv := s2\<rparr>)"
    and "grows {} b (b\<lparr>be_srv := s2\<rparr>)" and "Inode h n bm kb 512 (a_size f) key = Ret ino"
    and "rd.intact E (b\<lparr>be_srv := s2\<rparr>) ino" and "f = \<lparr>a_size = i_size ino, a_bytes = rd.file_byte E (b\<lparr>be_srv := s2\<rparr>) ino\<rparr>"
    and "i_hashname ino = h" and "i_block_size ino = kb * 1024" and "i_ref_count ino = 0" and "\<forall>i. \<not> is_dirty ino i"
proof -
  obtain recs cs ps key t where s: "length key = 16" "cs \<noteq> []" "length cs \<le> 512"
    "recs = batch_records E t h h h [] (sealed_key E (symmetric_middleware_key (be_mid b)) key) cs"
    "mid_index (be_mid b) h = Some (header_hash (last recs))"
    "\<forall>p \<in> set recs. lookup (be_srv b) h (header_hash p) = Some (ser_pdu (cdc E) p) \<and> rvalid (header_hash p) (ser_pdu (cdc E) p)"
    "\<forall>i < length cs. length (cs ! i) = bs + 16 \<and> length (ps ! i) = bs \<and>
       decrypt_symmetric (ossl E) key None (cs ! i) = (1, Some (ps ! i)) \<and> hd (header_hash (recs ! i)) \<noteq> NUL"
    "a_size f = of_nat (length cs) * 16 * 1024"
    "\<forall>q. a_bytes f q = (if q div bs < length cs then ps ! (q div bs) ! (q mod bs) else NUL)"
    using S unfolding saved_file_def by blast
  have cl: "\<forall>d \<in> set cs. length d \<le> bs + 16" "bs + 16 < 2 ^ 29" using s(7) bs(3) by (auto simp: in_set_conv_nth)
  have "\<exists>s'. ReadFileMeta E srv b h = Ret (NO_ERR, header_hash (last recs), of_nat (length cs) * 16 * 1024, key,
       header_hash (recs ! length cs), b\<lparr>be_srv := s'\<rparr>) \<and> inv s' \<and> lookup s' = lookup (be_srv b) \<and> known s' = known (be_srv b)"
    by (rule batch_readable(1) [OF E K inv h s(1-3) cl s(4) _ _ s(5)]) (use s(6) in simp_all)
  then obtain s2 where m: "ReadFileMeta E srv b h = Ret (NO_ERR, header_hash (last recs), a_size f, key,
       header_hash (recs ! length cs), b\<lparr>be_srv := s2\<rparr>)"
    and s2: "inv s2" "lookup s2 = lookup (be_srv b)" "known s2 = known (be_srv b)" using s(8) by auto
  let ?b = "b\<lparr>be_srv := s2\<rparr>"
  have "kb * 1024 \<noteq> 0" using bs by auto
  then obtain ino where o: "Inode h (header_hash (last recs)) (header_hash (recs ! length cs)) kb 512 (a_size f) key = Ret ino"
    by (simp add: Inode_def Let_def)
  note ok = Inode_ok [OF o s(1)]
  have fld: "i_hashname ino = h" "i_block_size ino = kb * 1024" "i_ref_count ino = 0" "i_size ino = a_size f" "BlockSize ino = bs"
    using arg_cong [OF ok(4), of i_hashname] arg_cong [OF ok(4), of i_block_size] arg_cong [OF ok(4), of i_ref_count]
      arg_cong [OF ok(4), of i_size] bs(1) by (simp_all add: BlockSize_def)
  have v: "rd.intact E ?b ino" "rd.block_view E ?b ino i = Some (if i < length cs then ps ! i else replicate (BlockSize ino) NUL)" for i
    using reopen_view [OF E h s(1-4), of ?b "header_hash (last recs)" kb "a_size f" ino ps] s(6,7) s2 o fld(5) bs(3) by simp_all
  have "a_bytes f q = rd.file_byte E ?b ino q" for q
    using s(9) v(2) [of "q div bs"] bs(2) by (simp add: rd.file_byte_def fld(5))
  then have "f = \<lparr>a_size = i_size ino, a_bytes = rd.file_byte E ?b ino\<rparr>" using fld(4) by (cases f) (simp add: fun_eq_iff)
  then show thesis using that [OF m grows_read [OF s2] o v(1)] fld(1-3) ok(3) by blast
qed

section \<open>The first flush saves a file\<close>

lemma flush_saves:
  assumes E: "env_ok E" and K: "keys_ok E b" and I: "rd.intact E b ino" and dc: "i_hashname ino = h" "known (be_srv b) h"
      "mid_index (be_mid b) h = Some []" "i_ino_recordname ino = []"
    and k: "\<forall>i. is_dirty ino i \<longleftrightarrow> i < k" "0 < k" "k \<le> 512" and bs: "BlockSize ino = bs" "bs + 16 < 2 ^ 31"
    and recs: "recs = batch_records E (mid_tick (be_mid b)) h h h []
      (sealed_key E (symmetric_middleware_key (be_mid b)) (i_aes_key ino)) (map (cipher E ino) (dirty_blocks ino))"
    and w: "writable E (be_srv b) recs" and rv: "\<forall>p \<in> set recs. rvalid (header_hash p) (ser_pdu (cdc E) p)"
    and nz: "\<forall>p \<in> set recs. hd (header_hash p) \<noteq> NUL" and new: "\<forall>p \<in> set recs. \<forall>c. lookup (be_srv b) c (header_hash p) = None"
    and tail: "\<forall>q. k \<le> q div bs \<longrightarrow> rd.file_byte E b ino q = NUL"
  obtains b' where "FlushCache E srv ino b = Ret (NO_ERR, drop_caches ino, b')" and "keys_ok E b'" and "grows {h} b b'"
    and "saved_file bs E b' h \<lparr>a_size = of_nat k * 16 * 1024, a_bytes = rd.file_byte E b ino\<rparr>"
proof -
  have ok: "inode_ok ino" "inv (be_srv b)" using I by (simp_all add: rd.intact_def)
  have db: "dirty_blocks ino = [0..<k]" by (rule dirty_prefix [OF k(1)])
  obtain b' where b': "FlushCache E srv ino b = Ret (NO_ERR, drop_caches ino, b')"
    "keys_ok E b'" "mid_index (be_mid b') = (mid_index (be_mid b))(h \<mapsto> header_hash (last recs))"
    "symmetric_middleware_key (be_mid b') = symmetric_middleware_key (be_mid b)" "extends E h (be_srv b) recs (be_srv b')"
    by (rule flush_first [OF E K ok(2) dc(2,3) ok(1) dc(1,4) _ _ recs w]) (use db k(2) bs in simp_all)
  let ?cs = "map (cipher E ino) [0..<k]" and ?p = "\<lambda>i. take bs (the (dcache_blocks ino ! i))"
  have ca: "is_cached ino i" if "i < k" for i using I k(1) that by (auto simp: rd.intact_def)
  have blk: "length (cipher E ino i) = bs + 16 \<and> length (?p i) = bs \<and> decrypt_symmetric (ossl E) (i_aes_key ino) None (cipher E ino i) = (1, Some (?p i))
      \<and> rd.block_view E b ino i = Some (?p i)" if i: "i < k" for i
  proof -
    obtain blk where "dcache_blocks ino ! i = Some blk" "length blk = BlockSize ino + 16"
      using cached_block [OF ok(1)] ca [OF i] by metis
    then show ?thesis using cipher_ok(2,3) [OF E ok(1) disjI1 [OF ca [OF i]]] ca [OF i] bs by (simp add: rd.block_view_def)
  qed
  have bytes: "rd.file_byte E b ino q = (if q div bs < k then ?p (q div bs) ! (q mod bs) else NUL)" for q
    using tail blk [of "q div bs"] by (simp add: rd.file_byte_def bs)
  have hn: "hd (header_hash (recs ! i)) \<noteq> NUL" if "i < k" for i using nz that recs db by simp
  have st: "\<forall>p \<in> set recs. lookup (be_srv b') h (header_hash p) = Some (ser_pdu (cdc E) p) \<and> rvalid (header_hash p) (ser_pdu (cdc E) p)"
    using b'(5) rv by (simp add: extends_def)
  have "saved_file bs E b' h \<lparr>a_size = of_nat k * 16 * 1024, a_bytes = rd.file_byte E b ino\<rparr>"
    unfolding saved_file_def
    by (rule exI [of _ recs], rule exI [of _ ?cs], rule exI [of _ "map ?p [0..<k]"], rule exI [of _ "i_aes_key ino"], rule exI [of _ "mid_tick (be_mid b)"])
       (use k(2,3) inode_okD(2) [OF ok(1)] recs db b'(3,4) st blk hn bytes in simp)
  then show thesis by (rule that [OF b'(1,2) grows_extends [OF b'(5) new b'(4,3)]])
qed

end

end
