(* ===== verification/Session.thy ===== *)
theory Session
  imports Saved_File
begin

text \<open>
  A session of file system calls as a specification without servers, records, caches or keys: a list
  of files, each with its bytes, and a table of handles. Every call of the file system, from
  \<open>create\<close> to the last \<open>flush\<close> of a file and its next \<open>open\<close>, simulates a step of it, over every
  record store.
\<close>

section \<open>Specification\<close>

text \<open>
  A file is \<open>f_saved\<close> once its blocks were flushed, \<open>f_changed\<close> while it has unflushed writes, and
  \<open>f_refs\<close> counts its open references. Handles point into the list of files.
\<close>

record sfile =
  f_name :: string
  f_data :: afile
  f_saved :: bool
  f_changed :: bool
  f_refs :: nat

record session =
  s_dir :: "sfile list"
  s_fds :: "nat option list"
  s_next :: u64

definition empty_session :: session where
  "empty_session = \<lparr>s_dir = [], s_fds = replicate 256 None, s_next = 10\<rparr>"

text \<open>The calls, with the arguments FUSE passes, and what their callers see.\<close>

datatype fs_op =
    Op_create string
  | Op_open string
  | Op_read string u64 string u64 u64
  | Op_write string u64 string u64 u64
  | Op_close string u64
  | Op_getattr string
  | Op_readdir string

datatype op_result =
    R_handle int u64
  | R_data int string
  | R_attr int nat u64
  | R_names int "string list"

fun position :: "('a \<Rightarrow> bool) \<Rightarrow> 'a list \<Rightarrow> nat option" where
  "position P [] = None"
| "position P (x # xs) = (if P x then Some 0 else map_option Suc (position P xs))"

definition file_at :: "session \<Rightarrow> string \<Rightarrow> nat option" where
  "file_at s path = position (\<lambda>f. f_name f = tl path) (s_dir s)"

definition path_ok :: "string \<Rightarrow> bool" where
  "path_ok path \<longleftrightarrow> path \<noteq> [] \<and> NUL \<notin> set path"

definition handle_file :: "session \<Rightarrow> u64 \<Rightarrow> (nat \<times> sfile) option" where
  "handle_file s fh =
     (if 0 < fh \<and> unat fh < length (s_fds s)
      then case s_fds s ! unat fh of
          None \<Rightarrow> None
        | Some i \<Rightarrow> if 0 < f_refs (s_dir s ! i) then Some (i, s_dir s ! i) else None
      else None)"

definition new_handle :: "session \<Rightarrow> nat \<Rightarrow> session" where
  "new_handle s i = s\<lparr>s_next := s_next s + 1, s_fds := (s_fds s)[unat (s_next s + 1) := Some i]\<rparr>"

definition set_file :: "session \<Rightarrow> nat \<Rightarrow> sfile \<Rightarrow> session" where
  "set_file s i f = s\<lparr>s_dir := (s_dir s)[i := f]\<rparr>"

text \<open>A new file, and what the first flush makes of it: the size becomes whole blocks of 16 KiB.\<close>

definition new_sfile :: "string \<Rightarrow> sfile" where
  "new_sfile name = \<lparr>f_name = name, f_data = \<lparr>a_size = 0, a_bytes = \<lambda>_. NUL\<rparr>, f_saved = False, f_changed = False, f_refs = 1\<rparr>"

definition saved_sfile :: "nat \<Rightarrow> sfile \<Rightarrow> sfile" where
  "saved_sfile bs f =
     f\<lparr>f_data := (f_data f)\<lparr>a_size := of_nat (unat (a_size (f_data f)) div bs + 1) * 16 * 1024\<rparr>,
       f_saved := True, f_changed := False, f_refs := 0\<rparr>"

text \<open>
  One call: its result and the session after it. \<open>None\<close> where the specification says nothing: for
  bad arguments, when handles run out, for handles of files that are not open, for opening a file
  that was closed without ever having been written, for a flush of more than 512 blocks, and for
  the second flush of a file, when it was opened again and changed.
\<close>

fun spec_op :: "nat \<Rightarrow> session \<Rightarrow> fs_op \<Rightarrow> (op_result \<times> session) option" where
  "spec_op bs s (Op_create path) =
     (if \<not> path_ok path then None
      else case file_at s path of
          Some i \<Rightarrow> Some (R_handle (- EEXIST) 0, s)
        | None \<Rightarrow>
            if unat (s_next s) < 255
            then Some (R_handle 0 (s_next s + 1), new_handle (s\<lparr>s_dir := s_dir s @ [new_sfile (tl path)]\<rparr>) (length (s_dir s)))
            else None)"
| "spec_op bs s (Op_open path) =
     (if \<not> path_ok path then None
      else case file_at s path of
          None \<Rightarrow> Some (R_handle (- ENOENT) 0, s)
        | Some i \<Rightarrow>
            let f = s_dir s ! i in
            if unat (s_next s) < 255 \<and> (0 < f_refs f \<or> f_saved f)
            then Some (R_handle 0 (s_next s + 1), new_handle (set_file s i (f\<lparr>f_refs := Suc (f_refs f)\<rparr>)) i)
            else None)"
| "spec_op bs s (Op_read path fh dst sz offset) =
     (case handle_file s fh of
        None \<Rightarrow> None
      | Some (i, f) \<Rightarrow>
          let data = spec_read (f_data f) sz offset in
          if 0 < sz \<and> unat offset + unat sz < 2 ^ 64 \<and> buffer_fits bs (unat offset) (length data) dst
          then Some (R_data (int (length data)) data, s) else None)"
| "spec_op bs s (Op_write path fh src sz offset) =
     (case handle_file s fh of
        None \<Rightarrow> None
      | Some (i, f) \<Rightarrow>
          if 0 < sz \<and> buffer_fits bs (unat (spec_at (f_data f) offset)) (unat sz) src
          then Some (R_data (int (unat sz)) [],
                 set_file s i (f\<lparr>f_data := spec_write bs (f_data f) src sz offset, f_changed := True\<rparr>))
          else None)"
| "spec_op bs s (Op_close path fh) =
     (case handle_file s fh of
        None \<Rightarrow> None
      | Some (i, f) \<Rightarrow>
          let released = s\<lparr>s_fds := (s_fds s)[unat fh := None]\<rparr> in
          if 1 < f_refs f then Some (R_handle 0 fh, set_file s i (f\<lparr>f_refs := f_refs f - 1\<rparr>))
          else if \<not> f_changed f then Some (R_handle 0 0, set_file released i (f\<lparr>f_refs := 0\<rparr>))
          else if \<not> f_saved f \<and> unat (a_size (f_data f)) div bs < 512
          then Some (R_handle 0 0, set_file released i (saved_sfile bs f))
          else None)"
| "spec_op bs s (Op_getattr path) =
     (if \<not> path_ok path then None
      else if path = ''/'' then Some (R_attr 0 16877 0, s)
      else case file_at s path of
          None \<Rightarrow> Some (R_attr (- ENOENT) 0 0, s)
        | Some i \<Rightarrow>
            let f = s_dir s ! i in
            if 0 < f_refs f \<or> f_saved f then Some (R_attr 0 33060 (a_size (f_data f)), s) else None)"
| "spec_op bs s (Op_readdir path) =
     (if \<not> path_ok path then None
      else if path = ''/'' then Some (R_names 0 ([''.'', ''..''] @ map f_name (s_dir s)), s)
      else Some (R_names (- ENOENT) [], s))"

fun spec_ops :: "nat \<Rightarrow> session \<Rightarrow> fs_op list \<Rightarrow> (op_result list \<times> session) option" where
  "spec_ops bs s [] = Some ([], s)"
| "spec_ops bs s (c # cs) =
     (case spec_op bs s c of
        None \<Rightarrow> None
      | Some (r, s1) \<Rightarrow> map_option (\<lambda>(rs, s2). (r # rs, s2)) (spec_ops bs s1 cs))"

section \<open>The calls of the file system\<close>

fun do_op :: "env \<Rightarrow> 's dcserver \<Rightarrow> 's fs \<Rightarrow> fs_op \<Rightarrow> (op_result \<times> 's fs) outcome" where
  "do_op E srv st (Op_create path) = bindO (dcfs_create E srv st path 0) (\<lambda>(r, fh, st'). Ret (R_handle r fh, st'))"
| "do_op E srv st (Op_open path) = bindO (dcfs_open E srv st path 0) (\<lambda>(r, fh, st'). Ret (R_handle r fh, st'))"
| "do_op E srv st (Op_read path fh dst sz offset) =
     bindO (dcfs_read E srv st path dst sz offset fh) (\<lambda>(n, dst', st'). Ret (R_data n (take (nat n) dst'), st'))"
| "do_op E srv st (Op_write path fh src sz offset) =
     bindO (dcfs_write E srv st path src sz offset fh) (\<lambda>(n, st'). Ret (R_data n [], st'))"
| "do_op E srv st (Op_close path fh) = bindO (dcfs_flush E srv st path fh) (\<lambda>(r, fh', st'). Ret (R_handle r fh', st'))"
| "do_op E srv st (Op_getattr path) =
     bindO (dcfs_getattr E srv st path) (\<lambda>(r, a, st'). Ret (R_attr r (st_mode a) (st_size a), st'))"
| "do_op E srv st (Op_readdir path) = bindO (dcfs_readdir st path) (\<lambda>(r, names, st'). Ret (R_names r names, st'))"

fun do_ops :: "env \<Rightarrow> 's dcserver \<Rightarrow> 's fs \<Rightarrow> fs_op list \<Rightarrow> (op_result list \<times> 's fs) outcome" where
  "do_ops E srv st [] = Ret ([], st)"
| "do_ops E srv st (c # cs) =
     bindO (do_op E srv st c) (\<lambda>(r, st1). bindO (do_ops E srv st1 cs) (\<lambda>(rs, st2). Ret (r # rs, st2)))"

text \<open>A condition on every call of a run, in the state it is made in.\<close>

fun along :: "('s fs \<Rightarrow> fs_op \<Rightarrow> bool) \<Rightarrow> env \<Rightarrow> 's dcserver \<Rightarrow> 's fs \<Rightarrow> fs_op list \<Rightarrow> bool" where
  "along P E srv st [] \<longleftrightarrow> True"
| "along P E srv st (c # cs) \<longleftrightarrow> P st c \<and> (case do_op E srv st c of Fault x \<Rightarrow> True | Ret (r, st') \<Rightarrow> along P E srv st' cs)"

text \<open>The records a call composes: the meta record of a new capsule, or the first batch of a file.\<close>

definition new_records :: "env \<Rightarrow> 's fs \<Rightarrow> fs_op \<Rightarrow> capsule_pdu list" where
  "new_records E st c =
     (case c of
        Op_create path \<Rightarrow>
          if tl path \<in> d_filename ` set (entries (fs_root st)) then [] else [meta_pdu E (mid_tick (be_mid (fs_backend st)))]
      | Op_close path fh \<Rightarrow>
          let h = fd_table st ! unat fh in
          (case inode_table st h of
             None \<Rightarrow> []
           | Some ino \<Rightarrow> if i_ref_count ino = 1 \<and> dirty_blocks ino \<noteq> [] then first_batch E st h else [])
      | _ \<Rightarrow> [])"

section \<open>Lemmas on the specification\<close>

lemma position_Some:
  "position P xs = Some i \<Longrightarrow> i < length xs \<and> P (xs ! i)"
  by (induction xs arbitrary: i) (auto split: if_split_asm)

lemma position_None: "position P xs = None \<longleftrightarrow> (\<forall>x \<in> set xs. \<not> P x)"
  by (induction xs) auto

lemma find_position: "List.find P xs = map_option ((!) xs) (position P xs)"
  by (induction xs) (auto simp: option.map_comp comp_def)

lemma position_map: "position P (map f xs) = position (\<lambda>x. P (f x)) xs"
  by (induction xs) auto

lemma position_cong: "(\<And>x. x \<in> set xs \<Longrightarrow> P x = Q x) \<Longrightarrow> position P xs = position Q xs"
  by (induction xs) auto

lemma do_op_ok:
  assumes "env_ok E" and "fs_ok st" and "do_op E srv st c = Ret (r, st')"
    and "\<forall>path. c = Op_create path \<longrightarrow> NUL \<notin> set path"
  shows "fs_ok st'"
proof -
  have "fs_step E srv st st'"
    using assms(3,4) by (cases c) (auto simp: outcome_simps intro: fs_step.intros)
  then show ?thesis using fs_step_ok assms(1,2) by blast
qed

section \<open>The simulation relation\<close>

context record_store
begin

text \<open>
  One file: its capsule \<open>h\<close>, the inode \<open>t\<close> it has in the table, if any, and what the specification
  says of it. The blocks of a new file are dirty up to the one that holds its end, and zero beyond.
\<close>

definition in_memory :: "nat \<Rightarrow> env \<Rightarrow> u64 \<Rightarrow> 's backend \<Rightarrow> inode \<Rightarrow> string \<Rightarrow> sfile \<Rightarrow> bool" where
  "in_memory bs E kb b ino h f \<longleftrightarrow> rd.intact E b ino \<and> i_hashname ino = h \<and> i_block_size ino = kb * 1024 \<and>
     f_data f = \<lparr>a_size = i_size ino, a_bytes = rd.file_byte E b ino\<rparr> \<and> unat (i_ref_count ino) = f_refs f \<and>
     (if f_saved f then f_changed f \<or> (\<forall>i. \<not> is_dirty ino i)
      else i_ino_recordname ino = [] \<and> (\<forall>i. is_dirty ino i \<longleftrightarrow> f_changed f \<and> i \<le> unat (i_size ino) div bs))"

definition on_servers :: "nat \<Rightarrow> env \<Rightarrow> 's backend \<Rightarrow> string \<Rightarrow> sfile \<Rightarrow> bool" where
  "on_servers bs E b h f \<longleftrightarrow> length h = 32 \<and> known (be_srv b) h \<and> (f_refs f = 0 \<longrightarrow> \<not> f_changed f) \<and>
     (if f_saved f then \<not> f_changed f \<longrightarrow> saved_file bs E b h (f_data f)
      else mid_index (be_mid b) h = Some [] \<and> (\<not> f_changed f \<longrightarrow> a_size (f_data f) = 0) \<and>
        (\<forall>q. unat (a_size (f_data f)) div bs < q div bs \<longrightarrow> a_bytes (f_data f) q = NUL))"

definition matches :: "nat \<Rightarrow> env \<Rightarrow> u64 \<Rightarrow> 's backend \<Rightarrow> inode option \<Rightarrow> string \<Rightarrow> sfile \<Rightarrow> bool" where
  "matches bs E kb b t h f \<longleftrightarrow> on_servers bs E b h f \<and>
     (case t of None \<Rightarrow> f_refs f = 0 | Some ino \<Rightarrow> in_memory bs E kb b ino h f)"

definition capsule :: "'s fs \<Rightarrow> nat \<Rightarrow> string" where
  "capsule st i = d_hashname (entries (fs_root st) ! i)"

definition represents :: "nat \<Rightarrow> env \<Rightarrow> 's fs \<Rightarrow> session \<Rightarrow> bool" where
  "represents bs E st s \<longleftrightarrow>
     fs_ok st \<and> keys_ok E (fs_backend st) \<and> inv (be_srv (fs_backend st)) \<and> unat (fs_kb st * 1024) = bs \<and> 0 < bs \<and> bs \<le> 16384 \<and>
     fd_cnt st = s_next s \<and> map d_filename (entries (fs_root st)) = map f_name (s_dir s) \<and>
     distinct (map d_hashname (entries (fs_root st))) \<and> length (s_fds s) = 256 \<and>
     (\<forall>j i. j < 256 \<and> s_fds s ! j = Some i \<longrightarrow> i < length (s_dir s) \<and> fd_table st ! j = capsule st i) \<and>
     (\<forall>i < length (s_dir s). f_refs (s_dir s ! i) \<le> unat (s_next s) \<and>
        matches bs E (fs_kb st) (fs_backend st) (inode_table st (capsule st i)) (capsule st i) (s_dir s ! i))"

lemma matches_grows:
  assumes "grows C b b'" and "h \<notin> C" and "matches bs E kb b t h f"
  shows "matches bs E kb b' t h f"
proof -
  have k: "mid_index (be_mid b') h = mid_index (be_mid b) h" "known (be_srv b) h \<Longrightarrow> known (be_srv b') h"
    using assms(1,2) by (simp_all add: grows_def)
  have "on_servers bs E b' h f"
    using assms(3) k saved_file_grows [OF _ assms(1,2)] by (auto simp: matches_def on_servers_def split: if_splits)
  moreover have "in_memory bs E kb b' ino h f" if "in_memory bs E kb b ino h f" for ino
    using that grows_view [OF assms(1)] by (simp add: in_memory_def)
  ultimately show ?thesis using assms(3) by (auto simp: matches_def split: option.splits)
qed

lemma representsD:
  assumes "represents bs E st s"
  shows "fs_ok st" "keys_ok E (fs_backend st)" "inv (be_srv (fs_backend st))" "unat (fs_kb st * 1024) = bs" "0 < bs" "bs \<le> 16384"
    and "fd_cnt st = s_next s" "map d_filename (entries (fs_root st)) = map f_name (s_dir s)" "distinct (map d_hashname (entries (fs_root st)))"
    and "length (s_fds s) = 256" "length (entries (fs_root st)) = length (s_dir s)"
    and "j < 256 \<Longrightarrow> s_fds s ! j = Some i \<Longrightarrow> i < length (s_dir s) \<and> fd_table st ! j = capsule st i"
    and "i < length (s_dir s) \<Longrightarrow> f_refs (s_dir s ! i) \<le> unat (s_next s)"
    and "i < length (s_dir s) \<Longrightarrow>
      matches bs E (fs_kb st) (fs_backend st) (inode_table st (capsule st i)) (capsule st i) (s_dir s ! i)"
  using assms unfolding represents_def by (blast+, metis length_map, blast+)

lemma capsule_inj:
  assumes "represents bs E st s" and "i < length (s_dir s)" and "j < length (s_dir s)"
  shows "capsule st i = capsule st j \<longleftrightarrow> i = j"
  using representsD(9,11) [OF assms(1)] assms(2,3) nth_eq_iff_index_eq [of "map d_hashname (entries (fs_root st))" i j]
  by (simp add: capsule_def)

text \<open>A call that changes one file, and perhaps gives out or takes back a handle of it.\<close>

lemma represents_file:
  assumes R: "represents bs E st s" and i: "i < length (s_dir s)" and h: "h = capsule st i"
    and ok: "fs_ok st'" "keys_ok E (fs_backend st')" and b: "grows {h} (fs_backend st) (fs_backend st')"
    and fr: "fs_kb st' = fs_kb st" "entries (fs_root st') = entries (fs_root st)" "fd_cnt st' = s_next s'"
    and t: "\<forall>g. g \<noteq> h \<longrightarrow> inode_table st' g = inode_table st g"
    and m: "matches bs E (fs_kb st) (fs_backend st') (inode_table st' h) h f'"
    and s': "s_dir s' = (s_dir s)[i := f']" "f_name f' = f_name (s_dir s ! i)" "f_refs f' \<le> unat (s_next s')"
      "unat (s_next s) \<le> unat (s_next s')" "length (s_fds s') = 256"
    and fd: "\<And>j k. j < 256 \<Longrightarrow> s_fds s' ! j = Some k \<Longrightarrow>
      s_fds s ! j = Some k \<and> fd_table st' ! j = fd_table st ! j \<or> k = i \<and> fd_table st' ! j = h"
  shows "represents bs E st' s'"
proof -
  have c: "capsule st' = capsule st" using fr(2) by (simp add: capsule_def fun_eq_iff)
  have names: "map f_name (s_dir s') = map f_name (s_dir s)" using s'(1,2) i by (simp add: map_update list_update_same_conv)
  have "k < length (s_dir s') \<and> fd_table st' ! j = capsule st' k" if "j < 256" "s_fds s' ! j = Some k" for j k
    using fd [OF that] representsD(12) [OF R that(1)] i h s'(1) by (auto simp: c)
  moreover have "f_refs (s_dir s' ! k) \<le> unat (s_next s') \<and>
      matches bs E (fs_kb st') (fs_backend st') (inode_table st' (capsule st' k)) (capsule st' k) (s_dir s' ! k)" if k: "k < length (s_dir s')" for k
  proof (cases "k = i")
    case True
    then show ?thesis using m s'(1,3) i by (simp add: c fr(1) h)
  next
    case False
    have k': "k < length (s_dir s)" "capsule st k \<noteq> h" using k False s'(1) capsule_inj [OF R _ i, of k] h by auto
    then show ?thesis
      using matches_grows [OF b _ representsD(14) [OF R k'(1)]] representsD(13) [OF R k'(1)] False t s'(1,4) by (simp add: c fr(1))
  qed
  moreover have "inv (be_srv (fs_backend st'))" using b by (simp add: grows_def)
  ultimately show ?thesis
    unfolding represents_def using ok fr s'(5) names representsD(4-6,8,9) [OF R] by (intro conjI) (simp_all, blast)
qed

lemma represents_cursor:
  assumes "represents bs E st s" and "fs_ok st'" and "st' = st\<lparr>fs_root := fs_root st'\<rparr>" and "entries (fs_root st') = entries (fs_root st)"
  shows "represents bs E st' s"
proof -
  have e: "fs_backend st' = fs_backend st" "fs_kb st' = fs_kb st" "inode_table st' = inode_table st" "fd_cnt st' = fd_cnt st" "fd_table st' = fd_table st"
    by (subst assms(3), simp)+
  have "capsule st' = capsule st" using assms(4) by (simp add: capsule_def fun_eq_iff)
  then show ?thesis using assms(1,2,4) e unfolding represents_def by simp
qed

text \<open>How the calls find a file: by its name or by a handle.\<close>

lemma represents_find:
  assumes R: "represents bs E st s" and p: "path_ok path"
  obtains st1 where "find_entry st path = Ret (map_option (\<lambda>i. \<lparr>d_filename = tl path, d_hashname = capsule st i\<rparr>) (file_at s path), st1)"
    and "represents bs E st1 s" and "capsule st1 = capsule st" and "st1 = st\<lparr>fs_root := fs_root st1\<rparr>"
    and "List.find (\<lambda>e. strcmp_eq (tl path) (d_filename e)) (entries (fs_root st)) =
      map_option (\<lambda>i. \<lparr>d_filename = tl path, d_hashname = capsule st i\<rparr>) (file_at s path)"
proof -
  let ?es = "entries (fs_root st)"
  have p': "path \<noteq> []" "NUL \<notin> set (tl path)" using p by (auto simp: path_ok_def) (meson list.set_sel(2))
  have ok: "\<forall>e \<in> set ?es. NUL \<notin> set (d_filename e)" "fs_ok st" "map d_filename ?es = map f_name (s_dir s)"
    using representsD(1,8) [OF R] by (auto simp: fs_ok_def)
  have pos: "position (\<lambda>e. strcmp_eq (tl path) (d_filename e)) ?es = file_at s path"
  proof -
    have "position (\<lambda>e. strcmp_eq (tl path) (d_filename e)) ?es = position (\<lambda>e. d_filename e = tl path) ?es"
      using strcmp_eq_cstr [OF p'(2)] ok(1) by (intro position_cong) auto
    also have "\<dots> = position (\<lambda>n. n = tl path) (map f_name (s_dir s))" unfolding ok(3) [symmetric] position_map ..
    finally show ?thesis by (simp add: file_at_def position_map)
  qed
  have f: "List.find (\<lambda>e. strcmp_eq (tl path) (d_filename e)) ?es =
      map_option (\<lambda>i. \<lparr>d_filename = tl path, d_hashname = capsule st i\<rparr>) (file_at s path)"
  proof (cases "file_at s path")
    case (Some i)
    then have i: "i < length (s_dir s)" "f_name (s_dir s ! i) = tl path"
      using position_Some [of _ "s_dir s" i] by (auto simp: file_at_def)
    then have "d_filename (?es ! i) = tl path" using ok(3) representsD(11) [OF R] by (metis nth_map)
    then show ?thesis using Some pos by (simp add: find_position capsule_def)
  qed (simp add: find_position pos)
  obtain st1 where st1: "find_entry st path = Ret (List.find (\<lambda>e. strcmp_eq (tl path) (d_filename e)) ?es, st1)"
    "st1 = st\<lparr>fs_root := fs_root st1\<rparr>" "entries (fs_root st1) = ?es"
    by (rule find_entry_total [OF p'(1)])
  have "fs_ok st1" using fs_frame_ok find_entry_frame(1) [OF st1(1)] ok(2) by blast
  then have "represents bs E st1 s" by (rule represents_cursor [OF R _ st1(2,3)])
  moreover have "capsule st1 = capsule st" using st1(3) by (simp add: capsule_def fun_eq_iff)
  ultimately show thesis using that st1(1,2) f by simp
qed

lemma represents_handle:
  assumes R: "represents bs E st s" and h: "handle_file s fh = Some (i, f)"
  obtains ino where "handle_inode E srv st path fh = Ret (Some (capsule st i, Some ino), st)" and "inode_table st (capsule st i) = Some ino"
    and "i < length (s_dir s)" and "s_dir s ! i = f" and "0 < f_refs f" and "f_refs f \<le> unat (s_next s)"
    and "on_servers bs E (fs_backend st) (capsule st i) f" and "in_memory bs E (fs_kb st) (fs_backend st) ino (capsule st i) f"
    and "0 < fh" and "unat fh < 256" and "fd_table st ! unat fh = capsule st i" and "s_fds s ! unat fh = Some i"
proof -
  have j: "0 < fh" "unat fh < 256" "s_fds s ! unat fh = Some i" "s_dir s ! i = f" "0 < f_refs f"
    using h representsD(10) [OF R] by (auto simp: handle_file_def split: if_split_asm option.split_asm)
  have i: "i < length (s_dir s)" "fd_table st ! unat fh = capsule st i" "length (fd_table st) = 256"
    using representsD(12) [OF R j(2,3)] representsD(1) [OF R] by (auto simp: fs_ok_def)
  have m: "matches bs E (fs_kb st) (fs_backend st) (inode_table st (capsule st i)) (capsule st i) f" "f_refs f \<le> unat (s_next s)"
    using representsD(13,14) [OF R i(1)] j(4) by simp_all
  then obtain ino where ino: "inode_table st (capsule st i) = Some ino" "in_memory bs E (fs_kb st) (fs_backend st) ino (capsule st i) f"
    using j(5) by (auto simp: matches_def split: option.split_asm)
  have "handle_inode E srv st path fh = Ret (Some (capsule st i, Some ino), st)"
    using handle_open_file [OF j(1) _ i(2) ino(1)] j(2) i(3) by simp
  then show thesis using that ino i(1,2) j m by (simp add: matches_def)
qed

section \<open>Each call simulates a step\<close>

text \<open>
  What the names of new records must satisfy: the server takes them, they are nobody else's, and
  those of a batch can be found again.
\<close>

definition names_ok :: "env \<Rightarrow> 's fs \<Rightarrow> fs_op \<Rightarrow> bool" where
  "names_ok E st c \<longleftrightarrow>
     (let recs = new_records E st c; s = be_srv (fs_backend st) in
      writable E s recs \<and>
      (\<forall>p \<in> set recs. (\<forall>cap. lookup s cap (header_hash p) = None) \<and> header_hash p \<notin> d_hashname ` set (entries (fs_root st)) \<and>
         (payload_in_transit p \<noteq> [] \<longrightarrow> rvalid (header_hash p) (ser_pdu (cdc E) p) \<and> hd (header_hash p) \<noteq> NUL)))"

lemma readdir_sim:
  assumes E: "env_ok E" and R: "represents bs E st s" and sp: "spec_op bs s (Op_readdir path) = Some (r, s')"
  shows "\<exists>st'. do_op E srv st (Op_readdir path) = Ret (r, st') \<and> represents bs E st' s'"
proof -
  have p: "path_ok path" "s' = s" using sp by (auto split: if_split_asm)
  then have q: "strcmp_eq path ''/'' \<longleftrightarrow> path = ''/''" using strcmp_eq_cstr [of path "''/''"] by (simp add: path_ok_def)
  obtain d where d: "list_dir (InitReaddir (fs_root st)) [''.'', ''..''] = Ret ([''.'', ''..''] @ map d_filename (entries (fs_root st)), d)"
    "entries d = entries (fs_root st)" by (rule list_dir_all)
  show ?thesis
  proof (cases "path = ''/''")
    case True
    then have c: "do_op E srv st (Op_readdir path) = Ret (r, st\<lparr>fs_root := d\<rparr>)"
      using d(1) q sp p representsD(8) [OF R] by (simp add: dcfs_readdir_def)
    have "represents bs E (st\<lparr>fs_root := d\<rparr>) s"
      by (rule represents_cursor [OF R do_op_ok [OF E representsD(1) [OF R] c]]) (use d(2) in simp_all)
    then show ?thesis using c p(2) by blast
  next
    case False
    then show ?thesis using q sp p R by (simp add: dcfs_readdir_def)
  qed
qed

text \<open>Fetching the inode of a file that is in memory or was saved.\<close>

lemma fetch_sim:
  assumes E: "env_ok E" and R: "represents bs E st s" and i: "i < length (s_dir s)" and f: "f = s_dir s ! i" "0 < f_refs f \<or> f_saved f"
  obtains ino st1 where "get_inode E srv st (capsule st i) = Ret (Some ino, st1)" and "represents bs E st1 s"
    and "capsule st1 = capsule st" and "entries (fs_root st1) = entries (fs_root st)" and "inode_table st1 (capsule st i) = Some ino"
    and "in_memory bs E (fs_kb st1) (fs_backend st1) ino (capsule st i) f" and "on_servers bs E (fs_backend st1) (capsule st i) f"
proof (cases "inode_table st (capsule st i)")
  case (Some ino)
  then show thesis
    using that [of ino st] R representsD(14) [OF R i] f(1) by (simp add: get_inode_def matches_def)
next
  case None
  let ?h = "capsule st i" and ?b = "fs_backend st"
  have m: "on_servers bs E ?b ?h f" "f_refs f = 0" using representsD(14) [OF R i] f(1) None by (simp_all add: matches_def)
  then have sv: "f_saved f" "saved_file bs E ?b ?h (f_data f)" "length ?h = 32" "\<not> f_changed f" using f(2) by (simp_all add: on_servers_def)
  obtain n key bm s2 ino where l: "ReadFileMeta E srv ?b ?h = Ret (NO_ERR, n, a_size (f_data f), key, bm, ?b\<lparr>be_srv := s2\<rparr>)"
    "grows {} ?b (?b\<lparr>be_srv := s2\<rparr>)" "Inode ?h n bm (fs_kb st) 512 (a_size (f_data f)) key = Ret ino"
    "rd.intact E (?b\<lparr>be_srv := s2\<rparr>) ino" "f_data f = \<lparr>a_size = i_size ino, a_bytes = rd.file_byte E (?b\<lparr>be_srv := s2\<rparr>) ino\<rparr>"
    "i_hashname ino = ?h" "i_block_size ino = fs_kb st * 1024" "i_ref_count ino = 0" "\<forall>i. \<not> is_dirty ino i"
    by (rule saved_reload [OF E representsD(2,3) [OF R] sv(3) representsD(4) [OF R, symmetric] representsD(5,6) [OF R] sv(2)])
  define st1 where "st1 = st\<lparr>fs_backend := ?b\<lparr>be_srv := s2\<rparr>, inode_table := (inode_table st)(?h \<mapsto> ino)\<rparr>"
  have g: "get_inode E srv st ?h = Ret (Some ino, st1)" using None l(1,3) by (simp add: get_inode_def st1_def)
  have mem: "in_memory bs E (fs_kb st) (?b\<lparr>be_srv := s2\<rparr>) ino ?h f" using l(4-9) m(2) sv(1) by (simp add: in_memory_def)
  have os: "on_servers bs E (?b\<lparr>be_srv := s2\<rparr>) ?h f"
    using matches_grows [OF l(2), of ?h bs E "fs_kb st" None f] m by (simp add: matches_def)
  have "represents bs E st1 s"
  proof (rule represents_file [OF R i refl])
    show "fs_ok st1" using fs_frame_ok get_inode_fs_frame [OF g] representsD(1) [OF R] by blast
    show "keys_ok E (fs_backend st1)" using representsD(2) [OF R] by (simp add: st1_def keys_ok_def)
    show "grows {?h} ?b (fs_backend st1)" using l(2) by (simp add: st1_def grows_def)
    show "matches bs E (fs_kb st) (fs_backend st1) (inode_table st1 ?h) ?h f" using mem os by (simp add: st1_def matches_def)
  qed (use representsD(7,10,13) [OF R] i f(1) in \<open>simp_all add: st1_def\<close>)
  then show thesis
    by (rule that [OF g]) (use mem os in \<open>simp_all add: st1_def capsule_def fun_eq_iff\<close>)
qed

lemma getattr_sim:
  assumes E: "env_ok E" and R: "represents bs E st s" and sp: "spec_op bs s (Op_getattr path) = Some (r, s')"
  shows "\<exists>st'. do_op E srv st (Op_getattr path) = Ret (r, st') \<and> represents bs E st' s'"
proof -
  have p: "path_ok path" "s' = s" using sp by (auto simp: Let_def split: if_split_asm option.split_asm)
  then have q: "strcmp_eq path ''/'' \<longleftrightarrow> path = ''/''" using strcmp_eq_cstr [of path "''/''"] by (simp add: path_ok_def)
  obtain st1 where f: "find_entry st path = Ret (map_option (\<lambda>i. \<lparr>d_filename = tl path, d_hashname = capsule st i\<rparr>) (file_at s path), st1)"
    "represents bs E st1 s" "capsule st1 = capsule st" by (rule represents_find [OF R p(1)])
  show ?thesis
  proof (cases "path = ''/''")
    case True
    then show ?thesis using q sp p R by (simp add: dcfs_getattr_def Let_def)
  next
    case False
    show ?thesis
    proof (cases "file_at s path")
      case None
      then show ?thesis using False q sp p f by (simp add: dcfs_getattr_def Let_def)
    next
      case (Some i)
      have i: "i < length (s_dir s)" using position_Some [of _ "s_dir s" i] Some by (simp add: file_at_def)
      have g: "0 < f_refs (s_dir s ! i) \<or> f_saved (s_dir s ! i)" "r = R_attr 0 33060 (a_size (f_data (s_dir s ! i)))"
        using sp p(1) False Some by (auto simp: Let_def split: if_split_asm)
      obtain ino st2 where "get_inode E srv st1 (capsule st1 i) = Ret (Some ino, st2)" "represents bs E st2 s"
        "in_memory bs E (fs_kb st2) (fs_backend st2) ino (capsule st1 i) (s_dir s ! i)"
        by (rule fetch_sim [OF E f(2) i refl g(1)])
      then show ?thesis using False q f(1,3) Some g(2) p(2) by (simp add: dcfs_getattr_def Let_def in_memory_def)
    qed
  qed
qed

lemma open_sim:
  assumes E: "env_ok E" and R: "represents bs E st s" and sp: "spec_op bs s (Op_open path) = Some (r, s')"
  shows "\<exists>st'. do_op E srv st (Op_open path) = Ret (r, st') \<and> represents bs E st' s'"
proof -
  have p: "path_ok path" using sp by (auto split: if_split_asm)
  obtain st1 where f: "find_entry st path = Ret (map_option (\<lambda>i. \<lparr>d_filename = tl path, d_hashname = capsule st i\<rparr>) (file_at s path), st1)"
    "represents bs E st1 s" "capsule st1 = capsule st" by (rule represents_find [OF R p(1)])
  show ?thesis
  proof (cases "file_at s path")
    case None
    then show ?thesis using sp p f by (simp add: dcfs_open_def)
  next
    case (Some i)
    let ?f = "s_dir s ! i" and ?n = "s_next s"
    have i: "i < length (s_dir s)" using position_Some [of _ "s_dir s" i] Some by (simp add: file_at_def)
    have g: "unat ?n < 255" "0 < f_refs ?f \<or> f_saved ?f" "r = R_handle 0 (?n + 1)" "s' = new_handle (set_file s i (?f\<lparr>f_refs := Suc (f_refs ?f)\<rparr>)) i"
      using sp p(1) Some by (auto simp: Let_def split: if_split_asm)
    obtain ino st2 where t: "get_inode E srv st1 (capsule st1 i) = Ret (Some ino, st2)" "represents bs E st2 s"
      "capsule st2 = capsule st1" "in_memory bs E (fs_kb st2) (fs_backend st2) ino (capsule st1 i) ?f"
      "on_servers bs E (fs_backend st2) (capsule st1 i) ?f"
      by (rule fetch_sim [OF E f(2) i refl g(2)])
    let ?h = "capsule st2 i"
    have u: "unat (?n + 1) = Suc (unat ?n)" using g(1) unat_add_lem [of ?n 1] by simp
    have lt: "unat (?n + 1) < 256" using u g(1) by simp
    have len: "length (fd_table st2) = 256" "length (s_fds s) = 256" using representsD(1,10) [OF t(2)] by (simp_all add: fs_ok_def)
    define st3 where "st3 = st2\<lparr>inode_table := (inode_table st2)(?h \<mapsto> Ref ino), fd_cnt := ?n + 1, fd_table := (fd_table st2)[unat (?n + 1) := ?h]\<rparr>"
    have c: "do_op E srv st (Op_open path) = Ret (r, st3)"
      using f(1,3) t(1,3) Some g(1,3) u len(1) representsD(7) [OF t(2)]
      by (simp add: dcfs_open_def Let_def new_fd_def vec_set_def st3_def)
    have refs: "f_refs ?f \<le> unat ?n" by (rule representsD(13) [OF t(2) i])
    then have "unat (i_ref_count ino + 1) = Suc (f_refs ?f)"
      using t(4) g(1) unat_add_lem [of "i_ref_count ino" 1] by (simp add: in_memory_def)
    then have m: "matches bs E (fs_kb st2) (fs_backend st2) (Some (Ref ino)) ?h (?f\<lparr>f_refs := Suc (f_refs ?f)\<rparr>)"
      using t(3-5) by (auto simp: matches_def in_memory_def on_servers_def Ref_def)
    have "represents bs E st3 s'"
    proof (rule represents_file [OF t(2) i refl])
      show "fs_ok st3" by (rule do_op_ok [OF E representsD(1) [OF R] c]) simp
      show "keys_ok E (fs_backend st3)" "grows {?h} (fs_backend st2) (fs_backend st3)"
        using representsD(2,3) [OF t(2)] by (simp_all add: st3_def grows_refl)
      show "matches bs E (fs_kb st2) (fs_backend st3) (inode_table st3 ?h) ?h (?f\<lparr>f_refs := Suc (f_refs ?f)\<rparr>)"
        using m by (simp add: st3_def)
      show "s_fds s ! j = Some k \<and> fd_table st3 ! j = fd_table st2 ! j \<or> k = i \<and> fd_table st3 ! j = ?h"
        if "j < 256" "s_fds s' ! j = Some k" for j k
        using that len lt by (auto simp: g(4) new_handle_def set_file_def st3_def nth_list_update split: if_split_asm)
    qed (use refs u len in \<open>simp_all add: st3_def g(4) new_handle_def set_file_def\<close>)
    with c show ?thesis by blast
  qed
qed

lemma read_sim:
  assumes E: "env_ok E" and R: "represents bs E st s" and sp: "spec_op bs s (Op_read path fh dst sz offset) = Some (r, s')"
  shows "\<exists>st'. do_op E srv st (Op_read path fh dst sz offset) = Ret (r, st') \<and> represents bs E st' s'"
proof -
  obtain i f where hf: "handle_file s fh = Some (i, f)" using sp by (auto split: option.split_asm)
  define data where "data = spec_read (f_data f) sz offset"
  have g: "0 < sz" "unat offset + unat sz < 2 ^ 64" "buffer_fits bs (unat offset) (length data) dst" "r = R_data (int (length data)) data" "s' = s"
    using sp hf by (auto simp: data_def Let_def split: if_split_asm)
  let ?h = "capsule st i" and ?b = "fs_backend st"
  obtain ino where h: "handle_inode E srv st path fh = Ret (Some (?h, Some ino), st)" "inode_table st ?h = Some ino" "i < length (s_dir s)"
    "s_dir s ! i = f" "f_refs f \<le> unat (s_next s)" "on_servers bs E ?b ?h f" "in_memory bs E (fs_kb st) ?b ino ?h f"
    by (rule represents_handle [OF R hf])
  have I: "rd.intact E ?b ino" "f_data f = \<lparr>a_size = i_size ino, a_bytes = rd.file_byte E ?b ino\<rparr>" "BlockSize ino = bs"
    using h(7) representsD(4) [OF R] by (simp_all add: in_memory_def BlockSize_def)
  show ?thesis
  proof (cases "offset < i_size ino")
    case False
    then have "data = []" using I(2) by (simp add: data_def spec_read_def word_less_nat_alt)
    then show ?thesis using False h(1) g(4,5) R by (simp add: dcfs_read_def Let_def int_of_def)
  next
    case True
    obtain dst' ino' b' where rd: "dcfs_read E srv st path dst sz offset fh =
        Ret (int (length data), dst', st\<lparr>fs_backend := b', inode_table := (inode_table st)(?h \<mapsto> ino')\<rparr>)"
      "take (length data) dst' = data" "rd.loads E ino ?b ino' b'"
      by (rule read_spec [OF E h(1) I(1,2,3) g(1,2) True data_def g(3)])
    let ?st = "st\<lparr>fs_backend := b', inode_table := (inode_table st)(?h \<mapsto> ino')\<rparr>"
    have c: "do_op E srv st (Op_read path fh dst sz offset) = Ret (r, ?st)" using rd(1,2) g(4) by simp
    have ld: "meta ino' = meta ino" "rd.same_backend ?b b'" "rd.intact E b' ino'" "is_dirty ino' = is_dirty ino"
      using rd(3) by (simp_all add: rd.loads_def)
    have "matches bs E (fs_kb st) b' (Some ino) ?h f"
      by (rule matches_grows [OF grows_same [OF ld(2)], of _ "{}"]) (use h(6,7) in \<open>simp_all add: matches_def\<close>)
    then have "matches bs E (fs_kb st) b' (Some ino') ?h f"
      using ld meta_eqD [OF ld(1)] rd.file_byte_loads [OF rd(3)] I(2) h(7) by (auto simp: matches_def in_memory_def)
    moreover have "s_dir s = (s_dir s)[i := f]" using h(4) list_update_id [of "s_dir s" i] by simp
    ultimately have "represents bs E ?st s"
      by (intro represents_file [OF R h(3) refl do_op_ok [OF E representsD(1) [OF R] c]])
         (use representsD(2,7,10) [OF R] grows_same [OF ld(2)] ld(2) h(4,5) in \<open>simp_all add: keys_ok_def rd.same_backend_def\<close>)
    with c g(5) show ?thesis by blast
  qed
qed

text \<open>The dirty blocks of a new file after a write: all up to the one that holds the new end.\<close>

lemma dirty_upto:
  fixes at :: nat
  assumes "at \<le> m"
  shows "i \<le> m div bs \<or> at div bs \<le> i \<and> i \<le> (at + n) div bs \<longleftrightarrow> i \<le> max m (at + n) div bs"
  using div_le_mono [OF assms, of bs] div_le_mono [of m "at + n" bs] div_le_mono [of "at + n" m bs] by (auto simp: max_def)

text \<open>What a write makes of a file: its new bytes are in memory, and a file that was never saved stays so.\<close>

lemma written_file:
  assumes os: "on_servers bs E b h f" and mem: "in_memory bs E kb b ino h f" and refs: "0 < f_refs f"
    and at: "at = spec_at (f_data f) offset" and fits: "unat at + unat sz < 2 ^ 64" and f': "f' = f\<lparr>f_data := spec_write bs (f_data f) src sz offset, f_changed := True\<rparr>"
    and w: "rd.intact E b' ino'" "rd.same_backend b b'" "meta ino' = meta (ino\<lparr>i_size := max (i_size ino) (at + sz)\<rparr>)"
      "\<lparr>a_size = i_size ino', a_bytes = rd.file_byte E b' ino'\<rparr> = spec_write bs (f_data f) src sz offset"
      "\<forall>i. is_dirty ino' i \<longleftrightarrow> is_dirty ino i \<or> unat at div bs \<le> i \<and> i \<le> (unat at + unat sz) div bs"
  shows "on_servers bs E b' h f'" and "in_memory bs E kb b' ino' h f'"
proof -
  note m = meta_eqD [OF w(3)]
  have data: "f_data f = \<lparr>a_size = i_size ino, a_bytes = rd.file_byte E b ino\<rparr>" using mem by (simp add: in_memory_def)
  have sz: "unat at \<le> unat (i_size ino)" "unat (i_size ino') = max (unat (i_size ino)) (unat at + unat sz)"
    using data fits unat_add_lem [of at sz] m(3) by (simp_all add: at spec_at_def min_def max_def word_le_nat_alt)
  have dirty: "is_dirty ino' j \<longleftrightarrow> j \<le> unat (i_size ino') div bs" if "\<not> f_saved f" for j
  proof -
    have "is_dirty ino' j \<longleftrightarrow> j \<le> unat (i_size ino) div bs \<or> unat at div bs \<le> j \<and> j \<le> (unat at + unat sz) div bs"
    proof (cases "f_changed f")
      case True
      then show ?thesis using w(5) that mem by (simp add: in_memory_def)
    next
      case False
      then have "i_size ino = 0" using that os data by (simp add: on_servers_def)
      then show ?thesis using False w(5) that mem sz(1) by (auto simp: in_memory_def)
    qed
    then show ?thesis using dirty_upto [OF sz(1)] sz(2) by simp
  qed
  have tail: "a_bytes (f_data f') q = NUL" if "\<not> f_saved f" "unat (i_size ino') div bs < q div bs" for q
  proof -
    have "unat (i_size ino') < q" using that(2) by (meson div_le_mono linorder_not_less)
    then have "unat at + unat sz < q" using sz(2) by simp
    then have "\<not> q < unat at + unat sz + overrun bs (unat at) (unat sz)" by (simp add: overrun_def)
    moreover have "unat (i_size ino) div bs < q div bs"
      using that(2) div_le_mono [of "unat (i_size ino)" "unat (i_size ino')" bs] sz(2) by simp
    moreover have "a_size (f_data f) = i_size ino" using data by simp
    ultimately show ?thesis using that(1) os by (simp add: f' spec_write_def at [symmetric] Let_def on_servers_def)
  qed
  have "a_size (f_data f') = i_size ino'" using w(4) by (simp add: f' flip: w(4))
  then show "on_servers bs E b' h f'" using refs os w(2) tail by (auto simp: on_servers_def f' rd.same_backend_def)
  show "in_memory bs E kb b' ino' h f'" using mem w(1,4) m dirty by (auto simp: in_memory_def f')
qed

lemma write_sim:
  assumes E: "env_ok E" and R: "represents bs E st s" and sp: "spec_op bs s (Op_write path fh src sz offset) = Some (r, s')"
  shows "\<exists>st'. do_op E srv st (Op_write path fh src sz offset) = Ret (r, st') \<and> represents bs E st' s'"
proof -
  obtain i f where hf: "handle_file s fh = Some (i, f)" using sp by (auto split: option.split_asm)
  define at where "at = spec_at (f_data f) offset"
  define f' where "f' = f\<lparr>f_data := spec_write bs (f_data f) src sz offset, f_changed := True\<rparr>"
  have g: "0 < sz" "buffer_fits bs (unat at) (unat sz) src" "r = R_data (int (unat sz)) []" "s' = set_file s i f'"
    using sp hf by (auto simp: at_def f'_def split: if_split_asm)
  let ?h = "capsule st i" and ?b = "fs_backend st"
  obtain ino where h: "handle_inode E srv st path fh = Ret (Some (?h, Some ino), st)" "inode_table st ?h = Some ino" "i < length (s_dir s)"
    "s_dir s ! i = f" "0 < f_refs f" "f_refs f \<le> unat (s_next s)" "on_servers bs E ?b ?h f" "in_memory bs E (fs_kb st) ?b ino ?h f"
    by (rule represents_handle [OF R hf])
  have I: "rd.intact E ?b ino" "f_data f = \<lparr>a_size = i_size ino, a_bytes = rd.file_byte E ?b ino\<rparr>" "BlockSize ino = bs"
    using h(8) representsD(4) [OF R] by (simp_all add: in_memory_def BlockSize_def)
  obtain ino' b' where w: "dcfs_write E srv st path src sz offset fh =
      Ret (int (unat sz), st\<lparr>fs_backend := b', inode_table := (inode_table st)(?h \<mapsto> ino')\<rparr>)"
    "rd.intact E b' ino'" "rd.same_backend ?b b'" "meta ino' = meta (ino\<lparr>i_size := max (i_size ino) (at + sz)\<rparr>)"
    "\<lparr>a_size = i_size ino', a_bytes = rd.file_byte E b' ino'\<rparr> = spec_write bs (f_data f) src sz offset"
    "\<forall>i. is_dirty ino' i \<longleftrightarrow> is_dirty ino i \<or> unat at div bs \<le> i \<and> i \<le> (unat at + unat sz) div bs"
    by (rule write_spec [OF E h(1) I(1,2,3) at_def g(1,2)])
  let ?st = "st\<lparr>fs_backend := b', inode_table := (inode_table st)(?h \<mapsto> ino')\<rparr>"
  have c: "do_op E srv st (Op_write path fh src sz offset) = Ret (r, ?st)" using w(1) g(3) by simp
  have "unat at + unat sz < 2 ^ 64" using g(2) by (simp add: buffer_fits_def)
  from written_file [OF h(7,8,5) at_def this f'_def w(2-6)] have "represents bs E ?st s'"
    by (intro represents_file [where f' = f', OF R h(3) refl do_op_ok [OF E representsD(1) [OF R] c]])
       (use representsD(2,7,10) [OF R] grows_same [OF w(3)] w(3) h(4,6) in
         \<open>simp_all add: g(4) set_file_def f'_def keys_ok_def rd.same_backend_def matches_def\<close>)
  with c show ?thesis by blast
qed

text \<open>Closing a handle: the count drops, and the last reference takes the inode and the handle with it.\<close>

lemma close_counts:
  assumes E: "env_ok E" and R: "represents bs E st s" and hf: "handle_file s fh = Some (i, f)" and two: "1 < f_refs f"
  shows "\<exists>st'. do_op E srv st (Op_close path fh) = Ret (R_handle 0 fh, st') \<and> represents bs E st' (set_file s i (f\<lparr>f_refs := f_refs f - 1\<rparr>))"
proof -
  let ?h = "capsule st i" and ?b = "fs_backend st" and ?f = "f\<lparr>f_refs := f_refs f - 1\<rparr>"
  obtain ino where h: "handle_inode E srv st path fh = Ret (Some (?h, Some ino), st)" "inode_table st ?h = Some ino" "i < length (s_dir s)"
    "s_dir s ! i = f" "f_refs f \<le> unat (s_next s)" "on_servers bs E ?b ?h f" "in_memory bs E (fs_kb st) ?b ino ?h f"
    by (rule represents_handle [OF R hf])
  define ino1 where "ino1 = ino\<lparr>i_ref_count := i_ref_count ino - 1\<rparr>"
  have u: "unat (i_ref_count ino) = f_refs f" using h(7) by (simp add: in_memory_def)
  have sub: "unat (i_ref_count ino - 1) = f_refs f - 1" "0 < i_ref_count ino"
    using u two by (simp_all add: unat_sub_if_size word_less_nat_alt)
  have "f_refs f < 256" using h(5) representsD(1,7) [OF R] by (simp add: fs_ok_def)
  then have "unat (ucast (i_ref_count ino - 1) :: 32 word) = f_refs f - 1"
    using sub(1) by (simp add: unsigned_ucast_eq unsigned_take_bit_eq take_bit_nat_eq_self)
  then have nz: "(ucast (i_ref_count ino - 1) :: 32 word) \<noteq> 0" "i_ref_count ino - 1 \<noteq> 0" using two sub(1) by (metis less_numeral_extra(3) unat_0 zero_less_diff)+
  let ?st = "st\<lparr>inode_table := (inode_table st)(?h \<mapsto> ino1)\<rparr>"
  have c: "do_op E srv st (Op_close path fh) = Ret (R_handle 0 fh, ?st)"
    using h(1) nz sub(2) by (simp add: dcfs_flush_def Unref_def Let_def ino1_def assertO_def)
  have "matches bs E (fs_kb st) ?b (Some ino1) ?h ?f"
    using h(6,7) sub(1) two by (auto simp: matches_def in_memory_def on_servers_def ino1_def)
  then have "represents bs E ?st (set_file s i ?f)"
    by (intro represents_file [where f' = ?f, OF R h(3) refl do_op_ok [OF E representsD(1) [OF R] c]])
       (use representsD(2,3,7,10) [OF R] h(4,5) in \<open>simp_all add: set_file_def grows_refl\<close>)
  with c show ?thesis by blast
qed

lemma close_releases:
  assumes E: "env_ok E" and R: "represents bs E st s" and hf: "handle_file s fh = Some (i, f)" and one: "f_refs f = 1"
    and h: "h = capsule st i" "inode_table st h = Some ino"
    and fl: "FlushCache E srv (ino\<lparr>i_ref_count := 0\<rparr>) (fs_backend st) = Ret (NO_ERR, drop_caches (ino\<lparr>i_ref_count := 0\<rparr>), b')"
    and b': "keys_ok E b'" "grows {h} (fs_backend st) b'" and f': "on_servers bs E b' h f'" "f_refs f' = 0" "f_name f' = f_name f"
  shows "\<exists>st'. do_op E srv st (Op_close path fh) = Ret (R_handle 0 0, st') \<and>
    represents bs E st' (set_file (s\<lparr>s_fds := (s_fds s)[unat fh := None]\<rparr>) i f')"
proof -
  obtain ino2 where o: "handle_inode E srv st path fh = Ret (Some (h, Some ino2), st)" "inode_table st h = Some ino2" "i < length (s_dir s)"
    "s_dir s ! i = f" "in_memory bs E (fs_kb st) (fs_backend st) ino2 h f" "0 < fh" "unat fh < 256"
    unfolding h(1) by (rule represents_handle [OF R hf])
  have ino: "ino2 = ino" "i_hashname ino = h" "i_ref_count ino = 1"
    using o(2,5) h(2) one by (simp_all add: in_memory_def word_unat_eq_iff)
  have len: "length (fd_table st) = 256" "length (s_fds s) = 256" using representsD(1,10) [OF R] by (simp_all add: fs_ok_def)
  have d: "i_ref_count (drop_caches (ino\<lparr>i_ref_count := 0\<rparr>)) = 0" "i_hashname (drop_caches (ino\<lparr>i_ref_count := 0\<rparr>)) = h"
    using meta_eqD [OF drop_caches_inv(2), of "ino\<lparr>i_ref_count := 0\<rparr>"] ino(2) by simp_all
  let ?st = "st\<lparr>fs_backend := b', inode_table := (inode_table st)(h := None), fd_table := (fd_table st)[unat fh := []]\<rparr>"
  have c: "do_op E srv st (Op_close path fh) = Ret (R_handle 0 0, ?st)"
    using flush_last_reference [OF o(1) [unfolded ino(1)] o(6) _ ino(3) fl d] o(7) len(1) by simp
  have "represents bs E ?st (set_file (s\<lparr>s_fds := (s_fds s)[unat fh := None]\<rparr>) i f')"
    by (rule represents_file [where f' = f', OF R o(3) h(1) do_op_ok [OF E representsD(1) [OF R] c]])
       (use b' f' representsD(7) [OF R] o(4,7) len in \<open>auto simp: set_file_def matches_def nth_list_update split: if_split_asm\<close>)
  with c show ?thesis by blast
qed

text \<open>The records of the first flush of a file are composed records of bounded size.\<close>

lemma close_records:
  assumes E: "env_ok E" and R: "represents bs E st s" and hf: "handle_file s fh = Some (i, f)"
    and ch: "f_refs f = 1 \<Longrightarrow> f_changed f \<Longrightarrow> \<not> f_saved f \<and> unat (a_size (f_data f)) div bs < 512"
  shows "\<forall>p \<in> set (new_records E st (Op_close path fh)). \<exists>k t hs d. p = record_pdu E k t hs d \<and>
    (\<forall>h \<in> set hs. length h \<le> 32) \<and> length hs \<le> 2 \<and> d \<noteq> [] \<and> length d < 2 ^ 30"
proof -
  let ?h = "capsule st i" and ?b = "fs_backend st"
  obtain ino where o: "inode_table st ?h = Some ino" "on_servers bs E ?b ?h f" "in_memory bs E (fs_kb st) ?b ino ?h f" "fd_table st ! unat fh = ?h"
    by (rule represents_handle [OF R hf])
  show ?thesis
  proof (cases "i_ref_count ino = 1 \<and> dirty_blocks ino \<noteq> []")
    case True
    then obtain j where "is_dirty ino j" by (auto simp: dirty_blocks_def filter_empty_conv)
    then have c: "f_changed f" using o(3) by (auto simp: in_memory_def split: if_split_asm)
    have "f_refs f = 1" using o(3) True by (simp add: in_memory_def)
    note s = ch [OF this c]
    have d: "rd.intact E ?b ino" "\<forall>i. is_dirty ino i \<longleftrightarrow> i < Suc (unat (i_size ino) div bs)" "BlockSize ino \<le> 16384" "Suc (unat (i_size ino) div bs) \<le> 512"
      using o(3) c s representsD(4,6) [OF R] by (simp_all add: in_memory_def less_Suc_eq_le BlockSize_def)
    have "length ?h = 32" using o(2) by (simp add: on_servers_def)
    from first_batch_small [OF E this representsD(2) [OF R] d(1) o(1) d(2) _ d(4,3)] o(1,4) True show ?thesis
      by (simp add: new_records_def Let_def)
  qed (use o(1,4) in \<open>auto simp: new_records_def\<close>)
qed

lemma close_saves:
  assumes E: "env_ok E" and R: "represents bs E st s" and hf: "handle_file s fh = Some (i, f)" and one: "f_refs f = 1"
    and ch: "f_changed f" "\<not> f_saved f" "unat (a_size (f_data f)) div bs < 512" and N: "names_ok E st (Op_close path fh)"
  obtains ino b' where "inode_table st (capsule st i) = Some ino"
    and "FlushCache E srv (ino\<lparr>i_ref_count := 0\<rparr>) (fs_backend st) = Ret (NO_ERR, drop_caches (ino\<lparr>i_ref_count := 0\<rparr>), b')"
    and "keys_ok E b'" and "grows {capsule st i} (fs_backend st) b'" and "on_servers bs E b' (capsule st i) (saved_sfile bs f)"
proof -
  define h where "h = capsule st i"
  let ?b = "fs_backend st"
  obtain ino where o: "inode_table st h = Some ino" "on_servers bs E ?b h f" "in_memory bs E (fs_kb st) ?b ino h f" "fd_table st ! unat fh = h"
    unfolding h_def by (rule represents_handle [OF R hf])
  define k where "k = Suc (unat (i_size ino) div bs)"
  have I: "rd.intact E ?b ino" "i_hashname ino = h" "f_data f = \<lparr>a_size = i_size ino, a_bytes = rd.file_byte E ?b ino\<rparr>"
    "i_ref_count ino = 1" "i_ino_recordname ino = []" "\<forall>i. is_dirty ino i \<longleftrightarrow> i < k" "BlockSize ino = bs"
    using o(3) one ch(1,2) representsD(4) [OF R] by (simp_all add: in_memory_def word_unat_eq_iff k_def less_Suc_eq_le BlockSize_def)
  have S: "length h = 32" "known (be_srv ?b) h" "mid_index (be_mid ?b) h = Some []"
    "\<forall>q. k \<le> q div bs \<longrightarrow> rd.file_byte E ?b ino q = NUL"
    using o(2) ch(2) I(3) by (simp_all add: on_servers_def k_def Suc_le_eq)
  have k: "0 < k" "k \<le> 512" using ch(3) I(3) by (simp_all add: k_def)
  define recs where "recs = first_batch E st h"
  have db: "dirty_blocks ino = [0..<k]" by (rule dirty_prefix [OF I(6)])
  then have nr: "new_records E st (Op_close path fh) = recs" using o(1,4) I(4) k(1) by (simp add: new_records_def recs_def Let_def)
  have pay: "payload_in_transit p \<noteq> []" if p: "p \<in> set recs" for p
    using close_records [OF E R hf, of path] ch p unfolding nr by (auto simp: record_pdu_def Let_def)
  have n: "writable E (be_srv ?b) recs" "\<forall>p \<in> set recs. \<forall>c. lookup (be_srv ?b) c (header_hash p) = None"
    "\<forall>p \<in> set recs. rvalid (header_hash p) (ser_pdu (cdc E) p)" "\<forall>p \<in> set recs. hd (header_hash p) \<noteq> NUL"
    using N pay by (simp_all add: names_ok_def nr Let_def)
  have recs: "recs = batch_records E (mid_tick (be_mid ?b)) h h h []
      (sealed_key E (symmetric_middleware_key (be_mid ?b)) (i_aes_key (ino\<lparr>i_ref_count := 0\<rparr>)))
      (map (cipher E (ino\<lparr>i_ref_count := 0\<rparr>)) (dirty_blocks (ino\<lparr>i_ref_count := 0\<rparr>)))"
    using dirty_prefix [of "ino\<lparr>i_ref_count := 0\<rparr>" k] I(6) db by (simp add: recs_def first_batch_def o(1) Let_def)
  obtain b' where b': "FlushCache E srv (ino\<lparr>i_ref_count := 0\<rparr>) ?b = Ret (NO_ERR, drop_caches (ino\<lparr>i_ref_count := 0\<rparr>), b')"
    "keys_ok E b'" "grows {h} ?b b'" "saved_file bs E b' h \<lparr>a_size = of_nat k * 16 * 1024, a_bytes = rd.file_byte E ?b (ino\<lparr>i_ref_count := 0\<rparr>)\<rparr>"
    by (rule flush_saves [OF E representsD(2) [OF R] _ _ S(2,3) _ _ k _ _ recs n(1,3,4,2)]) (use I S(4) representsD(6) [OF R] in simp_all)
  have "known (be_srv b') h" using b'(3) S(2) by (simp add: grows_def)
  then have "on_servers bs E b' h (saved_sfile bs f)"
    using b'(4) S(1) I(3) by (simp add: on_servers_def saved_sfile_def k_def)
  with o(1) b'(1-3) show thesis unfolding h_def by (rule that)
qed

lemma close_sim:
  assumes E: "env_ok E" and R: "represents bs E st s" and sp: "spec_op bs s (Op_close path fh) = Some (r, s')"
    and N: "names_ok E st (Op_close path fh)"
  shows "\<exists>st'. do_op E srv st (Op_close path fh) = Ret (r, st') \<and> represents bs E st' s'"
proof -
  obtain i f where hf: "handle_file s fh = Some (i, f)" using sp by (auto split: option.split_asm)
  let ?h = "capsule st i" and ?b = "fs_backend st" and ?s = "s\<lparr>s_fds := (s_fds s)[unat fh := None]\<rparr>"
  obtain ino where o: "inode_table st ?h = Some ino" "0 < f_refs f" "on_servers bs E ?b ?h f" "in_memory bs E (fs_kb st) ?b ino ?h f"
    by (rule represents_handle [OF R hf])
  from sp hf o(2) consider (counts) "1 < f_refs f" "r = R_handle 0 fh" "s' = set_file s i (f\<lparr>f_refs := f_refs f - 1\<rparr>)"
    | (clean) "f_refs f = 1" "\<not> f_changed f" "r = R_handle 0 0" "s' = set_file ?s i (f\<lparr>f_refs := 0\<rparr>)"
    | (saves) "f_refs f = 1" "f_changed f" "\<not> f_saved f" "unat (a_size (f_data f)) div bs < 512" "r = R_handle 0 0"
        "s' = set_file ?s i (saved_sfile bs f)"
    by (auto simp: Let_def split: if_split_asm)
  then show ?thesis
  proof cases
    case counts
    then show ?thesis using close_counts [OF E R hf] by simp
  next
    case clean
    have "\<forall>i. \<not> is_dirty ino i" using o(4) clean(2) by (simp add: in_memory_def split: if_split_asm)
    then have "FlushCache E srv (ino\<lparr>i_ref_count := 0\<rparr>) ?b = Ret (NO_ERR, drop_caches (ino\<lparr>i_ref_count := 0\<rparr>), ?b)"
      by (simp add: flush_clean)
    from close_releases [OF E R hf clean(1) refl o(1) this, of "f\<lparr>f_refs := 0\<rparr>"] show ?thesis
      using representsD(2,3) [OF R] o(3) clean by (simp add: grows_refl on_servers_def)
  next
    case saves
    obtain ino b' where "inode_table st ?h = Some ino"
      "FlushCache E srv (ino\<lparr>i_ref_count := 0\<rparr>) ?b = Ret (NO_ERR, drop_caches (ino\<lparr>i_ref_count := 0\<rparr>), b')"
      "keys_ok E b'" "grows {?h} ?b b'" "on_servers bs E b' ?h (saved_sfile bs f)"
      by (rule close_saves [OF E R hf saves(1-4) N])
    from close_releases [OF E R hf saves(1) refl this] saves(5,6) show ?thesis by (simp add: saved_sfile_def)
  qed
qed

text \<open>A call that adds a file with a handle.\<close>

lemma represents_new:
  assumes R: "represents bs E st s" and fd: "unat (s_next s) < 255" and ok: "fs_ok st'" "keys_ok E (fs_backend st')"
    and g: "grows {h} (fs_backend st) (fs_backend st')" and h: "h \<notin> d_hashname ` set (entries (fs_root st))"
    and c: "entries (fs_root st') = entries (fs_root st) @ [\<lparr>d_filename = f_name f, d_hashname = h\<rparr>]" "inode_table st' = (inode_table st)(h \<mapsto> ino)"
      "fd_cnt st' = s_next s + 1" "fs_kb st' = fs_kb st" "fd_table st' = (fd_table st)[unat (s_next s + 1) := h]"
    and m: "matches bs E (fs_kb st) (fs_backend st') (Some ino) h f" "f_refs f = 1"
    and s': "s' = new_handle (s\<lparr>s_dir := s_dir s @ [f]\<rparr>) (length (s_dir s))"
  shows "represents bs E st' s'"
proof -
  let ?es = "entries (fs_root st)" and ?n = "length (s_dir s)"
  have u: "unat (s_next s + 1) = Suc (unat (s_next s))" using fd unat_add_lem [of "s_next s" 1] by simp
  have len: "length (fd_table st) = 256" "length (s_fds s) = 256" "length ?es = ?n" using representsD(1,10,11) [OF R] by (simp_all add: fs_ok_def)
  have cap: "capsule st' ?n = h" "i < ?n \<Longrightarrow> capsule st' i = capsule st i" "i < ?n \<Longrightarrow> capsule st i \<noteq> h" for i
    using h len(3) by (auto simp: capsule_def c(1) nth_append)
  have "i < ?n + 1 \<and> fd_table st' ! j = capsule st' i" if j: "j < 256" "s_fds s' ! j = Some i" for j i
  proof (cases "j = unat (s_next s + 1)")
    case True
    then show ?thesis using j len cap(1) by (simp add: s' new_handle_def c(5))
  next
    case False
    then show ?thesis using j representsD(12) [OF R j(1), of i] cap(2) by (auto simp: s' new_handle_def c(5))
  qed
  moreover have "f_refs (s_dir s' ! i) \<le> unat (s_next s') \<and>
      matches bs E (fs_kb st') (fs_backend st') (inode_table st' (capsule st' i)) (capsule st' i) (s_dir s' ! i)" if i: "i < ?n + 1" for i
  proof (cases "i = ?n")
    case True
    then show ?thesis using m u cap(1) c(2,4) by (simp add: s' new_handle_def)
  next
    case False
    then have i': "i < ?n" using i by simp
    have "matches bs E (fs_kb st) (fs_backend st') (inode_table st (capsule st i)) (capsule st i) (s_dir s ! i)"
      by (rule matches_grows [OF g _ representsD(14) [OF R i']]) (use cap(3) [OF i'] in simp)
    then show ?thesis using representsD(13) [OF R i'] u cap(2,3) [OF i'] c(2,4) i' by (simp add: s' new_handle_def nth_append)
  qed
  moreover have "map d_filename (entries (fs_root st')) = map f_name (s_dir s')" "distinct (map d_hashname (entries (fs_root st')))"
    using representsD(8,9) [OF R] h by (simp_all add: c(1) s' new_handle_def)
  moreover have "length (s_dir s') = ?n + 1" "length (s_fds s') = 256" "s_next s' = s_next s + 1" "inv (be_srv (fs_backend st'))"
    using len(2) g by (simp_all add: s' new_handle_def grows_def)
  ultimately show ?thesis
    unfolding represents_def using ok c(3,4) representsD(4-6) [OF R] by (intro conjI) (simp_all, blast)
qed

lemma create_adds:
  assumes E: "env_ok E" and R: "represents bs E st s" and path: "path_ok path" and none: "file_at s path = None"
    and fd: "unat (s_next s) < 255" and N: "names_ok E st (Op_create path)"
  shows "\<exists>st'. do_op E srv st (Op_create path) = Ret (R_handle 0 (s_next s + 1), st') \<and>
    represents bs E st' (new_handle (s\<lparr>s_dir := s_dir s @ [new_sfile (tl path)]\<rparr>) (length (s_dir s)))"
proof -
  let ?b = "fs_backend st" and ?es = "entries (fs_root st)" and ?n = "length (s_dir s)"
  have new: "tl path \<notin> d_filename ` set ?es"
  proof -
    have "tl path \<notin> set (map f_name (s_dir s))" using none by (auto simp: file_at_def position_None)
    then show ?thesis using representsD(8) [OF R] by (metis set_map)
  qed
  define h where "h = header_hash (meta_pdu E (mid_tick (be_mid ?b)))"
  have n: "writable E (be_srv ?b) [meta_pdu E (mid_tick (be_mid ?b))]" "\<forall>c. lookup (be_srv ?b) c h = None" "h \<notin> d_hashname ` set ?es"
    using N new by (simp_all add: names_ok_def new_records_def Let_def h_def)
  have kb: "fs_kb st * 1024 \<noteq> 0" using representsD(4,5) [OF R] by auto
  obtain ino st' where c: "dcfs_create E srv st path 0 = Ret (0, s_next s + 1, st')" "new_file E st' path h (s_next s + 1) ino"
    "entries (fs_root st') = ?es @ [\<lparr>d_filename = tl path, d_hashname = h\<rparr>]" "inode_table st' = (inode_table st)(h \<mapsto> ino)"
    "fd_cnt st' = s_next s + 1" "fs_kb st' = fs_kb st"
    "\<forall>c r. r \<noteq> h \<longrightarrow> lookup (be_srv (fs_backend st')) c r = lookup (be_srv ?b) c r"
    "fd_table st' = (fd_table st)[unat (s_next s + 1) := h]" "\<forall>q. rd.file_byte E (fs_backend st') ino q = NUL"
    "\<forall>c. known (be_srv ?b) c \<longrightarrow> known (be_srv (fs_backend st')) c"
    "mid_index (be_mid (fs_backend st')) = (mid_index (be_mid ?b))(h \<mapsto> [])"
    "symmetric_middleware_key (be_mid (fs_backend st')) = symmetric_middleware_key (be_mid ?b)"
    using create_new_file [OF E representsD(1-3) [OF R] _ _ new _ kb n(1), of 0] path fd
    unfolding h_def path_ok_def representsD(7) [OF R] by metis
  let ?f = "new_sfile (tl path)" and ?s = "new_handle (s\<lparr>s_dir := s_dir s @ [new_sfile (tl path)]\<rparr>) (length (s_dir s))"
  have F: "fs_ok st'" "keys_ok E (fs_backend st')" "inv (be_srv (fs_backend st'))" "length h = 32" "known (be_srv (fs_backend st')) h"
    "rd.intact E (fs_backend st') ino" "\<forall>i. \<not> is_dirty ino i" "i_hashname ino = h" "i_ino_recordname ino = []" "i_size ino = 0" "i_ref_count ino = 1"
    "i_block_size ino = fs_kb st * 1024"
    using c(2,6) by (simp_all add: new_file_def rd.intact_def)
  have "lookup (be_srv (fs_backend st')) c r = Some d" if "lookup (be_srv ?b) c r = Some d" for c r d
    using that n(2) c(7) by (cases "r = h") auto
  then have g: "grows {h} ?b (fs_backend st')" using F(3) c(10-12) by (simp add: grows_def)
  have m: "matches bs E (fs_kb st) (fs_backend st') (Some ino) h ?f"
    using F c(9,11) by (simp add: matches_def on_servers_def in_memory_def new_sfile_def fun_eq_iff)
  have "represents bs E st' ?s"
    by (rule represents_new [OF R fd F(1,2) g n(3) _ c(4-6,8) m _ refl]) (use c(3) in \<open>simp_all add: new_sfile_def\<close>)
  with c(1) show ?thesis by simp
qed

lemma create_sim:
  assumes E: "env_ok E" and R: "represents bs E st s" and sp: "spec_op bs s (Op_create path) = Some (r, s')"
    and N: "names_ok E st (Op_create path)"
  shows "\<exists>st'. do_op E srv st (Op_create path) = Ret (r, st') \<and> represents bs E st' s'"
proof (cases "file_at s path")
  case None
  then show ?thesis using create_adds [OF E R _ None _ N] sp by (auto split: if_split_asm)
next
  case (Some i)
  have p: "path_ok path" using sp by (auto split: if_split_asm)
  obtain st1 where "find_entry st path = Ret (map_option (\<lambda>i. \<lparr>d_filename = tl path, d_hashname = capsule st i\<rparr>) (file_at s path), st1)"
    "represents bs E st1 s" by (rule represents_find [OF R p])
  then show ?thesis using Some sp p by (simp add: dcfs_create_def)
qed

section \<open>Sessions\<close>

lemma op_sim:
  assumes "env_ok E" and "represents bs E st s" and "spec_op bs s c = Some (r, s')" and "names_ok E st c"
  shows "\<exists>st'. do_op E srv st c = Ret (r, st') \<and> represents bs E st' s'"
  using assms create_sim [of E bs st s] open_sim [of E bs st s] read_sim [of E bs st s] write_sim [of E bs st s] close_sim [of E bs st s]
    getattr_sim [of E bs st s] readdir_sim [of E bs st s]
  by (cases c) (simp_all del: spec_op.simps do_op.simps)

text \<open>
  A session the specification gives results for, in which the names of new records are good, runs
  to its end with these results, and the file system represents the specification again.
\<close>

lemma ops_refine:
  assumes E: "env_ok E" and P: "\<And>st s c r s'. represents bs E st s \<Longrightarrow> spec_op bs s c = Some (r, s') \<Longrightarrow> P st c \<Longrightarrow> names_ok E st c"
    and "represents bs E st s" and "spec_ops bs s cs = Some (rs, s')" and "along P E srv st cs"
  shows "\<exists>st'. do_ops E srv st cs = Ret (rs, st') \<and> represents bs E st' s'"
  using assms(3-5)
proof (induction cs arbitrary: st s rs)
  case (Cons c cs)
  obtain r s1 rs1 where s: "spec_op bs s c = Some (r, s1)" "spec_ops bs s1 cs = Some (rs1, s')" "rs = r # rs1"
    using Cons.prems(2) by (auto split: option.split_asm)
  obtain st1 where c: "do_op E srv st c = Ret (r, st1)" "represents bs E st1 s1"
    using op_sim [OF E Cons.prems(1) s(1) P [OF Cons.prems(1) s(1)]] Cons.prems(3) by auto
  have "along P E srv st1 cs" using Cons.prems(3) c(1) by simp
  from Cons.IH [OF c(2) s(2) this] c(1) s(3) show ?case by auto
qed simp

end

end
