(* ===== verification/Net_Server.thy ===== *)
theory Net_Server
  imports Dc_Client Session
begin

text \<open>
  \<open>DCServerNet\<close> as a record store. What the client relies on of the DataCapsule servers and the
  network is \<open>service_ok\<close>, a predicate on the parameters; under it the networked server interprets
  the contract \<open>record_store\<close> that the middleware is proved against, for records with a payload.
  \<open>sample_service\<close> is a concrete service that satisfies it.
\<close>

section \<open>What the client relies on\<close>

text \<open>
  The DataCapsule servers and the network between them and the client. \<open>healthy S w\<close> says that they
  work in state \<open>w\<close>, \<open>stored S w\<close> are the records they hold under their hashes. A record sent to at
  least one server is stored and acknowledged, a request for a stored record is answered with it,
  and every message that arrives, late and repeated ones included, is about stored records. The
  ZeroMQ library accepts their addresses. The servers accept records as the client sends them: its
  signature field holds the string \<open>0\<close>, which a server that verifies signatures, as the notes in
  \<open>src/test/README.md\<close> describe it, would refuse.
\<close>

record 'n service =
  healthy :: "'n \<Rightarrow> bool"
  stored :: "'n \<Rightarrow> string \<Rightarrow> capsule_pdu option"
  write_addrs :: "string set"
  read_addrs :: "string set"

definition pdu_fits :: "env \<Rightarrow> capsule_pdu \<Rightarrow> bool" where
  "pdu_fits E p \<longleftrightarrow> pdu_ascii p \<and> length (header_hash p) = 32 \<and> length (ser_pdu (cdc E) p) < 2 ^ 31"

definition service_ok ::
    "env \<Rightarrow> req_codec \<Rightarrow> 'n network \<Rightarrow> 'n service \<Rightarrow> bool" where
  "service_ok E M N S \<longleftrightarrow>
     (\<forall>w p addrs. healthy S w \<and> stored S w (header_hash p) = None \<and> pdu_fits E p \<and> addrs \<noteq> [] \<and> set addrs \<subseteq> write_addrs S \<longrightarrow>
        (let w1 = fold (\<lambda>a w. transmit N w a (ser_pdu (cdc E) p)) addrs w in
         healthy S w1 \<and> stored S w1 = (stored S w)(header_hash p \<mapsto> p) \<and> (\<exists>m \<in> set (fst (arrivals N w1)). acks E (header_hash p) m))) \<and>
     (\<forall>w addr req. healthy S w \<and> addr \<in> read_addrs S \<longrightarrow>
        (let w1 = transmit N w addr (ser_get_req M req) in
         healthy S w1 \<and> stored S w1 = stored S w \<and>
         (\<forall>p. stored S w (req_hash req) = Some p \<and> \<not> fresh_req req \<and> \<not> metaonly_req req \<longrightarrow>
            (\<exists>m \<in> set (fst (arrivals N w1)). returns M (req_hash req) p m)))) \<and>
     (\<forall>w. healthy S w \<longrightarrow> healthy S (snd (arrivals N w)) \<and> stored S (snd (arrivals N w)) = stored S w \<and>
        (\<forall>m \<in> set (fst (arrivals N w)). valid_msg E M (stored S w) m)) \<and>
     (\<forall>a \<in> write_addrs S \<union> read_addrs S. zmq_connects E (''tcp://'' @ a))"

lemma service_okD:
  assumes "service_ok E M N S" and "healthy S w"
  shows "stored S w (header_hash p) = None \<Longrightarrow> pdu_fits E p \<Longrightarrow> addrs \<noteq> [] \<Longrightarrow> set addrs \<subseteq> write_addrs S \<Longrightarrow>
      w1 = fold (\<lambda>a w. transmit N w a (ser_pdu (cdc E) p)) addrs w \<Longrightarrow>
      healthy S w1 \<and> stored S w1 = (stored S w)(header_hash p \<mapsto> p) \<and> (\<exists>m \<in> set (fst (arrivals N w1)). acks E (header_hash p) m)"
    and "addr \<in> read_addrs S \<Longrightarrow> w2 = transmit N w addr (ser_get_req M req) \<Longrightarrow>
      healthy S w2 \<and> stored S w2 = stored S w \<and>
      (stored S w (req_hash req) = Some q \<and> \<not> fresh_req req \<and> \<not> metaonly_req req \<longrightarrow>
         (\<exists>m \<in> set (fst (arrivals N w2)). returns M (req_hash req) q m))"
    and "arrivals N w = (ms, w3) \<Longrightarrow> healthy S w3 \<and> stored S w3 = stored S w \<and> (\<forall>m \<in> set ms. valid_msg E M (stored S w) m)"
  using assms by (fastforce simp: service_ok_def Let_def)+

text \<open>States between two calls of the file system.\<close>

definition net_inv ::
    "env \<Rightarrow> req_codec \<Rightarrow> 'n network \<Rightarrow> 'n service \<Rightarrow> 'n server_net \<Rightarrow> bool" where
  "net_inv E M N S s \<longleftrightarrow>
     codec_ok (cdc E) \<and> service_ok E M N S \<and> healthy S (net_world s) \<and> tables_ok E (stored S (net_world s)) (net_client s) \<and>
     put_map (net_client s) = Map.empty \<and> (\<forall>g st. get_map (net_client s) g = Some st \<longrightarrow> get_ready st) \<and>
     dc_server_dc_sockets (net_client s) \<noteq> [] \<and> set (dc_server_dc_sockets (net_client s)) \<subseteq> write_addrs S \<and>
     dc_server_serve_sockets (net_client s) \<noteq> [] \<and> set (dc_server_serve_sockets (net_client s)) \<subseteq> read_addrs S \<and>
     (\<forall>h p. stored S (net_world s) h = Some p \<longrightarrow> pdu_fits E p)"

lemma pdu_fits_parse: "codec_ok (cdc E) \<Longrightarrow> pdu_fits E p \<Longrightarrow> parse_pdu (cdc E) (ser_pdu (cdc E) p) = p"
  by (simp add: codec_ok_def pdu_fits_def)

lemma tables_ok_more:
  "tables_ok E R c \<Longrightarrow> R h = None \<Longrightarrow> tables_ok E (R(h \<mapsto> p)) c"
  unfolding tables_ok_def by (metis fun_upd_apply option.distinct(1))

lemma tables_ok_frame:
  "tables_ok E R (c\<lparr>put_map := P\<rparr>) = tables_ok E R c" "tables_ok E R (c\<lparr>draws := n\<rparr>) = tables_ok E R c"
  by (simp_all add: tables_ok_def)

text \<open>Going to sleep changes the entry of the operation only, and only if it is not done.\<close>

lemma wait_put_simps [simp]: "put_done (wait_put st) = put_done st" "put_ready st \<Longrightarrow> put_ready (wait_put st)"
  by (simp_all add: wait_put_def)

lemma wait_get_simps [simp]:
  "get_done (wait_get st) = get_done st" "get_ret (wait_get st) = get_ret st" "get_srl (wait_get st) = get_srl st"
  "get_done st \<Longrightarrow> get_asleep (wait_get st) = get_asleep st"
  by (simp_all add: wait_get_def)

lemma Put_wait_simps [simp]:
  "put_map (Put_wait c h) h = map_option wait_put (put_map c h)" "recv_ack_map (Put_wait c h) = recv_ack_map c"
  "get_map (Put_wait c h) = get_map c" "dom (put_map (Put_wait c h)) = dom (put_map c)"
  "dc_server_dc_sockets (Put_wait c h) = dc_server_dc_sockets c" "dc_server_serve_sockets (Put_wait c h) = dc_server_serve_sockets c"
  "tables_ok E R (Put_wait c h) = tables_ok E R c"
  by (auto simp: Put_wait_def tables_ok_frame)

lemma Get_wait_simps [simp]:
  "get_map (Get_wait c h mt) (h, mt) = map_option wait_get (get_map c (h, mt))" "put_map (Get_wait c h mt) = put_map c"
  "recv_ack_map (Get_wait c h mt) = recv_ack_map c" "dom (get_map (Get_wait c h mt)) = dom (get_map c)"
  "g \<noteq> (h, mt) \<Longrightarrow> get_map (Get_wait c h mt) g = get_map c g"
  "dc_server_dc_sockets (Get_wait c h mt) = dc_server_dc_sockets c" "dc_server_serve_sockets (Get_wait c h mt) = dc_server_serve_sockets c"
  by (auto simp: Get_wait_def)

lemma tables_ok_Get_wait: "tables_ok E R c \<Longrightarrow> tables_ok E R (Get_wait c h mt)"
  by (auto simp: tables_ok_def Get_wait_def split: if_splits)

lemma net_write:
  assumes inv: "net_inv E M N S s" and fresh: "stored S (net_world s) rec = None"
    and p: "d = ser_pdu (cdc E) p" "header_hash p = rec" "pdu_fits E p"
  shows "\<exists>s'. DCServerNet_WriteRecord E M N s dc rec d = Ret (NO_ERR, s') \<and> net_inv E M N S s' \<and>
           stored S (net_world s') = (stored S (net_world s))(rec \<mapsto> p)"
proof -
  let ?c = "net_client s" and ?w = "net_world s"
  note i = inv [unfolded net_inv_def]
  define c1 where "c1 = ?c\<lparr>put_map := [rec \<mapsto> new_put]\<rparr>"
  define w1 where "w1 = mcast_dc N c1 ?w d"
  have start: "Put_start N ?c ?w rec d = (c1, w1)"
    using i by (simp add: Put_start_def c1_def w1_def Let_def)
  have w1: "healthy S w1 \<and> stored S w1 = (stored S ?w)(rec \<mapsto> p) \<and> (\<exists>m \<in> set (fst (arrivals N w1)). acks E rec m)"
    using service_okD(1) [of E M N S ?w p "dc_server_dc_sockets ?c" w1] i fresh p
    by (simp add: w1_def mcast_dc_def c1_def)
  obtain ms w' where arr: "arrivals N w1 = (ms, w')" by (cases "arrivals N w1")
  have a: "healthy S w' \<and> stored S w' = stored S w1 \<and> (\<forall>m \<in> set ms. valid_msg E M (stored S w1) m)"
    using service_okD(3) [of E M N S w1 ms w'] i w1 arr by blast
  have "tables_ok E (stored S w1) c1"
    using i fresh w1 by (simp add: c1_def tables_ok_frame tables_ok_more)
  with a obtain c' where l: "listen E M (Put_wait c1 rec) ms = Ret c'" "tables_ok E (stored S w1) c'"
    using listen_valid [of E "stored S w1" "Put_wait c1 rec" ms M] by auto
  note f = listen_frame [OF l(1)]
  have noack: "recv_ack_map c1 rec = None" using i fresh by (auto simp: c1_def tables_ok_def)
  obtain st' where st': "put_map c' rec = Some st'" "put_ready st'"
    using listen_put [OF l(1), of rec "wait_put new_put"] noack w1 arr by (auto simp: c1_def)
  define s' where "s' = \<lparr>net_client = Put_finish c' rec, net_world = w'\<rparr>"
  have wr: "DCServerNet_WriteRecord E M N s dc rec d = Ret (NO_ERR, s')"
    by (simp add: DCServerNet_WriteRecord_def start arr l st' s'_def)
  have "dom (put_map c') = {rec}" using f by (simp add: c1_def)
  then have dom: "put_map (Put_finish c' rec) = Map.empty"
    by (auto simp: Put_finish_def fun_eq_iff domIff)
  have "\<forall>g st. get_map c' g = Some st \<longrightarrow> get_ready st"
    using f i by (simp add: c1_def) (metis domD domI option.inject)
  then have "net_inv E M N S s'"
    using i f l(2) a w1 dom p(3) by (auto simp: net_inv_def s'_def Put_finish_def tables_ok_frame c1_def)
  then show ?thesis using wr a w1 by (auto simp: s'_def)
qed

lemma net_get_start:
  assumes inv: "net_inv E M N S s" and p: "stored S (net_world s) h = Some p" "payload_in_transit p \<noteq> []"
  shows "\<exists>c1 w1 st. Get_start M N (net_client s) (net_world s) h False False = Ret (c1, w1) \<and>
    healthy S w1 \<and> stored S w1 = stored S (net_world s) \<and> tables_ok E (stored S w1) c1 \<and> put_map c1 = Map.empty \<and>
    dc_server_dc_sockets c1 = dc_server_dc_sockets (net_client s) \<and>
    dc_server_serve_sockets c1 = dc_server_serve_sockets (net_client s) \<and> get_map c1 (h, False) = Some st \<and>
    (\<forall>g st. g \<noteq> (h, False) \<longrightarrow> get_map c1 g = Some st \<longrightarrow> get_ready st) \<and>
    (get_ready st \<or> (\<exists>m \<in> set (fst (arrivals N w1)). returns M h p m))"
proof (cases "get_map (net_client s) (h, False)")
  case None
  let ?c = "net_client s"
  define req where "req = \<lparr>req_hash = h, req_replyaddr = recv_get_resp_addr ?c, fresh_req = False, metaonly_req = False\<rparr>"
  define c1 where "c1 = ?c\<lparr>get_map := (get_map ?c)((h, False) \<mapsto> new_get),
     draws := Suc (draws ?c)\<rparr>"
  define addr where "addr = dc_server_serve_sockets ?c ! (net_rand N (draws ?c) mod length (dc_server_serve_sockets ?c))"
  define w1 where "w1 = transmit N (net_world s) addr (ser_get_req M req)"
  note i = inv [unfolded net_inv_def]
  have "addr \<in> set (dc_server_serve_sockets ?c)" using i by (simp add: addr_def)
  then have addr: "addr \<in> read_addrs S" using i by blast
  have "Get_start M N ?c (net_world s) h False False = Ret (c1, w1)"
    using None i by (simp add: Get_start_def send_get_req_def Let_def c1_def w1_def req_def addr_def)
  moreover have "healthy S w1 \<and> stored S w1 = stored S (net_world s) \<and> (\<exists>m \<in> set (fst (arrivals N w1)). returns M h p m)"
    using service_okD(2) [of E M N S "net_world s" addr w1 req p] i p(1) addr by (simp add: req_def w1_def)
  moreover have "tables_ok E (stored S (net_world s)) c1"
    using i by (auto simp: tables_ok_def c1_def)
  ultimately show ?thesis using i by (auto simp: c1_def)
next
  case (Some st)
  with inv show ?thesis by (auto simp: net_inv_def Get_start_def)
qed

lemma net_read:
  assumes inv: "net_inv E M N S s" and p: "stored S (net_world s) h = Some p" "payload_in_transit p \<noteq> []"
    and n: "length (ser_pdu (cdc E) p) \<le> n"
  shows "\<exists>s'. DCServerNet_ReadRecord E M N s dc h n = Ret (NO_ERR, ser_pdu (cdc E) p, s') \<and>
           net_inv E M N S s' \<and> stored S (net_world s') = stored S (net_world s)"
proof -
  obtain c1 w1 st where start: "Get_start M N (net_client s) (net_world s) h False False = Ret (c1, w1)"
    and w1: "healthy S w1" "stored S w1 = stored S (net_world s)" "tables_ok E (stored S w1) c1" "put_map c1 = Map.empty"
      "dc_server_dc_sockets c1 = dc_server_dc_sockets (net_client s)"
      "dc_server_serve_sockets c1 = dc_server_serve_sockets (net_client s)" "get_map c1 (h, False) = Some st"
    and fin: "\<forall>g st. g \<noteq> (h, False) \<longrightarrow> get_map c1 g = Some st \<longrightarrow> get_ready st"
    and ret: "get_ready st \<or> (\<exists>m \<in> set (fst (arrivals N w1)). returns M h p m)"
    using net_get_start [OF assms(1-3)] by blast
  obtain ms w' where arr: "arrivals N w1 = (ms, w')" by (cases "arrivals N w1")
  have svc: "service_ok E M N S" using inv by (simp add: net_inv_def)
  have a: "healthy S w'" "stored S w' = stored S w1" "\<forall>m \<in> set ms. valid_msg E M (stored S w1) m"
    using service_okD(3) [OF svc w1(1) arr] by blast+
  obtain c' where l: "listen E M (Get_wait c1 h False) ms = Ret c'" "tables_ok E (stored S w1) c'"
    using listen_valid [OF tables_ok_Get_wait [OF w1(3)] a(3)] by blast
  note f = listen_frame [OF l(1)]
  obtain st' where st': "get_map c' (h, False) = Some st'" "get_ready st'"
    using listen_get [OF l(1), of h "wait_get st" p] w1(7) p(2) ret arr by auto
  have srl: "get_ret st' = 0" "get_srl st' = Some (ser_pdu (cdc E) p)"
    using l(2) st' p(1) w1(2) unfolding tables_ok_def by fastforce+
  have "DCServerNet_ReadRecord E M N s dc h n = Ret (NO_ERR, ser_pdu (cdc E) p, \<lparr>net_client = c', net_world = w'\<rparr>)"
    using n by (simp add: DCServerNet_ReadRecord_def start arr l st' Get_finish_def srl)
  moreover have "\<forall>g st. get_map c' g = Some st \<longrightarrow> get_ready st"
  proof (intro allI impI)
    fix g st2 assume g: "get_map c' g = Some st2"
    show "get_ready st2"
    proof (cases "g = (h, False)")
      case False
      have "g \<in> dom (get_map c1)" using f g by auto
      then obtain st1 where "get_map c1 g = Some st1" by blast
      then show ?thesis using f fin False g by (metis Get_wait_simps(5) option.inject)
    qed (use g st' in simp)
  qed
  then have "net_inv E M N S \<lparr>net_client = c', net_world = w'\<rparr>"
    using inv f l(2) a w1 by (auto simp: net_inv_def)
  ultimately show ?thesis using a(2) w1(2) by auto
qed

section \<open>The networked server keeps the contract\<close>

definition net_lookup :: "env \<Rightarrow> 'n service \<Rightarrow> 'n server_net \<Rightarrow> string \<Rightarrow> string \<Rightarrow> string option" where
  "net_lookup E S s dc h = map_option (ser_pdu (cdc E)) (stored S (net_world s) h)"

definition net_writes :: "env \<Rightarrow> string \<Rightarrow> string \<Rightarrow> bool" where
  "net_writes E h d \<longleftrightarrow> (\<exists>p. d = ser_pdu (cdc E) p \<and> header_hash p = h \<and> pdu_fits E p)"

definition net_reads :: "env \<Rightarrow> string \<Rightarrow> string \<Rightarrow> bool" where
  "net_reads E h d \<longleftrightarrow> payload_in_transit (parse_pdu (cdc E) d) \<noteq> []"

interpretation net: record_store "net_server E M N" "net_inv E M N S" "net_lookup E S"
  "\<lambda>s dc. True" "\<lambda>s h. stored S (net_world s) h = None" "net_writes E" "net_reads E" for E M N S
proof unfold_locales
  fix s dc rec d
  assume "net_inv E M N S s" "stored S (net_world s) rec = None" "net_writes E rec d"
  then show "\<exists>s'. WriteRecord (net_server E M N) s dc rec d = Ret (NO_ERR, s') \<and> net_inv E M N S s' \<and>
        True \<and> net_lookup E S s' dc rec = Some d \<and> (\<forall>c. True \<longrightarrow> True) \<and>
        (\<forall>c r. r \<noteq> rec \<longrightarrow> net_lookup E S s' c r = net_lookup E S s c r) \<and>
        (\<forall>r. r \<noteq> rec \<longrightarrow> stored S (net_world s) r = None \<longrightarrow> stored S (net_world s') r = None)"
    using net_write [of E M N S s rec d] by (fastforce simp: net_writes_def net_lookup_def net_server_def)
next
  fix s dc rec d n
  assume a: "net_inv E M N S s" "net_lookup E S s dc rec = Some d" "net_reads E rec d" "length d \<le> n"
  then obtain p where p: "stored S (net_world s) rec = Some p" "d = ser_pdu (cdc E) p" "payload_in_transit p \<noteq> []"
    by (auto simp: net_lookup_def net_reads_def net_inv_def pdu_fits_parse)
  from net_read [OF a(1) p(1,3)] a(4) p(2)
  show "\<exists>s'. ReadRecord (net_server E M N) s dc rec n = Ret (NO_ERR, d, s') \<and> net_inv E M N S s' \<and>
        net_lookup E S s' = net_lookup E S s \<and> (\<lambda>dc. True) = (\<lambda>dc. True) \<and>
        (\<lambda>h. stored S (net_world s') h = None) = (\<lambda>h. stored S (net_world s) h = None)"
    by (fastforce simp: net_server_def net_lookup_def fun_eq_iff)
qed

section \<open>A concrete service\<close>

record sample_world =
  sw_stored :: "string \<Rightarrow> capsule_pdu option"
  sw_queue :: "incoming list"

definition sample_write_addr :: string where "sample_write_addr = ''10.4.0.10:4102''"

definition sample_read_addr :: string where "sample_read_addr = ''10.4.0.10:4401''"

definition sample_ack :: "string \<Rightarrow> capsule_pdu" where
  "sample_ack h = empty_pdu\<lparr>header := empty_header\<lparr>msgtype := REPLICATION_ACK\<rparr>, header_hash := h\<rparr>"

definition sample_req_codec :: req_codec where
  "sample_req_codec = \<lparr>ser_get_req = req_hash,
     parse_get_resp = (\<lambda>s. let p = sample_parse_pdu s in
       \<lparr>resp_success = True, resp_hash = header_hash p, resp_record = p, targetAddr = [], fresh_resp = False, fresh_hashes = []\<rparr>),
     ser_fresh = concat\<rparr>"

definition sample_transmit :: "sample_world \<Rightarrow> string \<Rightarrow> string \<Rightarrow> sample_world" where
  "sample_transmit w addr msg =
     (if addr = sample_write_addr then
        let p = sample_parse_pdu msg in
        \<lparr>sw_stored = (sw_stored w)(header_hash p \<mapsto> p), sw_queue = sw_queue w @ [Ack_msg (sample_ser_pdu (sample_ack (header_hash p)))]\<rparr>
      else case sw_stored w msg of
        None \<Rightarrow> w
      | Some p \<Rightarrow> w\<lparr>sw_queue := sw_queue w @ [Resp_msg (sample_ser_pdu p)]\<rparr>)"

definition sample_network :: "sample_world network" where
  "sample_network = \<lparr>transmit = sample_transmit, arrivals = (\<lambda>w. (sw_queue w, w\<lparr>sw_queue := []\<rparr>)), net_rand = (\<lambda>n. n)\<rparr>"

definition sample_service :: "sample_world service" where
  "sample_service = \<lparr>healthy = (\<lambda>w. (\<forall>h p. sw_stored w h = Some p \<longrightarrow> header_hash p = h \<and> pdu_fits sample_env p) \<and>
       (\<forall>m \<in> set (sw_queue w). valid_msg sample_env sample_req_codec (sw_stored w) m)),
     stored = sw_stored, write_addrs = {sample_write_addr}, read_addrs = {sample_read_addr}\<rparr>"

lemma sample_service_sel [simp]:
  "stored sample_service = sw_stored" "write_addrs sample_service = {sample_write_addr}"
  "read_addrs sample_service = {sample_read_addr}" "transmit sample_network = sample_transmit"
  "arrivals sample_network w = (sw_queue w, w\<lparr>sw_queue := []\<rparr>)" "ser_get_req sample_req_codec = req_hash"
  by (simp_all add: sample_service_def sample_network_def sample_req_codec_def)

lemma sample_healthy:
  "healthy sample_service w \<longleftrightarrow> (\<forall>h p. sw_stored w h = Some p \<longrightarrow> header_hash p = h \<and> pdu_fits sample_env p) \<and>
     (\<forall>m \<in> set (sw_queue w). valid_msg sample_env sample_req_codec (sw_stored w) m)"
  by (simp add: sample_service_def)

lemma sample_held:
  "healthy sample_service w \<Longrightarrow> sw_stored w h = Some p \<Longrightarrow> header_hash p = h \<and> pdu_fits sample_env p"
  unfolding sample_healthy by blast

lemma sample_addrs_differ [simp]: "sample_read_addr \<noteq> sample_write_addr"
  by (simp add: sample_read_addr_def sample_write_addr_def)

lemma sample_cdc: "cdc sample_env = sample_codec" "ser_pdu sample_codec = sample_ser_pdu" "parse_pdu sample_codec = sample_parse_pdu"
  by (simp_all add: sample_env_def sample_codec_def)

lemma sample_fits: "pdu_fits sample_env p \<Longrightarrow> sample_parse_pdu (sample_ser_pdu p) = p"
  by (simp add: pdu_fits_def sample_cdc sample_parse_ser)

lemma sample_ack_parse: "length h = 32 \<Longrightarrow> sample_parse_pdu (sample_ser_pdu (sample_ack h)) = sample_ack h"
proof (rule sample_parse_ser)
  assume "length h = 32"
  then have "pdu_bound (sample_ack h) < 2 ^ 31"
    by (simp add: pdu_bound_def sample_ack_def empty_pdu_def empty_header_def)
  then show "length (sample_ser_pdu (sample_ack h)) < 2 ^ 31"
    using sample_ser_bound [of "sample_ack h"] by linarith
qed

lemma sample_ack_simps [simp]: "msgtype (header (sample_ack h)) = REPLICATION_ACK" "header_hash (sample_ack h) = h"
  by (simp_all add: sample_ack_def)

lemma valid_msg_more:
  "valid_msg E M R m \<Longrightarrow> R h = None \<or> R h = Some p \<Longrightarrow> valid_msg E M (R(h \<mapsto> p)) m"
  by (cases m) (auto simp: Let_def)

lemma sample_write_step:
  assumes "healthy sample_service w" and "pdu_fits sample_env p"
    and "sw_stored w (header_hash p) \<in> {None, Some p}"
    and "w1 = sample_transmit w sample_write_addr (sample_ser_pdu p)"
  shows "healthy sample_service w1 \<and> sw_stored w1 = (sw_stored w)(header_hash p \<mapsto> p) \<and>
    (\<exists>m \<in> set (sw_queue w1). acks sample_env (header_hash p) m)"
proof -
  have w1: "w1 = \<lparr>sw_stored = (sw_stored w)(header_hash p \<mapsto> p),
      sw_queue = sw_queue w @ [Ack_msg (sample_ser_pdu (sample_ack (header_hash p)))]\<rparr>"
    by (simp add: assms(4) sample_transmit_def Let_def sample_fits [OF assms(2)])
  have a: "sample_parse_pdu (sample_ser_pdu (sample_ack (header_hash p))) = sample_ack (header_hash p)"
    using assms(2) by (simp add: sample_ack_parse pdu_fits_def)
  have "valid_msg sample_env sample_req_codec (sw_stored w1) m" if "m \<in> set (sw_queue w1)" for m
  proof (cases "m \<in> set (sw_queue w)")
    case True
    then have "valid_msg sample_env sample_req_codec (sw_stored w) m" using assms(1) by (simp add: sample_healthy)
    then show ?thesis using assms(3) valid_msg_more [of sample_env _ "sw_stored w" m "header_hash p" p] by (simp add: w1)
  next
    case False
    with that assms(2) show ?thesis by (simp add: w1 a sample_cdc Let_def pdu_fits_def)
  qed
  moreover have "\<forall>h q. sw_stored w1 h = Some q \<longrightarrow> header_hash q = h \<and> pdu_fits sample_env q"
    using sample_held [OF assms(1)] assms(2) by (simp add: w1)
  ultimately have "healthy sample_service w1" unfolding sample_healthy by blast
  then show ?thesis by (simp add: w1 a sample_cdc)
qed

lemma sample_write:
  assumes "healthy sample_service w" and "pdu_fits sample_env p" and "sw_stored w (header_hash p) \<in> {None, Some p}"
    and "addrs \<noteq> []" and "set addrs \<subseteq> {sample_write_addr}"
    and "w1 = fold (\<lambda>a w. sample_transmit w a (sample_ser_pdu p)) addrs w"
  shows "healthy sample_service w1 \<and> sw_stored w1 = (sw_stored w)(header_hash p \<mapsto> p) \<and>
    (\<exists>m \<in> set (sw_queue w1). acks sample_env (header_hash p) m)"
  using assms
proof (induction addrs arbitrary: w)
  case (Cons a addrs)
  let ?w = "sample_transmit w a (sample_ser_pdu p)"
  have a: "a = sample_write_addr" using Cons.prems(5) by simp
  have s: "healthy sample_service ?w \<and> sw_stored ?w = (sw_stored w)(header_hash p \<mapsto> p) \<and>
      (\<exists>m \<in> set (sw_queue ?w). acks sample_env (header_hash p) m)"
    by (rule sample_write_step [OF Cons.prems(1-3)]) (simp add: a)
  show ?case
  proof (cases "addrs = []")
    case True
    then have "w1 = ?w" using Cons.prems(6) by simp
    with s show ?thesis by blast
  next
    case False
    have "sw_stored ?w (header_hash p) \<in> {None, Some p}" "w1 = fold (\<lambda>a w. sample_transmit w a (sample_ser_pdu p)) addrs ?w"
      using s Cons.prems(6) by (simp_all add: a)
    from Cons.IH [OF _ Cons.prems(2) this(1) False _ this(2)] s Cons.prems(5)
    show ?thesis by (simp add: fun_eq_iff)
  qed
qed simp

lemma sample_read:
  assumes "healthy sample_service w" and "sw_stored w h = Some p" and "w1 = sample_transmit w sample_read_addr h"
  shows "healthy sample_service w1 \<and> sw_stored w1 = sw_stored w \<and> (\<exists>m \<in> set (sw_queue w1). returns sample_req_codec h p m)"
proof -
  have f: "header_hash p = h" "sample_parse_pdu (sample_ser_pdu p) = p"
    using sample_held [OF assms(1,2)] sample_fits [of p] by blast+
  have w1: "w1 = w\<lparr>sw_queue := sw_queue w @ [Resp_msg (sample_ser_pdu p)]\<rparr>"
    using assms(2,3) by (simp add: sample_transmit_def)
  have "valid_msg sample_env sample_req_codec (sw_stored w) (Resp_msg (sample_ser_pdu p))"
    using f assms(2) by (simp add: sample_req_codec_def Let_def)
  moreover have "returns sample_req_codec h p (Resp_msg (sample_ser_pdu p))"
    using f by (simp add: sample_req_codec_def Let_def)
  moreover have "healthy sample_service w1"
    using assms(1) calculation(1) unfolding sample_healthy w1 by auto
  ultimately show ?thesis by (simp add: w1)
qed

lemma sample_service_ok: "service_ok sample_env sample_req_codec sample_network sample_service"
  unfolding service_ok_def Let_def
proof (intro conjI allI impI)
  fix w p addrs
  assume "healthy sample_service w \<and> stored sample_service w (header_hash p) = None \<and> pdu_fits sample_env p \<and>
    addrs \<noteq> [] \<and> set addrs \<subseteq> write_addrs sample_service"
  then show "healthy sample_service (fold (\<lambda>a w. transmit sample_network w a (ser_pdu (cdc sample_env) p)) addrs w)"
    "stored sample_service (fold (\<lambda>a w. transmit sample_network w a (ser_pdu (cdc sample_env) p)) addrs w) =
       (stored sample_service w)(header_hash p \<mapsto> p)"
    "\<exists>m \<in> set (fst (arrivals sample_network (fold (\<lambda>a w. transmit sample_network w a (ser_pdu (cdc sample_env) p)) addrs w))).
       acks sample_env (header_hash p) m"
    using sample_write [of w p addrs] by (simp_all add: sample_cdc)
next
  fix w addr and req :: client_get_request
  assume a: "healthy sample_service w \<and> addr \<in> read_addrs sample_service"
  have "healthy sample_service (sample_transmit w sample_read_addr (req_hash req)) \<and>
    sw_stored (sample_transmit w sample_read_addr (req_hash req)) = sw_stored w"
  proof (cases "sw_stored w (req_hash req)")
    case None
    then show ?thesis using a by (simp add: sample_transmit_def)
  next
    case (Some p)
    then show ?thesis using a sample_read [of w "req_hash req" p] by blast
  qed
  then show "healthy sample_service (transmit sample_network w addr (ser_get_req sample_req_codec req))"
    "stored sample_service (transmit sample_network w addr (ser_get_req sample_req_codec req)) = stored sample_service w"
    using a by simp_all
  fix p
  assume "stored sample_service w (req_hash req) = Some p \<and> \<not> fresh_req req \<and> \<not> metaonly_req req"
  then show "\<exists>m \<in> set (fst (arrivals sample_network (transmit sample_network w addr (ser_get_req sample_req_codec req)))).
       returns sample_req_codec (req_hash req) p m"
    using a sample_read [of w "req_hash req" p] by simp
next
  fix w
  assume w: "healthy sample_service w"
  show "healthy sample_service (snd (arrivals sample_network w))"
    using sample_held [OF w] unfolding sample_healthy by simp
  show "\<forall>m \<in> set (fst (arrivals sample_network w)). valid_msg sample_env sample_req_codec (stored sample_service w) m"
    using w unfolding sample_healthy by simp
next
  show "\<forall>a \<in> write_addrs sample_service \<union> read_addrs sample_service. zmq_connects sample_env (''tcp://'' @ a)"
    by (simp add: sample_env_def)
qed simp

lemma sample_counts: "server_ip_counts ''10.4.0.10:1'' = Ret [(''10.4.0.10'', 1)]"
  by code_simp

lemma sample_addr_lists:
  "connect_servers sample_env 4001 [(''10.4.0.10'', 1)] = Ret [''10.4.0.10:4102'']"
  "connect_servers sample_env 4300 [(''10.4.0.10'', 1)] = Ret [''10.4.0.10:4401'']"
  by (simp_all add: entry_addrs_def upt_rec [of 101] to_string.simps dec_digit_def sample_env_def)

lemma sample_client:
  obtains c where "DCClient sample_env 0 = Ret c" and "dc_server_dc_sockets c = [sample_write_addr]"
    and "dc_server_serve_sockets c = [sample_read_addr]" and "recv_ack_map c = Map.empty"
    and "put_map c = Map.empty" and "get_map c = Map.empty"
proof -
  have "load_client_ip (option_map sample_env) = ''10.0.0.1''" "load_dcserver_ip (option_map sample_env) = ''10.4.0.10:1''"
    by (simp_all add: sample_env_def load_client_ip_def load_dcserver_ip_def)
  then show thesis
    using that by (simp add: DCClient_def ClientComm_def Let_def sample_counts sample_addr_lists sample_write_addr_def sample_read_addr_def
        del: connect_servers.simps)
qed

definition sample_net :: "dc_client \<Rightarrow> sample_world server_net" where
  "sample_net c = \<lparr>net_client = c, net_world = \<lparr>sw_stored = Map.empty, sw_queue = []\<rparr>\<rparr>"

lemma sample_net_inv:
  obtains c where "DCClient sample_env 0 = Ret c"
    and "net_inv sample_env sample_req_codec sample_network sample_service (sample_net c)"
proof -
  obtain c where c: "DCClient sample_env 0 = Ret c" "dc_server_dc_sockets c = [sample_write_addr]"
    "dc_server_serve_sockets c = [sample_read_addr]" "recv_ack_map c = Map.empty" "put_map c = Map.empty" "get_map c = Map.empty"
    by (rule sample_client)
  have "healthy sample_service (net_world (sample_net c))" by (simp add: sample_healthy sample_net_def)
  then have "net_inv sample_env sample_req_codec sample_network sample_service (sample_net c)"
    using c sample_service_ok env_okD(1) [OF sample_env_ok] by (simp add: net_inv_def tables_ok_def sample_net_def)
  with c(1) show thesis by (rule that)
qed

definition sample_record :: "char \<Rightarrow> string \<Rightarrow> capsule_pdu" where
  "sample_record k d = empty_pdu\<lparr>header_hash := replicate 32 k, payload_in_transit := d\<rparr>"

lemma sample_record_length: "length (sample_ser_pdu (sample_record k d)) \<le> 160 + length d"
  using sample_ser_bound [of "sample_record k d"]
  by (simp add: sample_record_def pdu_bound_def empty_pdu_def empty_header_def)

lemma sample_record_fits: "length d < 100 \<Longrightarrow> pdu_fits sample_env (sample_record k d)"
  using sample_record_length [of k d]
  by (simp add: pdu_fits_def pdu_ascii_def ascii_def sample_cdc)
     (simp add: sample_record_def empty_pdu_def empty_header_def)

text \<open>A hash whose record has no payload, or is not stored, is never the answer to a plain \<open>Get\<close>.\<close>

lemma listen_no_answer:
  assumes "listen E M c msgs = Ret c'" and "\<forall>m \<in> set msgs. valid_msg E M R m"
    and "\<forall>p. R h = Some p \<longrightarrow> payload_in_transit p = []"
  shows "get_map c' (h, False) = get_map c (h, False)"
  using assms(1,2)
proof (induction msgs arbitrary: c)
  case (Cons m msgs)
  then obtain c1 where m: "handle_msg E M c m = Ret c1" "listen E M c1 msgs = Ret c'" by (auto simp: outcome_simps)
  have "get_map c1 (h, False) = get_map c (h, False)"
  proof (cases m)
    case (Ack_msg a)
    then show ?thesis using handle_ack_effect(2) [of E c a c1] m(1) by simp
  next
    case (Resp_msg r)
    then have r: "handle_get_resp E M c r = Ret c1" using m(1) by simp
    have v: "resp_success (parse_get_resp M r) \<longrightarrow> \<not> fresh_resp (parse_get_resp M r) \<and>
        R (resp_hash (parse_get_resp M r)) = Some (resp_record (parse_get_resp M r))"
      using Cons.prems(2) Resp_msg by (simp add: Let_def)
    show ?thesis using handle_resp_effect(5) [OF r] v assms(3) by (auto simp: Let_def split: option.splits if_splits)
  qed
  then show ?case using Cons.IH [OF m(2)] Cons.prems(2) by simp
qed simp

text \<open>A read that no response with a payload answers.\<close>

lemma read_unanswered:
  assumes "net_inv E M N S s" and "get_map (net_client s) (h, False) = None"
    and "\<forall>p. stored S (net_world s) h = Some p \<longrightarrow> payload_in_transit p = []"
  shows "DCServerNet_ReadRecord E M N s dc h n = Fault Blocked_forever"
proof -
  let ?c = "net_client s"
  note i = assms(1) [unfolded net_inv_def]
  define req where "req = \<lparr>req_hash = h, req_replyaddr = recv_get_resp_addr ?c, fresh_req = False, metaonly_req = False\<rparr>"
  define st where "st = new_get"
  define c1 where "c1 = ?c\<lparr>get_map := (get_map ?c)((h, False) \<mapsto> st), draws := Suc (draws ?c)\<rparr>"
  define addr where "addr = dc_server_serve_sockets ?c ! (net_rand N (draws ?c) mod length (dc_server_serve_sockets ?c))"
  define w1 where "w1 = transmit N (net_world s) addr (ser_get_req M req)"
  have start: "Get_start M N ?c (net_world s) h False False = Ret (c1, w1)"
    using assms(2) i by (simp add: Get_start_def send_get_req_def Let_def c1_def w1_def req_def addr_def st_def)
  have "addr \<in> set (dc_server_serve_sockets ?c)" using i by (simp add: addr_def)
  then have w1: "healthy S w1" "stored S w1 = stored S (net_world s)"
    using service_okD(2) [of E M N S "net_world s" addr w1 req] i w1_def by blast+
  obtain ms w' where arr: "arrivals N w1 = (ms, w')" by (cases "arrivals N w1")
  have v: "\<forall>m \<in> set ms. valid_msg E M (stored S w1) m" using service_okD(3) [OF _ w1(1) arr] i by blast
  have "tables_ok E (stored S w1) c1" using i w1(2) by (auto simp: tables_ok_def c1_def st_def)
  then obtain c' where l: "listen E M (Get_wait c1 h False) ms = Ret c'" using listen_valid [OF tables_ok_Get_wait v] by blast
  have "get_map c' (h, False) = Some (wait_get st)"
    using listen_no_answer [OF l v] assms(3) w1(2) by (simp add: c1_def)
  then show ?thesis by (simp add: DCServerNet_ReadRecord_def start arr l) (simp add: st_def)
qed

lemma not_stored_not_read:
  "net_inv E M N S s \<Longrightarrow> stored S (net_world s) h = None \<Longrightarrow> get_map (net_client s) (h, False) = None"
  unfolding net_inv_def tables_ok_def by (metis not_None_eq option.distinct(1))

section \<open>Properties\<close>

text \<open>
  C32. Over a working service, a record with a payload that is put under its hash is acknowledged,
  and a later read of this hash into a large enough buffer returns it unchanged, also after a
  second record was put under another hash; the servers then hold exactly these two new records.
\<close>

theorem net_write_then_read:
  assumes "net_inv E M N S s" and "pdu_fits E p" and "pdu_fits E q" and "header_hash p \<noteq> header_hash q"
    and "stored S (net_world s) (header_hash p) = None" and "stored S (net_world s) (header_hash q) = None"
    and "payload_in_transit p \<noteq> []" and "length (ser_pdu (cdc E) p) \<le> n"
  shows "\<exists>s1 s2 s3. DCServerNet_WriteRecord E M N s dc (header_hash p) (ser_pdu (cdc E) p) = Ret (NO_ERR, s1) \<and>
    DCServerNet_WriteRecord E M N s1 dc (header_hash q) (ser_pdu (cdc E) q) = Ret (NO_ERR, s2) \<and>
    DCServerNet_ReadRecord E M N s2 dc (header_hash p) n = Ret (NO_ERR, ser_pdu (cdc E) p, s3) \<and>
    stored S (net_world s3) = (stored S (net_world s))(header_hash p \<mapsto> p, header_hash q \<mapsto> q) \<and> net_inv E M N S s3"
proof -
  obtain s1 where s1: "DCServerNet_WriteRecord E M N s dc (header_hash p) (ser_pdu (cdc E) p) = Ret (NO_ERR, s1)"
    "net_inv E M N S s1" "stored S (net_world s1) = (stored S (net_world s))(header_hash p \<mapsto> p)"
    using net_write [OF assms(1,5) refl refl assms(2)] by blast
  have "stored S (net_world s1) (header_hash q) = None" using s1(3) assms(4,6) by simp
  then obtain s2 where s2: "DCServerNet_WriteRecord E M N s1 dc (header_hash q) (ser_pdu (cdc E) q) = Ret (NO_ERR, s2)"
    "net_inv E M N S s2" "stored S (net_world s2) = (stored S (net_world s1))(header_hash q \<mapsto> q)"
    using net_write [OF s1(2) _ refl refl assms(3)] by blast
  have "stored S (net_world s2) (header_hash p) = Some p" using s2(3) s1(3) assms(4) by simp
  from net_read [OF s2(2) this assms(7,8)] s1 s2 show ?thesis by metis
qed

theorem net_write_then_read_witness:
  "\<exists>c p q s1 s2 s3. DCClient sample_env 0 = Ret c \<and> payload_in_transit p = ''hello'' \<and>
    DCServerNet_WriteRecord sample_env sample_req_codec sample_network (sample_net c) sample_dc (header_hash p)
      (sample_ser_pdu p) = Ret (NO_ERR, s1) \<and>
    DCServerNet_WriteRecord sample_env sample_req_codec sample_network s1 sample_dc (header_hash q)
      (sample_ser_pdu q) = Ret (NO_ERR, s2) \<and>
    DCServerNet_ReadRecord sample_env sample_req_codec sample_network s2 sample_dc (header_hash p) 400 =
      Ret (NO_ERR, sample_ser_pdu p, s3)"
proof -
  obtain c where c: "DCClient sample_env 0 = Ret c"
    "net_inv sample_env sample_req_codec sample_network sample_service (sample_net c)"
    by (rule sample_net_inv)
  have d: "header_hash (sample_record CHR ''P'' x) \<noteq> header_hash (sample_record CHR ''Q'' y)" for x y
    by (simp add: sample_record_def numeral_eq_Suc)
  have none: "stored sample_service (net_world (sample_net c)) h = None" for h by (simp add: sample_net_def)
  have pay: "payload_in_transit (sample_record CHR ''P'' ''hello'') = ''hello''" by (simp add: sample_record_def)
  show ?thesis
    using net_write_then_read [OF c(2) sample_record_fits sample_record_fits d none none, of "''hello''" "''world''" 400 sample_dc]
      c(1) pay sample_record_length [of "CHR ''P''" "''hello''"] by (fastforce simp: sample_cdc)
qed

text \<open>The count of acknowledgements of a hash is never reset, and only the first one ends a wait.\<close>

lemma listen_acked:
  assumes "listen E M c msgs = Ret c'" and "recv_ack_map c h = Some k" and "1 \<le> k"
  shows "put_map c' h = put_map c h \<and> (\<exists>k'. recv_ack_map c' h = Some k' \<and> 1 \<le> k')"
  using assms
proof (induction msgs arbitrary: c k)
  case (Cons m msgs)
  then obtain c1 where m: "handle_msg E M c m = Ret c1" "listen E M c1 msgs = Ret c'" by (auto simp: outcome_simps)
  have "put_map c1 h = put_map c h \<and> (\<exists>k'. recv_ack_map c1 h = Some k' \<and> 1 \<le> k')"
  proof (cases m)
    case (Ack_msg a)
    then have "handle_ack E c a = Ret c1" using m(1) by simp
    from handle_ack_effect(3,4) [OF this refl] Cons.prems(2,3) show ?thesis by (auto split: option.splits)
  next
    case (Resp_msg r)
    then show ?thesis using handle_resp_effect(1,2) [of E M c r c1] m(1) Cons.prems(2,3) by auto
  qed
  then show ?case using Cons.IH [OF m(2)] by metis
qed simp

lemma listen_done_acked:
  assumes "listen E M c msgs = Ret c'" and "put_map c h = Some st" "\<not> put_done st" and "put_map c' h = Some st'" "put_done st'"
    and "\<forall>k. recv_ack_map c h = Some k \<longrightarrow> 1 \<le> k"
  shows "\<exists>k. recv_ack_map c' h = Some k \<and> 1 \<le> k"
  using assms
proof (induction msgs arbitrary: c st)
  case (Cons m msgs)
  then obtain c1 where m: "handle_msg E M c m = Ret c1" "listen E M c1 msgs = Ret c'" by (auto simp: outcome_simps)
  have "(\<exists>st1. put_map c1 h = Some st1 \<and> \<not> put_done st1) \<and> (\<forall>k. recv_ack_map c1 h = Some k \<longrightarrow> 1 \<le> k) \<or>
    (\<exists>k. recv_ack_map c1 h = Some k \<and> 1 \<le> k)"
  proof (cases m)
    case (Ack_msg a)
    then have "handle_ack E c a = Ret c1" using m(1) by simp
    from handle_ack_effect(3,4) [OF this refl] Cons.prems(2,3,6) show ?thesis by (auto split: option.splits)
  next
    case (Resp_msg r)
    then show ?thesis using handle_resp_effect(1,2) [of E M c r c1] m(1) Cons.prems(2,3,6) by auto
  qed
  then show ?case using Cons.IH [OF m(2) _ _ Cons.prems(4,5)] listen_acked [OF m(2)] by blast
qed simp

text \<open>
  C35. A record can be put once only: after a \<open>WriteRecord\<close> that returned, no later \<open>WriteRecord\<close>
  under the same name ever returns, whatever the servers answer, because the number of
  acknowledgements of this name is kept and the wait ends only when the number is one.
\<close>

theorem put_again_never_returns:
  fixes N :: "'n network"
  assumes "DCServerNet_WriteRecord E M N s dc h d = Ret (rc, s')" and "put_map (net_client s) h = None"
    and "\<forall>k. recv_ack_map (net_client s) h = Some k \<longrightarrow> 1 \<le> k"
  shows "rc = NO_ERR \<and> (\<forall>N' w dc' d' r. DCServerNet_WriteRecord E M N' (s'\<lparr>net_world := w\<rparr>) dc' h d' \<noteq> Ret r)"
proof -
  obtain c w ms w' c' st where 1: "Put_start N (net_client s) (net_world s) h d = (c, w)" "arrivals N w = (ms, w')"
    "listen E M (Put_wait c h) ms = Ret c'" "put_map c' h = Some st" "put_ready st" "rc = NO_ERR"
    "s' = \<lparr>net_client = Put_finish c' h, net_world = w'\<rparr>"
    using assms(1) by (rule WriteRecord_RetE)
  have c: "put_map (Put_wait c h) h = Some (wait_put new_put)" "recv_ack_map c = recv_ack_map (net_client s)"
    using 1(1) assms(2) by (auto simp: Put_start_def Let_def)
  obtain k where k: "recv_ack_map c' h = Some k" "1 \<le> k"
    using listen_done_acked [OF 1(3) c(1) _ 1(4)] 1(5) assms(3) c(2) by auto
  have "DCServerNet_WriteRecord E M N' (s'\<lparr>net_world := w0\<rparr>) dc' h d' \<noteq> Ret r" for N' :: "'n network" and w0 dc' d' r
  proof
    assume a: "DCServerNet_WriteRecord E M N' (s'\<lparr>net_world := w0\<rparr>) dc' h d' = Ret r"
    obtain c2 w2 ms2 w2' c2' st2 where 2: "Put_start N' (Put_finish c' h) w0 h d' = (c2, w2)" "arrivals N' w2 = (ms2, w2')"
      "listen E M (Put_wait c2 h) ms2 = Ret c2'" "put_map c2' h = Some st2" "put_ready st2"
      using a by (cases r) (auto simp: 1(7) elim: WriteRecord_RetE)
    have "put_map (Put_wait c2 h) h = Some (wait_put new_put)" "recv_ack_map (Put_wait c2 h) h = Some k"
      using 2(1) k by (auto simp: Put_start_def Put_finish_def Let_def)
    with listen_acked [OF 2(3) _ k(2)] 2(4,5) show False by (auto simp: wait_put_def split: if_splits)
  qed
  with 1(6) show ?thesis by blast
qed

theorem put_again_never_returns_witness:
  "\<exists>s s1 h d. DCServerNet_WriteRecord sample_env sample_req_codec sample_network s sample_dc h d = Ret (NO_ERR, s1) \<and>
     (\<forall>r. DCServerNet_WriteRecord sample_env sample_req_codec sample_network s1 sample_dc h d \<noteq> Ret r)"
proof -
  obtain c where c: "DCClient sample_env 0 = Ret c"
    "net_inv sample_env sample_req_codec sample_network sample_service (sample_net c)"
    by (rule sample_net_inv)
  let ?p = "sample_record CHR ''P'' ''hello''"
  obtain s1 where s1: "DCServerNet_WriteRecord sample_env sample_req_codec sample_network (sample_net c) sample_dc
       (header_hash ?p) (ser_pdu (cdc sample_env) ?p) = Ret (NO_ERR, s1)"
    using net_write [OF c(2) _ refl refl sample_record_fits, of "CHR ''P''" "''hello''" sample_dc] by (auto simp: sample_net_def)
  have none: "put_map (net_client (sample_net c)) h = None" "recv_ack_map (net_client (sample_net c)) h = None" for h
    using c(2) by (auto simp: net_inv_def tables_ok_def sample_net_def)
  have "s1\<lparr>net_world := net_world s1\<rparr> = s1" by simp
  with put_again_never_returns [OF s1 none(1)] none(2) s1
  show ?thesis by (metis option.distinct(1))
qed

text \<open>
  C36. Over a working service, reading a record that no server holds, or one without a payload such
  as a capsule's meta record, waits for ever: an unsuccessful response is dropped, and the response
  with an empty payload is filed as the answer to a metadata-only request. The error value of
  \<open>ReadRecord\<close> is never returned.
\<close>

theorem read_blocks:
  assumes "net_inv E M N S s" and "get_map (net_client s) (h, False) = None"
    and "\<forall>p. stored S (net_world s) h = Some p \<longrightarrow> payload_in_transit p = []"
  shows "DCServerNet_ReadRecord E M N s dc h n = Fault Blocked_forever"
  by (rule read_unanswered [OF assms])

theorem read_blocks_witness:
  "\<exists>c. DCClient sample_env 0 = Ret c \<and>
     DCServerNet_ReadRecord sample_env sample_req_codec sample_network (sample_net c) sample_dc ''missing'' 400 = Fault Blocked_forever"
proof -
  obtain c where c: "DCClient sample_env 0 = Ret c"
    "net_inv sample_env sample_req_codec sample_network sample_service (sample_net c)"
    by (rule sample_net_inv)
  have "get_map (net_client (sample_net c)) (''missing'', False) = None"
    using c(2) by (cases "get_map c (''missing'', False)") (auto simp: net_inv_def tables_ok_def sample_net_def)
  with read_blocks [OF c(2), of "''missing''" sample_dc 400] c(1) show ?thesis by (auto simp: sample_net_def)
qed

end
