(* ===== verification/Client_Threads.thy ===== *)
theory Client_Threads
  imports Net_Server
begin

text \<open>
  The two threads of the networked client as a step relation: the calling thread runs one call at a
  time up to its wait, goes to sleep on the condition variable of its entry unless the entry is done,
  and returns from the call when it is awake and finds the entry done; a sleeping thread is woken by
  \<open>notify_all\<close> or, as the C++ standard allows, spuriously. The listening thread handles a message between
  any two of these steps. No assumption is made on the messages. The record server \<open>DCServerNet\<close> is one
  schedule of these steps.
\<close>

section \<open>Steps\<close>

datatype call = Put_call string | Get_call string bool

record threads =
  t_client :: dc_client
  t_waiting :: "call option"

datatype event =
    Call_put string string
  | Call_get string bool bool
  | Sleep
  | Spurious_wakeup
  | Deliver incoming
  | Return_put string
  | Return_get string bool "string option"

inductive step :: "env \<Rightarrow> req_codec \<Rightarrow> 'n network \<Rightarrow> threads \<Rightarrow> event \<Rightarrow> threads \<Rightarrow> bool"
  for E :: env and M :: req_codec and N :: "'n network" where
  call_put:
    "t_waiting s = None \<Longrightarrow> Put_start N (t_client s) w h d = (c, w') \<Longrightarrow>
     step E M N s (Call_put h d) \<lparr>t_client = c, t_waiting = Some (Put_call h)\<rparr>"
| call_get:
    "t_waiting s = None \<Longrightarrow> Get_start M N (t_client s) w h fr mt = Ret (c, w') \<Longrightarrow>
     step E M N s (Call_get h fr mt) \<lparr>t_client = c, t_waiting = Some (Get_call h mt)\<rparr>"
| deliver:
    "handle_msg E M (t_client s) m = Ret c \<Longrightarrow> step E M N s (Deliver m) (s\<lparr>t_client := c\<rparr>)"
| sleep_put:
    "t_waiting s = Some (Put_call h) \<Longrightarrow> put_map (t_client s) h = Some st \<Longrightarrow> \<not> put_done st \<Longrightarrow> \<not> put_asleep st \<Longrightarrow>
     step E M N s Sleep (s\<lparr>t_client := Put_wait (t_client s) h\<rparr>)"
| sleep_get:
    "t_waiting s = Some (Get_call h mt) \<Longrightarrow> get_map (t_client s) (h, mt) = Some gst \<Longrightarrow> \<not> get_done gst \<Longrightarrow> \<not> get_asleep gst \<Longrightarrow>
     step E M N s Sleep (s\<lparr>t_client := Get_wait (t_client s) h mt\<rparr>)"
| wake_put:
    "t_waiting s = Some (Put_call h) \<Longrightarrow> put_map (t_client s) h = Some st \<Longrightarrow> put_asleep st \<Longrightarrow>
     step E M N s Spurious_wakeup (s\<lparr>t_client := (t_client s)\<lparr>put_map := (put_map (t_client s))(h \<mapsto> notify_put st)\<rparr>\<rparr>)"
| wake_get:
    "t_waiting s = Some (Get_call h mt) \<Longrightarrow> get_map (t_client s) (h, mt) = Some gst \<Longrightarrow> get_asleep gst \<Longrightarrow>
     step E M N s Spurious_wakeup (s\<lparr>t_client := (t_client s)\<lparr>get_map := (get_map (t_client s))((h, mt) \<mapsto> notify_get gst)\<rparr>\<rparr>)"
| return_put:
    "t_waiting s = Some (Put_call h) \<Longrightarrow> put_map (t_client s) h = Some st \<Longrightarrow> put_ready st \<Longrightarrow>
     step E M N s (Return_put h) \<lparr>t_client = Put_finish (t_client s) h, t_waiting = None\<rparr>"
| return_get:
    "t_waiting s = Some (Get_call h mt) \<Longrightarrow> get_map (t_client s) (h, mt) = Some gst \<Longrightarrow> get_ready gst \<Longrightarrow>
     step E M N s (Return_get h mt (Get_finish (t_client s) h mt)) (s\<lparr>t_waiting := None\<rparr>)"

inductive run :: "env \<Rightarrow> req_codec \<Rightarrow> 'n network \<Rightarrow> threads \<Rightarrow> event list \<Rightarrow> threads \<Rightarrow> bool"
  for E :: env and M :: req_codec and N :: "'n network" and s :: threads where
  run_nil: "run E M N s [] s"
| run_snoc: "run E M N s tr s1 \<Longrightarrow> step E M N s1 e s2 \<Longrightarrow> run E M N s (tr @ [e]) s2"

inductive_cases step_deliverE: "step E M N s (Deliver m) s'"
inductive_cases step_call_putE: "step E M N s (Call_put h d) s'"
inductive_cases step_call_getE: "step E M N s (Call_get h fr mt) s'"
inductive_cases step_sleepE: "step E M N s Sleep s'"
inductive_cases step_wakeE: "step E M N s Spurious_wakeup s'"
inductive_cases step_return_putE: "step E M N s (Return_put h) s'"
inductive_cases step_return_getE: "step E M N s (Return_get h mt out) s'"
inductive_cases run_snocE: "run E M N s (tr @ [e]) s'"

lemmas stepE = step_deliverE step_call_putE step_call_getE step_sleepE step_wakeE step_return_putE step_return_getE

text \<open>The messages handled in a run, in their order.\<close>

fun delivered :: "event list \<Rightarrow> incoming list" where
  "delivered [] = []"
| "delivered (Deliver m # tr) = m # delivered tr"
| "delivered (e # tr) = delivered tr"

lemma delivered_append [simp]: "delivered (tr @ tr') = delivered tr @ delivered tr'"
  by (induction tr rule: delivered.induct) simp_all

text \<open>A response that answers a request for \<open>h\<close> (metadata only if \<open>mt\<close>) with the bytes \<open>out\<close>.\<close>

fun answers :: "env \<Rightarrow> req_codec \<Rightarrow> string \<Rightarrow> bool \<Rightarrow> string \<Rightarrow> incoming \<Rightarrow> bool" where
  "answers E M h mt out (Ack_msg a) = False"
| "answers E M h mt out (Resp_msg r) =
     (let q = parse_get_resp M r in
      resp_success q \<and> resp_hash q = h \<and>
      (if fresh_resp q then \<not> mt \<and> out = ser_fresh M (fresh_hashes q)
       else mt = (payload_in_transit (resp_record q) = []) \<and> out = ser_pdu (cdc E) (resp_record q)))"

section \<open>The tables record what was delivered\<close>

definition ack_count :: "env \<Rightarrow> string \<Rightarrow> incoming list \<Rightarrow> nat" where
  "ack_count E h ms = length (filter (acks E h) ms)"

definition get_log :: "env \<Rightarrow> req_codec \<Rightarrow> incoming list \<Rightarrow> string \<Rightarrow> bool \<Rightarrow> get_status \<Rightarrow> bool" where
  "get_log E M ms h mt st \<longleftrightarrow>
     (if get_done st then \<not> get_asleep st \<and> get_ret st = 0 \<and> (\<exists>out. get_srl st = Some out \<and> (\<exists>m \<in> set ms. answers E M h mt out m))
      else get_srl st = None)"

definition tables_log :: "env \<Rightarrow> req_codec \<Rightarrow> incoming list \<Rightarrow> dc_client \<Rightarrow> bool" where
  "tables_log E M ms c \<longleftrightarrow>
     (\<forall>h. recv_ack_map c h = (if ack_count E h ms = 0 then None else Some (int (ack_count E h ms)))) \<and>
     (\<forall>h st. put_map c h = Some st \<and> put_done st \<longrightarrow> \<not> put_asleep st \<and> put_ret st = 0 \<and> ack_count E h ms \<noteq> 0) \<and>
     (\<forall>h mt st. get_map c (h, mt) = Some st \<longrightarrow> get_log E M ms h mt st)"

lemma get_log_more: "get_log E M ms h mt st \<Longrightarrow> get_log E M (ms @ [m]) h mt st"
  by (auto simp: get_log_def)

lemma ack_count_snoc: "ack_count E h (ms @ [m]) = ack_count E h ms + (if acks E h m then 1 else 0)"
  by (simp add: ack_count_def)

lemma handle_get_resp_cases:
  assumes "handle_get_resp E M c r = Ret c'"
  obtains "c' = c"
  | h mt st out where "answers E M h mt out (Resp_msg r)"
      and "c' = c\<lparr>get_map := (get_map c)((h, mt) \<mapsto> st\<lparr>get_done := True, get_ret := 0, get_srl := Some out, get_asleep := False\<rparr>)\<rparr>"
  using assms
  by (auto simp: handle_get_resp_def Let_def CommitFreshResp_def CommitGetResp_def notify_get_def split: if_splits option.splits)

lemma tables_log_resp:
  assumes "tables_log E M ms c" and "handle_get_resp E M c r = Ret c'"
  shows "tables_log E M (ms @ [Resp_msg r]) c'"
proof -
  have n: "ack_count E h (ms @ [Resp_msg r]) = ack_count E h ms" for h by (simp add: ack_count_snoc)
  from assms(2) show ?thesis
  proof (cases rule: handle_get_resp_cases)
    case 1
    with assms(1) show ?thesis unfolding tables_log_def n using get_log_more by blast
  next
    case (2 h mt st out)
    then have "get_log E M (ms @ [Resp_msg r]) h mt (st\<lparr>get_done := True, get_ret := 0, get_srl := Some out, get_asleep := False\<rparr>)"
      by (auto simp: get_log_def)
    with assms(1) 2(2) show ?thesis by (auto simp: tables_log_def n get_log_more)
  qed
qed

lemma tables_log_ack:
  assumes "tables_log E M ms c" and "handle_ack E c a = Ret c'"
  shows "tables_log E M (ms @ [Ack_msg a]) c'"
proof -
  let ?h = "header_hash (parse_pdu (cdc E) a)"
  note e = handle_ack_effect [OF assms(2) refl]
  have n: "ack_count E h (ms @ [Ack_msg a]) = ack_count E h ms + (if h = ?h then 1 else 0)" for h
    by (simp add: ack_count_snoc)
  have k: "(case recv_ack_map c ?h of None \<Rightarrow> 0 | Some k \<Rightarrow> k) = int (ack_count E ?h ms)"
    using assms(1) by (simp add: tables_log_def)
  show ?thesis
    using assms(1) unfolding tables_log_def e(2) e(3) e(4) n k
    by (auto simp: get_log_more split: option.splits if_splits)
qed

lemma tables_log_msg:
  "tables_log E M ms c \<Longrightarrow> handle_msg E M c m = Ret c' \<Longrightarrow> tables_log E M (ms @ [m]) c'"
  by (cases m) (simp_all add: tables_log_ack tables_log_resp)

lemma tables_log_simps:
  "tables_log E M ms c \<Longrightarrow> \<not> put_done st \<Longrightarrow> tables_log E M ms (c\<lparr>put_map := (put_map c)(h \<mapsto> st)\<rparr>)"
  "tables_log E M ms c \<Longrightarrow> tables_log E M ms (c\<lparr>put_map := (put_map c)(h := None)\<rparr>)"
  "tables_log E M ms c \<Longrightarrow> \<not> get_done gst \<Longrightarrow> get_srl gst = None \<Longrightarrow>
     tables_log E M ms (c\<lparr>get_map := (get_map c)(g \<mapsto> gst)\<rparr>)"
  "tables_log E M ms c \<Longrightarrow> tables_log E M ms (c\<lparr>draws := k\<rparr>)"
  "tables_log E M ms c \<Longrightarrow> tables_log E M ms (Put_wait c h)" "tables_log E M ms c \<Longrightarrow> tables_log E M ms (Get_wait c h mt)"
  "tables_log E M ms c \<Longrightarrow> put_map c h = Some st' \<Longrightarrow> tables_log E M ms (c\<lparr>put_map := (put_map c)(h \<mapsto> notify_put st')\<rparr>)"
  "tables_log E M ms c \<Longrightarrow> get_map c (h, mt) = Some gst' \<Longrightarrow> tables_log E M ms (c\<lparr>get_map := (get_map c)((h, mt) \<mapsto> notify_get gst')\<rparr>)"
  by (auto simp: tables_log_def get_log_def Put_wait_def Get_wait_def wait_put_def wait_get_def notify_put_def notify_get_def split: if_splits) metis

lemma step_tables_log:
  assumes "step E M N s e s'" and "tables_log E M ms (t_client s)"
  shows "tables_log E M (ms @ delivered [e]) (t_client s')"
  using assms
proof cases
  case (call_put w h d c w')
  then show ?thesis
    using assms(2) by (auto simp: Put_start_def Let_def split: option.splits intro: tables_log_simps)
next
  case (call_get w h fr mt c w')
  then show ?thesis
    using assms(2) by (auto simp: Get_start_def send_get_req_def Let_def outcome_simps split: option.splits intro!: tables_log_simps)
next
  case (return_put h st)
  then show ?thesis using assms(2) by (simp add: Put_finish_def tables_log_simps)
qed (use assms(2) in \<open>auto simp: tables_log_msg tables_log_simps\<close>)

lemma run_tables_log:
  "run E M N s tr s' \<Longrightarrow> tables_log E M [] (t_client s) \<Longrightarrow> tables_log E M (delivered tr) (t_client s')"
proof (induction rule: run.induct)
  case (run_snoc tr s1 e s2)
  then show ?case using step_tables_log [OF run_snoc.hyps(2)] by simp
qed simp

section \<open>The record server is a schedule of the threads\<close>

lemma listen_run:
  "run E M N s tr s1 \<Longrightarrow> listen E M (t_client s1) ms = Ret c' \<Longrightarrow>
   run E M N s (tr @ map Deliver ms) (s1\<lparr>t_client := c'\<rparr>)"
proof (induction ms arbitrary: tr s1)
  case (Cons m ms)
  then obtain c1 where m: "handle_msg E M (t_client s1) m = Ret c1" "listen E M c1 ms = Ret c'" by (auto simp: outcome_simps)
  have "run E M N s ((tr @ [Deliver m]) @ map Deliver ms) ((s1\<lparr>t_client := c1\<rparr>)\<lparr>t_client := c'\<rparr>)"
    by (rule Cons.IH) (use m run_snoc [OF Cons.prems(1) deliver [OF m(1)]] in simp_all)
  then show ?case by simp
qed auto

lemma delivered_map [simp]: "delivered (map Deliver ms) = ms"
  by (induction ms) simp_all

lemma sleep_run:
  assumes "run E M N s tr s1" and "t_waiting s1 = Some (Put_call h)"
  shows "\<exists>sl. set sl \<subseteq> {Sleep} \<and> run E M N s (tr @ sl) (s1\<lparr>t_client := Put_wait (t_client s1) h\<rparr>)"
proof (cases "\<exists>st. put_map (t_client s1) h = Some st \<and> \<not> put_done st \<and> \<not> put_asleep st")
  case True
  then show ?thesis using run_snoc [OF assms(1) sleep_put] assms(2) by (intro exI [of _ "[Sleep]"]) auto
next
  case False
  then have "Put_wait (t_client s1) h = t_client s1"
    by (cases "put_map (t_client s1) h") (auto simp: Put_wait_def wait_put_def fun_upd_idem)
  then show ?thesis using assms(1) by (intro exI [of _ "[]"]) simp
qed

lemma write_run:
  assumes "DCServerNet_WriteRecord E M N s dc h d = Ret (rc, s')"
  shows "\<exists>sl ms. set sl \<subseteq> {Sleep} \<and>
    run E M N \<lparr>t_client = net_client s, t_waiting = None\<rparr> (Call_put h d # sl @ map Deliver ms @ [Return_put h])
        \<lparr>t_client = net_client s', t_waiting = None\<rparr>"
proof -
  let ?s = "\<lparr>t_client = net_client s, t_waiting = None\<rparr>"
  obtain c w ms w' c' st where 1: "Put_start N (net_client s) (net_world s) h d = (c, w)"
    "listen E M (Put_wait c h) ms = Ret c'" "put_map c' h = Some st" "put_ready st" "s' = \<lparr>net_client = Put_finish c' h, net_world = w'\<rparr>"
    by (rule WriteRecord_RetE [OF assms]) simp
  have "run E M N ?s [Call_put h d] \<lparr>t_client = c, t_waiting = Some (Put_call h)\<rparr>"
    using run_snoc [OF run_nil call_put, of ?s N "net_world s" h d c w E M] 1(1) by simp
  then obtain sl where sl: "set sl \<subseteq> {Sleep}" "run E M N ?s ([Call_put h d] @ sl) \<lparr>t_client = Put_wait c h, t_waiting = Some (Put_call h)\<rparr>"
    using sleep_run [of E M N ?s _ _ h] by fastforce
  have "run E M N ?s (([Call_put h d] @ sl) @ map Deliver ms) \<lparr>t_client = c', t_waiting = Some (Put_call h)\<rparr>"
    using listen_run [OF sl(2), of ms c'] 1(2) by simp
  from run_snoc [OF this return_put] 1(3-5) sl(1) show ?thesis by (intro exI [of _ sl] exI [of _ ms]) simp
qed

lemma sample_written:
  obtains c h d s' where "DCClient sample_env 0 = Ret c"
    and "DCServerNet_WriteRecord sample_env sample_req_codec sample_network (sample_net c) sample_dc h d = Ret (NO_ERR, s')"
proof -
  obtain c where c: "DCClient sample_env 0 = Ret c"
    "net_inv sample_env sample_req_codec sample_network sample_service (sample_net c)"
    by (rule sample_net_inv)
  from that [OF c(1)] show thesis
    using net_write [OF c(2) _ refl refl sample_record_fits, of "CHR ''P''" "''hello''" sample_dc] by (auto simp: sample_net_def)
qed

section \<open>Waiting\<close>

text \<open>What happens to a call between its wait and its return: messages are handled, and it sleeps and wakes.\<close>

fun while_waiting :: "event \<Rightarrow> bool" where
  "while_waiting (Deliver m) = True"
| "while_waiting Sleep = True"
| "while_waiting Spurious_wakeup = True"
| "while_waiting e = False"

lemma notify_simps [simp]:
  "put_done (notify_put st) = put_done st" "\<not> put_asleep (notify_put st)"
  "get_done (notify_get gst) = get_done gst" "\<not> get_asleep (notify_get gst)"
  by (simp_all add: notify_put_def notify_get_def)

text \<open>The first acknowledgement makes the entry ready, and it stays ready.\<close>

lemma put_stays_ready:
  assumes "run E M N s tr s'" and "\<forall>e \<in> set tr. while_waiting e"
    and "t_waiting s = Some (Put_call h)" and "put_map (t_client s) h = Some st" "\<not> put_done st" and "recv_ack_map (t_client s) h = None"
  shows "t_waiting s' = Some (Put_call h) \<and> (\<exists>st'. put_map (t_client s') h = Some st' \<and>
    (if \<exists>m \<in> set (delivered tr). acks E h m then put_ready st' else \<not> put_done st' \<and> recv_ack_map (t_client s') h = None))"
  using assms
proof (induction rule: run.induct)
  case (run_snoc tr s1 e s2)
  then obtain st1 where IH: "t_waiting s1 = Some (Put_call h)" "put_map (t_client s1) h = Some st1"
    "if \<exists>m \<in> set (delivered tr). acks E h m then put_ready st1 else \<not> put_done st1 \<and> recv_ack_map (t_client s1) h = None"
    by auto
  from run_snoc.hyps(2) show ?case
  proof cases
    case (deliver m c)
    show ?thesis
    proof (cases m)
      case (Ack_msg a)
      then have "handle_ack E (t_client s1) a = Ret c" using deliver by simp
      from handle_ack_effect(3,4) [OF this refl] IH deliver Ack_msg show ?thesis by (auto split: option.splits if_splits)
    next
      case (Resp_msg r)
      then have "handle_get_resp E M (t_client s1) r = Ret c" using deliver by simp
      from handle_resp_effect(1,2) [OF this] IH deliver Resp_msg show ?thesis by auto
    qed
  qed (use IH run_snoc.prems(1) in \<open>auto split: if_splits\<close>)
qed auto

text \<open>The same for a successful response with a payload.\<close>

lemma get_stays_ready:
  assumes "run E M N s tr s'" and "\<forall>e \<in> set tr. while_waiting e"
    and "t_waiting s = Some (Get_call h False)" and "get_map (t_client s) (h, False) = Some st" and "payload_in_transit p \<noteq> []"
  shows "t_waiting s' = Some (Get_call h False) \<and> (\<exists>st'. get_map (t_client s') (h, False) = Some st' \<and>
    ((\<exists>m \<in> set (delivered tr). returns M h p m) \<longrightarrow> get_ready st'))"
  using assms
proof (induction rule: run.induct)
  case (run_snoc tr s1 e s2)
  then obtain st1 where IH: "t_waiting s1 = Some (Get_call h False)" "get_map (t_client s1) (h, False) = Some st1"
    "(\<exists>m \<in> set (delivered tr). returns M h p m) \<longrightarrow> get_ready st1" by auto
  from run_snoc.hyps(2) show ?case
  proof cases
    case (deliver m c)
    have l: "listen E M (t_client s1) [m] = Ret c" using deliver by simp
    have "(h, False) \<in> dom (get_map c)" using listen_frame [OF l] IH(2) by auto
    then obtain st2 where "get_map c (h, False) = Some st2" by blast
    moreover have "get_ready st2" if "get_ready st1 \<or> returns M h p m"
      using listen_get [OF l IH(2) assms(5)] that calculation by auto
    ultimately show ?thesis using IH deliver by auto
  qed (use IH run_snoc.prems(1) in auto)
qed auto

section \<open>Properties\<close>

definition initial :: "env \<Rightarrow> nat \<Rightarrow> threads \<Rightarrow> bool" where
  "initial E k s \<longleftrightarrow> DCClient E k = Ret (t_client s) \<and> t_waiting s = None"

lemma new_client_empty:
  "DCClient E k = Ret c \<Longrightarrow> recv_ack_map c = Map.empty \<and> put_map c = Map.empty \<and> get_map c = Map.empty"
  by (auto simp: DCClient_def ClientComm_def Let_def outcome_simps split: if_splits)

lemma initial_tables_log: "initial E k s \<Longrightarrow> tables_log E M [] (t_client s)"
  using new_client_empty [of E k "t_client s"] by (simp add: initial_def tables_log_def ack_count_def)

text \<open>
  C29. Whatever messages arrive, in whatever interleaving with the calls: a \<open>Put\<close> returns only after
  an acknowledgement of its hash was handled, a \<open>Get\<close> returns the bytes of a successful response for
  its hash that was handled before (never the null pointer), and the stored count of acknowledgements
  of a hash is the number of those handled.
\<close>

theorem returns_were_delivered:
  assumes "initial E k s0" and "run E M N s0 (tr @ [e]) s"
  shows "(\<forall>h. e = Return_put h \<longrightarrow> (\<exists>m \<in> set (delivered tr). acks E h m)) \<and>
    (\<forall>h mt out. e = Return_get h mt out \<longrightarrow> (\<exists>bytes. out = Some bytes \<and> (\<exists>m \<in> set (delivered tr). answers E M h mt bytes m))) \<and>
    (\<forall>h. recv_ack_map (t_client s) h =
       (let n = length (filter (acks E h) (delivered (tr @ [e]))) in if n = 0 then None else Some (int n)))"
proof -
  obtain s1 where r: "run E M N s0 tr s1" "step E M N s1 e s" using assms(2) by (rule run_snocE) simp
  note log = run_tables_log [OF r(1) initial_tables_log [OF assms(1)]]
    run_tables_log [OF assms(2) initial_tables_log [OF assms(1)]]
  have "\<exists>m \<in> set (delivered tr). acks E h m" if "e = Return_put h" for h
  proof -
    from r(2) that obtain st where "put_map (t_client s1) h = Some st" "put_done st" by (auto elim: step_return_putE)
    with log(1) have "ack_count E h (delivered tr) \<noteq> 0" by (auto simp: tables_log_def)
    then show ?thesis by (auto simp: ack_count_def filter_empty_conv)
  qed
  moreover have "\<exists>bytes. out = Some bytes \<and> (\<exists>m \<in> set (delivered tr). answers E M h mt bytes m)"
    if "e = Return_get h mt out" for h mt out
  proof -
    from r(2) that obtain st where "get_map (t_client s1) (h, mt) = Some st" "get_done st" "out = Get_finish (t_client s1) h mt"
      by (auto elim: step_return_getE)
    with log(1) show ?thesis unfolding tables_log_def get_log_def by (fastforce simp: Get_finish_def)
  qed
  ultimately show ?thesis using log(2) by (simp add: tables_log_def ack_count_def Let_def)
qed

theorem returns_were_delivered_witness:
  "\<exists>c h d tr s. DCClient sample_env 0 = Ret c \<and>
     run sample_env sample_req_codec sample_network \<lparr>t_client = c, t_waiting = None\<rparr>
       ((Call_put h d # tr) @ [Return_put h]) s \<and> (\<exists>m \<in> set (delivered tr). acks sample_env h m)"
proof -
  obtain c h d s' where c: "DCClient sample_env 0 = Ret c"
    "DCServerNet_WriteRecord sample_env sample_req_codec sample_network (sample_net c) sample_dc h d = Ret (NO_ERR, s')"
    by (rule sample_written)
  obtain sl ms where r: "run sample_env sample_req_codec sample_network \<lparr>t_client = c, t_waiting = None\<rparr>
      ((Call_put h d # (sl @ map Deliver ms)) @ [Return_put h]) \<lparr>t_client = net_client s', t_waiting = None\<rparr>"
    using write_run [OF c(2)] by (auto simp: sample_net_def)
  have i: "initial sample_env 0 \<lparr>t_client = c, t_waiting = None\<rparr>" using c(1) by (simp add: initial_def)
  have "\<exists>m \<in> set (delivered (Call_put h d # (sl @ map Deliver ms))). acks sample_env h m"
    using returns_were_delivered [OF i r] by blast
  then have "\<exists>m \<in> set (delivered (sl @ map Deliver ms)). acks sample_env h m" by simp
  with c(1) r show ?thesis by blast
qed

text \<open>
  C33. No wake-up is lost. Whatever messages are handled while a call waits, and however often its thread
  goes to sleep and wakes in between: once a first acknowledgement of its hash was handled, a waiting
  \<open>Put\<close> is awake and can return, and once a successful response with a payload for its hash was handled,
  a waiting \<open>Get\<close> is awake and can return.
\<close>

theorem answered_calls_return:
  "(step E M N s (Call_put h d) s1 \<and> recv_ack_map (t_client s) h = None \<and> put_map (t_client s) h = None \<and>
      run E M N s1 tr s2 \<and> (\<forall>e \<in> set tr. while_waiting e) \<and> (\<exists>m \<in> set (delivered tr). acks E h m) \<longrightarrow>
      (\<exists>s3. step E M N s2 (Return_put h) s3)) \<and>
   (step E M N s (Call_get h False False) s1 \<and> get_map (t_client s) (h, False) = None \<and>
      run E M N s1 tr s2 \<and> (\<forall>e \<in> set tr. while_waiting e) \<and> payload_in_transit p \<noteq> [] \<and>
      (\<exists>m \<in> set (delivered tr). returns M h p m) \<longrightarrow>
      (\<exists>out s3. step E M N s2 (Return_get h False out) s3))"
proof (intro conjI impI; elim conjE)
  assume a: "step E M N s (Call_put h d) s1" "recv_ack_map (t_client s) h = None" "put_map (t_client s) h = None"
    and r: "run E M N s1 tr s2" "\<forall>e \<in> set tr. while_waiting e" "\<exists>m \<in> set (delivered tr). acks E h m"
  then have "t_waiting s1 = Some (Put_call h)" "put_map (t_client s1) h = Some new_put" "recv_ack_map (t_client s1) h = None"
    by (auto elim!: step_call_putE simp: Put_start_def Let_def)
  from put_stays_ready [OF r(1,2) this(1,2) _ this(3)] r(3) obtain st where "t_waiting s2 = Some (Put_call h)"
    "put_map (t_client s2) h = Some st" "put_ready st" by auto
  from return_put [OF this] show "\<exists>s3. step E M N s2 (Return_put h) s3" by blast
next
  assume a: "step E M N s (Call_get h False False) s1" "get_map (t_client s) (h, False) = None"
    and r: "run E M N s1 tr s2" "\<forall>e \<in> set tr. while_waiting e" and p: "payload_in_transit p \<noteq> []"
    and m: "\<exists>m \<in> set (delivered tr). returns M h p m"
  then obtain st1 where "t_waiting s1 = Some (Get_call h False)" "get_map (t_client s1) (h, False) = Some st1"
    by (auto elim!: step_call_getE simp: Get_start_def send_get_req_def Let_def outcome_simps)
  from get_stays_ready [OF r this p] m return_get show "\<exists>out s3. step E M N s2 (Return_get h False out) s3" by blast
qed

lemma sample_call:
  assumes "length h = 32"
  obtains c s1 s2 s3 m where "DCClient sample_env 0 = Ret c" and "m = Ack_msg (sample_ser_pdu (sample_ack h))" and "acks sample_env h m"
    and "recv_ack_map c h = None" and "put_map c h = None"
    and "step sample_env sample_req_codec sample_network \<lparr>t_client = c, t_waiting = None\<rparr> (Call_put h d) s1"
    and "run sample_env sample_req_codec sample_network s1 [Sleep] s2"
    and "run sample_env sample_req_codec sample_network s1 [Sleep, Deliver m] s3"
proof -
  obtain c where c: "DCClient sample_env 0 = Ret c" using sample_net_inv by blast
  let ?s = "\<lparr>t_client = c, t_waiting = None\<rparr>" and ?a = "sample_ser_pdu (sample_ack h)"
  note e = new_client_empty [OF c]
  obtain c1 w1 where p: "Put_start sample_network c (net_world (sample_net c)) h d = (c1, w1)"
    by (cases "Put_start sample_network c (net_world (sample_net c)) h d")
  define s1 where "s1 = \<lparr>t_client = c1, t_waiting = Some (Put_call h)\<rparr>"
  have st: "step sample_env sample_req_codec sample_network ?s (Call_put h d) s1"
    using call_put [of ?s sample_network _ h d c1 w1] p by (simp add: s1_def)
  have "put_map c1 h = Some new_put" using p e by (auto simp: Put_start_def Let_def)
  then have sl: "step sample_env sample_req_codec sample_network s1 Sleep (s1\<lparr>t_client := Put_wait c1 h\<rparr>)"
    using sleep_put [of s1 h new_put] by (simp add: s1_def)
  have a: "parse_pdu (cdc sample_env) ?a = sample_ack h"
    using sample_ack_parse [OF assms] by (simp add: sample_cdc)
  obtain c2 where "handle_msg sample_env sample_req_codec (Put_wait c1 h) (Ack_msg ?a) = Ret c2"
    using handle_ack_returns [of sample_env ?a "Put_wait c1 h"] assms by (auto simp: a)
  then have "step sample_env sample_req_codec sample_network (s1\<lparr>t_client := Put_wait c1 h\<rparr>) (Deliver (Ack_msg ?a)) (s1\<lparr>t_client := c2\<rparr>)"
    using deliver [of sample_env sample_req_codec "s1\<lparr>t_client := Put_wait c1 h\<rparr>" "Ack_msg ?a" c2] by simp
  note r = run_snoc [OF run_nil sl, simplified] run_snoc [OF run_snoc [OF run_nil sl] this, simplified]
  show thesis using that [OF c(1) refl _ _ _ st r] a e by simp
qed

theorem answered_calls_return_witness:
  "\<exists>c s1 s2 s3 h d m. DCClient sample_env 0 = Ret c \<and>
     step sample_env sample_req_codec sample_network \<lparr>t_client = c, t_waiting = None\<rparr> (Call_put h d) s1 \<and>
     run sample_env sample_req_codec sample_network s1 [Sleep, Deliver m] s2 \<and>
     step sample_env sample_req_codec sample_network s2 (Return_put h) s3"
proof -
  obtain c s1 s2 m where s: "DCClient sample_env 0 = Ret c" "acks sample_env (replicate 32 CHR ''H'') m"
    "recv_ack_map c (replicate 32 CHR ''H'') = None" "put_map c (replicate 32 CHR ''H'') = None"
    "step sample_env sample_req_codec sample_network \<lparr>t_client = c, t_waiting = None\<rparr> (Call_put (replicate 32 CHR ''H'') ''d'') s1"
    "run sample_env sample_req_codec sample_network s1 [Sleep, Deliver m] s2"
    by (rule sample_call [of "replicate 32 CHR ''H''" "''d''"]) simp
  have "\<exists>s3. step sample_env sample_req_codec sample_network s2 (Return_put (replicate 32 CHR ''H'')) s3"
    using answered_calls_return [THEN conjunct1, rule_format, OF conjI, OF s(5), of "[Sleep, Deliver m]" s2] s(2-4,6) by simp
  with s(1,5,6) show ?thesis by blast
qed

text \<open>
  C34. The acknowledgement of a \<open>Put\<close> races with its return. \<open>CommitAck\<close> releases the lock of the entry before
  it calls \<open>notify_all\<close> through its iterator. If the calling thread is awake at this moment, since it has
  not gone to sleep yet or woke spuriously, it can find the entry done, return and erase it, and
  \<open>notify_all\<close> is then called on an erased entry, which is undefined. A \<open>Get\<close> keeps its entry, and \<open>notify_all\<close>
  after its return is harmless.
\<close>

theorem notify_races_with_return:
  "(step E M N s (Call_put h d) s1 \<and> put_map (t_client s) h = None \<longrightarrow>
      (\<exists>s2. step E M N (s1\<lparr>t_client := commit_put (t_client s1) h\<rparr>) (Return_put h) s2 \<and>
         notify_all_put (t_client s2) h = Fault Undefined_behaviour)) \<and>
   (step E M N s (Call_get h fr mt) s1 \<and> get_map (t_client s) (h, mt) = None \<longrightarrow>
      (\<exists>s2. step E M N (s1\<lparr>t_client := commit_get E (t_client s1) (h, mt) p\<rparr>) (Return_get h mt (Some (ser_pdu (cdc E) p))) s2 \<and>
         (\<exists>c. notify_all_get (t_client s2) (h, mt) = Ret c)))"
proof (intro conjI impI; elim conjE)
  assume "step E M N s (Call_put h d) s1" "put_map (t_client s) h = None"
  then have w: "t_waiting s1 = Some (Put_call h)" "put_map (t_client s1) h = Some new_put"
    by (auto elim!: step_call_putE simp: Put_start_def Let_def)
  let ?s = "s1\<lparr>t_client := commit_put (t_client s1) h\<rparr>"
  have "put_map (t_client ?s) h = Some (new_put\<lparr>put_done := True\<rparr>)" using w(2) by (simp add: commit_put_def)
  from return_put [OF _ this] w(1) show "\<exists>s2. step E M N ?s (Return_put h) s2 \<and> notify_all_put (t_client s2) h = Fault Undefined_behaviour"
    by (intro exI conjI) (auto simp: notify_all_put_def Put_finish_def)
next
  assume "step E M N s (Call_get h fr mt) s1" "get_map (t_client s) (h, mt) = None"
  then have w: "t_waiting s1 = Some (Get_call h mt)" "get_map (t_client s1) (h, mt) = Some new_get"
    by (auto elim!: step_call_getE simp: Get_start_def send_get_req_def Let_def outcome_simps)
  let ?s = "s1\<lparr>t_client := commit_get E (t_client s1) (h, mt) p\<rparr>"
  have g: "get_map (t_client ?s) (h, mt) = Some (new_get\<lparr>get_done := True, get_srl := Some (ser_pdu (cdc E) p)\<rparr>)"
    using w(2) by (simp add: commit_get_def)
  have "Get_finish (t_client ?s) h mt = Some (ser_pdu (cdc E) p)" using g by (simp add: Get_finish_def)
  with return_get [OF _ g, of E M N] w(1) g
  show "\<exists>s2. step E M N ?s (Return_get h mt (Some (ser_pdu (cdc E) p))) s2 \<and> (\<exists>c. notify_all_get (t_client s2) (h, mt) = Ret c)"
    by (intro exI [of _ "?s\<lparr>t_waiting := None\<rparr>"]) (auto simp: notify_all_get_def)
qed

theorem notify_races_with_return_witness:
  "\<exists>c s1 s2 h d. DCClient sample_env 0 = Ret c \<and>
     step sample_env sample_req_codec sample_network \<lparr>t_client = c, t_waiting = None\<rparr> (Call_put h d) s1 \<and>
     step sample_env sample_req_codec sample_network (s1\<lparr>t_client := commit_put (t_client s1) h\<rparr>) (Return_put h) s2 \<and>
     notify_all_put (t_client s2) h = Fault Undefined_behaviour"
proof -
  obtain c s1 where s: "DCClient sample_env 0 = Ret c" "put_map c (replicate 32 CHR ''H'') = None"
    "step sample_env sample_req_codec sample_network \<lparr>t_client = c, t_waiting = None\<rparr> (Call_put (replicate 32 CHR ''H'') ''d'') s1"
    by (rule sample_call [of "replicate 32 CHR ''H''" "''d''"]) simp
  then show ?thesis using notify_races_with_return [THEN conjunct1, rule_format, OF conjI, OF s(3)] by fastforce
qed

end
