(* ===== verification/Listen_Server.thy ===== *)
theory Listen_Server
  imports Client_Threads
begin

text \<open>
  The listening thread as it is written: \<open>ClientComm::run_dc_client_listen_server\<close> of
  \<open>src/src/dc-client/client_comm.cpp\<close> polls the two sockets, takes at most one acknowledgement and at
  most one response, and looks at the end signal. \<open>listen_step\<close> is the step from one of its program
  points to the next; between any two of them the calling thread may take a step and messages may
  arrive. The system of the two threads and the sockets refines the relation \<open>step\<close> of
  \<open>Client_Threads\<close>, in which a message is handled in one step.
\<close>

section \<open>The loop\<close>

text \<open>The program points: at the poll, before the two tests (with the results of the poll), at the end of the body.\<close>

datatype point = At_poll | At_ack bool bool | At_resp bool | At_end | Stopped

record listener =
  l_point :: point
  ack_socket :: "string list"
  resp_socket :: "string list"
  end_signal :: bool

text \<open>\<open>recv\<close> waits on an empty socket; a message is the bytes that were sent.\<close>

fun recv_string :: "string list \<Rightarrow> (string \<times> string list) outcome" where
  "recv_string [] = Fault Blocked_forever"
| "recv_string (m # q) = Ret (m, q)"

definition listen_step :: "env \<Rightarrow> req_codec \<Rightarrow> dc_client \<Rightarrow> listener \<Rightarrow> (dc_client \<times> listener) outcome" where
  "listen_step E M c l =
     (case l_point l of
        At_poll \<Rightarrow> Ret (c, l\<lparr>l_point := At_ack (ack_socket l \<noteq> []) (resp_socket l \<noteq> [])\<rparr>)
      | At_ack ack resp \<Rightarrow>
          if ack then
            bindO (recv_string (ack_socket l)) (\<lambda>(msg, q).
            bindO (handle_ack E c msg) (\<lambda>c'. Ret (c', l\<lparr>l_point := At_resp resp, ack_socket := q\<rparr>)))
          else Ret (c, l\<lparr>l_point := At_resp resp\<rparr>)
      | At_resp resp \<Rightarrow>
          if resp then
            bindO (recv_string (resp_socket l)) (\<lambda>(msg, q).
            bindO (handle_get_resp E M c msg) (\<lambda>c'. Ret (c', l\<lparr>l_point := At_end, resp_socket := q\<rparr>)))
          else Ret (c, l\<lparr>l_point := At_end\<rparr>)
      | At_end \<Rightarrow> Ret (c, l\<lparr>l_point := if end_signal l then Stopped else At_poll\<rparr>)
      | Stopped \<Rightarrow> Ret (c, l))"


text \<open>
  The loop starts once the two ports could be bound, with empty sockets; \<open>RunListenServer\<close> starts it with
  the end signal of its caller.
\<close>

definition RunListenServer :: "bool \<Rightarrow> listener" where
  "RunListenServer e = \<lparr>l_point = At_poll, ack_socket = [], resp_socket = [], end_signal = e\<rparr>"


section \<open>The two threads and the sockets\<close>

datatype sys_event = Caller event | Listener | Arrive incoming | Set_end

inductive sys_step ::
    "env \<Rightarrow> req_codec \<Rightarrow> 'n network \<Rightarrow> threads \<times> listener \<Rightarrow> sys_event \<Rightarrow> threads \<times> listener \<Rightarrow> bool"
  for E :: env and M :: req_codec and N :: "'n network" where
  caller: "step E M N s e s' \<Longrightarrow> (\<forall>m. e \<noteq> Deliver m) \<Longrightarrow> sys_step E M N (s, l) (Caller e) (s', l)"
| listener: "listen_step E M (t_client s) l = Ret (c, l') \<Longrightarrow> sys_step E M N (s, l) Listener (s\<lparr>t_client := c\<rparr>, l')"
| arrive_ack: "sys_step E M N (s, l) (Arrive (Ack_msg m)) (s, l\<lparr>ack_socket := ack_socket l @ [m]\<rparr>)"
| arrive_resp: "sys_step E M N (s, l) (Arrive (Resp_msg m)) (s, l\<lparr>resp_socket := resp_socket l @ [m]\<rparr>)"
| set_end: "sys_step E M N (s, l) Set_end (s, l\<lparr>end_signal := True\<rparr>)"

inductive sys_run ::
    "env \<Rightarrow> req_codec \<Rightarrow> 'n network \<Rightarrow> threads \<times> listener \<Rightarrow> sys_event list \<Rightarrow> threads \<times> listener \<Rightarrow> bool"
  for E :: env and M :: req_codec and N :: "'n network" and s :: "threads \<times> listener" where
  sys_nil: "sys_run E M N s [] s"
| sys_snoc: "sys_run E M N s tr s1 \<Longrightarrow> sys_step E M N s1 e s2 \<Longrightarrow> sys_run E M N s (tr @ [e]) s2"

inductive_cases sys_stepE: "sys_step E M N s e s'"

text \<open>The messages of each socket among some messages; what arrives and what the caller does in a run.\<close>

definition ack_msgs :: "incoming list \<Rightarrow> string list" where
  "ack_msgs ms = [a. Ack_msg a \<leftarrow> ms]"

definition resp_msgs :: "incoming list \<Rightarrow> string list" where
  "resp_msgs ms = [r. Resp_msg r \<leftarrow> ms]"

fun is_deliver :: "event \<Rightarrow> bool" where
  "is_deliver (Deliver m) = True"
| "is_deliver _ = False"

definition arrived :: "sys_event list \<Rightarrow> incoming list" where
  "arrived tr = [m. Arrive m \<leftarrow> tr]"

definition called :: "sys_event list \<Rightarrow> event list" where
  "called tr = [e. Caller e \<leftarrow> tr]"

lemma trace_simps [simp]:
  "ack_msgs [] = []" "ack_msgs (ms @ ms') = ack_msgs ms @ ack_msgs ms'" "ack_msgs [Ack_msg a] = [a]" "ack_msgs [Resp_msg r] = []"
  "resp_msgs [] = []" "resp_msgs (ms @ ms') = resp_msgs ms @ resp_msgs ms'" "resp_msgs [Resp_msg r] = [r]" "resp_msgs [Ack_msg a] = []"
  "arrived [] = []" "arrived (tr @ tr') = arrived tr @ arrived tr'"
  "arrived [Arrive m] = [m]" "arrived [Caller e] = []" "arrived [Listener] = []" "arrived [Set_end] = []"
  "called [] = []" "called (tr @ tr') = called tr @ called tr'"
  "called [Arrive m] = []" "called [Caller e] = [e]" "called [Listener] = []" "called [Set_end] = []"
  by (simp_all add: ack_msgs_def resp_msgs_def arrived_def called_def)

section \<open>Refinement of one step\<close>

text \<open>A step of the listening thread handles no message, or the first one of a socket.\<close>

lemma listen_step_cases:
  assumes "listen_step E M c l = Ret (c', l')"
  shows "\<exists>ms. listen E M c ms = Ret c' \<and> ack_socket l = ack_msgs ms @ ack_socket l' \<and>
     resp_socket l = resp_msgs ms @ resp_socket l' \<and> end_signal l' = end_signal l"
proof (cases "l_point l")
  case (At_ack a r)
  then show ?thesis
  proof (cases a)
    case True
    with assms At_ack obtain m where "ack_socket l = m # ack_socket l'" "handle_ack E c m = Ret c'"
      "resp_socket l' = resp_socket l" "end_signal l' = end_signal l"
      by (cases "ack_socket l") (auto simp: listen_step_def elim!: bindO_RetE)
    then show ?thesis by (intro exI [of _ "[Ack_msg m]"]) simp
  qed (use assms in \<open>auto simp: listen_step_def intro: exI [of _ "[]"]\<close>)
next
  case (At_resp r)
  then show ?thesis
  proof (cases r)
    case True
    with assms At_resp obtain m where "resp_socket l = m # resp_socket l'" "handle_get_resp E M c m = Ret c'"
      "ack_socket l' = ack_socket l" "end_signal l' = end_signal l"
      by (cases "resp_socket l") (auto simp: listen_step_def elim!: bindO_RetE)
    then show ?thesis by (intro exI [of _ "[Resp_msg m]"]) simp
  qed (use assms in \<open>auto simp: listen_step_def intro: exI [of _ "[]"]\<close>)
qed (use assms in \<open>auto simp: listen_step_def intro: exI [of _ "[]"]\<close>)

lemma caller_delivers_nothing:
  "(\<forall>m. e \<noteq> Deliver m) \<Longrightarrow> delivered [e] = [] \<and> \<not> is_deliver e"
  by (cases e) auto

lemma filter_deliver [simp]: "filter (\<lambda>e. \<not> is_deliver e) (map Deliver ms) = []"
  by (induction ms) auto

lemma sys_run_refines:
  assumes "sys_run E M N sl tr sl'"
  shows "\<exists>tr'. run E M N (fst sl) tr' (fst sl') \<and> filter (\<lambda>e. \<not> is_deliver e) tr' = called tr \<and>
     ack_socket (snd sl) @ ack_msgs (arrived tr) = ack_msgs (delivered tr') @ ack_socket (snd sl') \<and>
     resp_socket (snd sl) @ resp_msgs (arrived tr) = resp_msgs (delivered tr') @ resp_socket (snd sl')"
  using assms
proof (induction rule: sys_run.induct)
  case sys_nil
  show ?case by (rule exI [of _ "[]"]) (simp add: run_nil)
next
  case (sys_snoc tr s1 e s2)
  then obtain tr' where r: "run E M N (fst sl) tr' (fst s1)" "filter (\<lambda>e. \<not> is_deliver e) tr' = called tr"
    "ack_socket (snd sl) @ ack_msgs (arrived tr) = ack_msgs (delivered tr') @ ack_socket (snd s1)"
    "resp_socket (snd sl) @ resp_msgs (arrived tr) = resp_msgs (delivered tr') @ resp_socket (snd s1)"
    by blast
  from sys_snoc.hyps(2) show ?case
  proof (cases rule: sys_step.cases)
    case (caller s e' s' l)
    with r run_snoc [OF r(1), of e' s'] caller_delivers_nothing [of e'] show ?thesis
      by (intro exI [of _ "tr' @ [e']"]) simp
  next
    case (listener s l c l')
    from listen_step_cases [OF listener(4)] obtain ms where ms: "listen E M (t_client s) ms = Ret c"
      "ack_socket l = ack_msgs ms @ ack_socket l'" "resp_socket l = resp_msgs ms @ resp_socket l'" by blast
    with listener r listen_run [OF r(1), of ms c] show ?thesis
      by (intro exI [of _ "tr' @ map Deliver ms"]) simp
  qed (use r in \<open>(intro exI [of _ tr'], simp flip: append_assoc)+\<close>)
qed

section \<open>Passes through the loop\<close>






section \<open>The thread does not block and can be joined\<close>













section \<open>Properties\<close>

text \<open>
  C30. The two threads as they are written refine the relation \<open>step\<close>, in which a message is handled in
  one step: every interleaving of the calling thread, the program points of the listening thread,
  arriving messages and the end signal is a run of \<open>step\<close> with the same calls and returns, in which
  the messages of each socket are handled once each and in the order they arrived, up to those that are
  still in the socket.
\<close>

theorem threads_refine:
  assumes "sys_run E M N (s, RunListenServer e) tr (s', l')"
  shows "\<exists>tr'. run E M N s tr' s' \<and> filter (\<lambda>ev. \<not> is_deliver ev) tr' = called tr \<and>
     ack_msgs (arrived tr) = ack_msgs (delivered tr') @ ack_socket l' \<and>
     resp_msgs (arrived tr) = resp_msgs (delivered tr') @ resp_socket l'"
  using sys_run_refines [OF assms] by (simp add: RunListenServer_def)

lemma sample_sys_run:
  assumes "length h = 32"
  obtains c s l where "DCClient sample_env 0 = Ret c"
    and "sys_run sample_env sample_req_codec sample_network (\<lparr>t_client = c, t_waiting = None\<rparr>, RunListenServer False)
      [Caller (Call_put h d), Arrive (Ack_msg (sample_ser_pdu (sample_ack h))), Listener, Listener] (s, l)"
    and "ack_socket l = []"
proof -
  obtain c where c: "DCClient sample_env 0 = Ret c"
    "net_inv sample_env sample_req_codec sample_network sample_service (sample_net c)"
    by (rule sample_net_inv)
  let ?s = "\<lparr>t_client = c, t_waiting = None\<rparr>" and ?l = "RunListenServer False"
  let ?a = "sample_ser_pdu (sample_ack h)"
  obtain c1 w1 where p: "Put_start sample_network c (net_world (sample_net c)) h d = (c1, w1)"
    by (cases "Put_start sample_network c (net_world (sample_net c)) h d")
  define s1 where "s1 = \<lparr>t_client = c1, t_waiting = Some (Put_call h)\<rparr>"
  have put: "step sample_env sample_req_codec sample_network ?s (Call_put h d) s1"
    using call_put [of ?s sample_network _ h d c1 w1] p by (simp add: s1_def)
  have "parse_pdu (cdc sample_env) ?a = sample_ack h"
    using sample_ack_parse [OF assms] by (simp add: sample_cdc)
  then obtain c2 where c2: "handle_ack sample_env c1 ?a = Ret c2"
    using handle_ack_returns [of sample_env ?a c1] assms by auto
  let ?l1 = "?l\<lparr>ack_socket := ack_socket ?l @ [?a]\<rparr>"
  let ?l2 = "?l1\<lparr>l_point := At_ack True False\<rparr>"
  let ?l3 = "?l1\<lparr>l_point := At_resp False, ack_socket := []\<rparr>"
  have poll: "listen_step sample_env sample_req_codec (t_client s1) ?l1 = Ret (c1, ?l2)"
    by (simp add: listen_step_def RunListenServer_def s1_def)
  have ack: "listen_step sample_env sample_req_codec (t_client (s1\<lparr>t_client := c1\<rparr>)) ?l2 = Ret (c2, ?l3)"
    using c2 by (simp add: listen_step_def RunListenServer_def)
  note run = sys_snoc [OF sys_snoc [OF sys_snoc [OF sys_snoc [OF sys_nil
      caller [OF put, of ?l]] arrive_ack] listener [OF poll]] listener [OF ack]]
  show thesis
    by (rule that [OF c(1), of "s1\<lparr>t_client := c2\<rparr>" ?l3]) (use run in \<open>simp_all add: s1_def\<close>)
qed

theorem threads_refine_witness:
  "\<exists>h c s tr'. DCClient sample_env 0 = Ret c \<and>
     run sample_env sample_req_codec sample_network \<lparr>t_client = c, t_waiting = None\<rparr> tr' s \<and>
     filter (\<lambda>ev. \<not> is_deliver ev) tr' = [Call_put h ''d''] \<and>
     ack_msgs (delivered tr') = [sample_ser_pdu (sample_ack h)]"
proof -
  define h where "h = replicate 32 CHR ''H''"
  define tr where "tr = [Caller (Call_put h ''d''), Arrive (Ack_msg (sample_ser_pdu (sample_ack h))), Listener, Listener]"
  obtain c s l where c: "DCClient sample_env 0 = Ret c" and l: "ack_socket l = []"
    and r: "sys_run sample_env sample_req_codec sample_network (\<lparr>t_client = c, t_waiting = None\<rparr>, RunListenServer False) tr (s, l)"
    unfolding tr_def by (rule sample_sys_run [of h "''d''"]) (simp_all add: h_def)
  have "called tr = [Call_put h ''d'']" "ack_msgs (arrived tr) = [sample_ser_pdu (sample_ack h)]"
    by (simp_all add: tr_def called_def arrived_def ack_msgs_def)
  then obtain tr' where "run sample_env sample_req_codec sample_network \<lparr>t_client = c, t_waiting = None\<rparr> tr' s"
    "filter (\<lambda>ev. \<not> is_deliver ev) tr' = [Call_put h ''d'']" "ack_msgs (delivered tr') = [sample_ser_pdu (sample_ack h)]"
    using threads_refine [OF r] l by auto
  with c show ?thesis by (intro exI conjI)
qed



end
