(* ===== verification/Net_Backend.thy ===== *)
theory Net_Backend
  imports Net_Server
begin

text \<open>
  The storage backend over the networked server: the batch that a first \<open>WriteRecord\<close> sends is
  within what the client can put and get, so that the backend's lemmas, proved once for every record
  store, apply to \<open>DCServerNet\<close>.
\<close>

section \<open>The records of a batch can be put and read\<close>

lemma batch_record_net:
  assumes "env_ok E" and "p = record_pdu E k t hs d" and "\<forall>h \<in> set hs. length h \<le> 32" and "length hs \<le> 2"
    and "d \<noteq> []" and "length d < 2 ^ 30"
  shows "net_writes E (header_hash p) (ser_pdu (cdc E) p)" and "net_reads E (header_hash p) (ser_pdu (cdc E) p)"
proof -
  have "length (ser_pdu (cdc E) p) < 2 ^ 31"
    using record_pdu_bound [OF assms(1,3), of k t d] assms(2,4,6) by simp
  then have "pdu_fits E p"
    using record_pdu_ascii [OF assms(1)] length_record_name [OF env_okD(2) [OF assms(1)]] by (simp add: pdu_fits_def assms(2))
  then show "net_writes E (header_hash p) (ser_pdu (cdc E) p)" "net_reads E (header_hash p) (ser_pdu (cdc E) p)"
    using pdu_fits_parse [OF env_okD(1) [OF assms(1)]] assms(2,5) by (auto simp: net_writes_def net_reads_def)
qed

section \<open>Properties\<close>

text \<open>
  The first write of a file over the network: the blocks, the block map and the inode record are
  put and acknowledged one by one, the middleware's index then names the inode record, and the
  metadata, the block map and any block can be read back from the servers in this order.
\<close>

theorem net_file_round_trip:
  assumes "env_ok E" and "keys_ok E b" and "net_inv E M N S (be_srv b)"
    and "mid_index (be_mid b) dc = Some []" and "length dc = 32" and "length key = 16"
    and "list_all2 (\<lambda>d b. desc_bytes d = Ret b) descs bs" and "descs \<noteq> []" and "length bs \<le> 512"
    and "\<forall>d \<in> set bs. d \<noteq> [] \<and> length d \<le> n" and "n < 2 ^ 29"
    and "recs = batch_records E (mid_tick (be_mid b)) dc dc dc []
           (sealed_key E (symmetric_middleware_key (be_mid b)) key) bs"
    and "distinct (map header_hash recs)" and "\<forall>p \<in> set recs. stored S (net_world (be_srv b)) (header_hash p) = None"
    and "i < length bs"
  shows "\<exists>b1 b2 b3 b4. StorageBackend_WriteRecord E (net_server E M N) b dc descs [] key = Ret (NO_ERR, b1) \<and>
    mid_index (be_mid b1) dc = Some (header_hash (last recs)) \<and>
    ReadFileMeta E (net_server E M N) b1 dc = Ret (NO_ERR, header_hash (last recs), of_nat (length bs) * 16 * 1024, key,
      header_hash (recs ! length bs), b2) \<and>
    ReadRecordData E (net_server E M N) b2 dc (header_hash (recs ! length bs)) (32 * 512) =
      Ret (NO_ERR, concat (map header_hash (take (length bs) recs)), b3) \<and>
    ReadRecordData E (net_server E M N) b3 dc (header_hash (recs ! i)) n = Ret (NO_ERR, bs ! i, b4) \<and>
    net_inv E M N S (be_srv b4)"
proof -
  have bs: "bs \<noteq> []" "\<forall>d \<in> set bs. length d \<le> n" using assms(7,8,10) by auto
  have sealed: "length (sealed_key E (symmetric_middleware_key (be_mid b)) key) = 32"
    using sealed_key_length(1) [OF assms(1) keys_okD [OF assms(2)] assms(6)] .
  have ok: "net_writes E (header_hash p) (ser_pdu (cdc E) p) \<and> net_reads E (header_hash p) (ser_pdu (cdc E) p)"
    if "p \<in> set recs" for p
    using batch_record_small [OF assms(1,5,5,5) sealed bs(1) assms(10,9,11) that [unfolded assms(12)]] batch_record_net [OF assms(1)] by metis
  then have w: "net.writable S E E (be_srv b) recs" using assms(13,14) by (simp add: net.writable_def)
  obtain b1 where b1: "StorageBackend_WriteRecord E (net_server E M N) b dc descs [] key = Ret (NO_ERR, b1)"
    "keys_ok E b1" "mid_index (be_mid b1) = (mid_index (be_mid b))(dc \<mapsto> header_hash (last recs))"
    "symmetric_middleware_key (be_mid b1) = symmetric_middleware_key (be_mid b)"
    "net.extends E M N S E dc (be_srv b) recs (be_srv b1)"
    by (rule net.write_first_batch [OF assms(1-3) TrueI assms(4,6,7,8,12) w])
  have idx: "mid_index (be_mid b1) dc = Some (header_hash (last recs))" using b1(3) by simp
  have inv: "net_inv E M N S (be_srv b1)"
    and look: "\<forall>p \<in> set recs. net_lookup E S (be_srv b1) dc (header_hash p) = Some (ser_pdu (cdc E) p)"
    using b1(5) by (simp_all add: net.extends_def)
  have rv: "\<forall>p \<in> set recs. net_reads E (header_hash p) (ser_pdu (cdc E) p)" using ok by blast
  note r1 = assms(12) [folded b1(4)]
  obtain s2 where s2: "ReadFileMeta E (net_server E M N) b1 dc = Ret (NO_ERR, header_hash (last recs), of_nat (length bs) * 16 * 1024,
      key, header_hash (recs ! length bs), b1\<lparr>be_srv := s2\<rparr>)" "net_inv E M N S s2" "net_lookup E S s2 = net_lookup E S (be_srv b1)"
    using net.batch_readable(1) [OF assms(1) b1(2) inv assms(5,6) bs(1) assms(9) bs(2) assms(11) r1 look rv idx] by blast
  let ?b2 = "b1\<lparr>be_srv := s2\<rparr>"
  have k2: "keys_ok E ?b2" "mid_index (be_mid ?b2) dc = Some (header_hash (last recs))" using b1(2) idx by (simp_all add: keys_ok_def)
  have i2: "net_inv E M N S (be_srv ?b2)" "\<forall>p \<in> set recs. net_lookup E S (be_srv ?b2) dc (header_hash p) = Some (ser_pdu (cdc E) p)"
    "recs = batch_records E (mid_tick (be_mid b)) dc dc dc [] (sealed_key E (symmetric_middleware_key (be_mid ?b2)) key) bs"
    using s2(2,3) look r1 by simp_all
  obtain s3 where s3: "ReadRecordData E (net_server E M N) ?b2 dc (header_hash (recs ! length bs)) (32 * 512) =
      Ret (NO_ERR, concat (map header_hash (take (length bs) recs)), ?b2\<lparr>be_srv := s3\<rparr>)"
    "net_inv E M N S s3" "net_lookup E S s3 = net_lookup E S (be_srv ?b2)"
    using net.batch_readable(2) [OF assms(1) k2(1) i2(1) assms(5,6) bs(1) assms(9) bs(2) assms(11) i2(3,2) rv k2(2)] by auto
  let ?b3 = "?b2\<lparr>be_srv := s3\<rparr>"
  have k3: "keys_ok E ?b3" "mid_index (be_mid ?b3) dc = Some (header_hash (last recs))" using b1(2) idx by (simp_all add: keys_ok_def)
  have i3: "net_inv E M N S (be_srv ?b3)" "\<forall>p \<in> set recs. net_lookup E S (be_srv ?b3) dc (header_hash p) = Some (ser_pdu (cdc E) p)"
    "recs = batch_records E (mid_tick (be_mid b)) dc dc dc [] (sealed_key E (symmetric_middleware_key (be_mid ?b3)) key) bs"
    using s2(3) s3(2,3) look r1 by simp_all
  obtain s4 where s4: "ReadRecordData E (net_server E M N) ?b3 dc (header_hash (recs ! i)) n = Ret (NO_ERR, bs ! i, ?b3\<lparr>be_srv := s4\<rparr>)"
    "net_inv E M N S s4"
    using net.batch_readable(3) [OF assms(1) k3(1) i3(1) assms(5,6) bs(1) assms(9) bs(2) assms(11) i3(3,2) rv k3(2) assms(15)] by auto
  show ?thesis using b1(1) idx s2(1) s3(1) s4 by auto
qed

theorem net_file_round_trip_witness:
  "\<exists>c b b1 b2 b3 b4 names key' size name map_name. DCClient sample_env 0 = Ret c \<and> be_srv b = sample_net c \<and>
     StorageBackend_WriteRecord sample_env (net_server sample_env sample_req_codec sample_network) b sample_dc
       [sample_desc ''hello'', sample_desc ''world''] [] sample_key = Ret (NO_ERR, b1) \<and>
     ReadFileMeta sample_env (net_server sample_env sample_req_codec sample_network) b1 sample_dc =
       Ret (NO_ERR, name, size, key', map_name, b2) \<and>
     ReadRecordData sample_env (net_server sample_env sample_req_codec sample_network) b2 sample_dc map_name (32 * 512) =
       Ret (NO_ERR, concat names, b3) \<and>
     ReadRecordData sample_env (net_server sample_env sample_req_codec sample_network) b3 sample_dc (names ! 1) 5 =
       Ret (NO_ERR, ''world'', b4)"
proof -
  obtain c where c: "DCClient sample_env 0 = Ret c"
    "net_inv sample_env sample_req_codec sample_network sample_service (sample_net c)"
    by (rule sample_net_inv)
  define b where "b = \<lparr>be_mid = sample_mid, be_srv = sample_net c, be_client_key_pair = Some ''key''\<rparr>"
  have b: "be_mid b = sample_mid" "be_srv b = sample_net c" by (simp_all add: b_def)
  let ?bs = "[''hello'', ''world'']"
  define recs where "recs = batch_records sample_env (mid_tick (be_mid b)) sample_dc sample_dc sample_dc []
    (sealed_key sample_env (symmetric_middleware_key (be_mid b)) sample_key) ?bs"
  have k: "keys_ok sample_env b"
    using sample_keys_ok [of sim_init] by (simp add: keys_ok_def b_def)
  have d: "list_all2 (\<lambda>d b. desc_bytes d = Ret b) (map sample_desc ?bs) ?bs" by (rule sample_descs)
  have dist: "distinct (map header_hash recs)"
    unfolding recs_def by (rule sample_batch_distinct) (simp add: b sample_mid_def)
  have m: "mid_index (be_mid b) sample_dc = Some []" "length sample_dc = 32" "length sample_key = 16"
    by (simp_all add: b sample_mid_def sample_key_def sample_dc_def)
  have none: "\<forall>p \<in> set recs. stored sample_service (net_world (be_srv b)) (header_hash p) = None"
    by (simp add: b sample_net_def)
  have n1: "header_hash (recs ! 1) = map header_hash (take 2 recs) ! 1" "?bs ! 1 = ''world''" "length ?bs = 2" by (simp_all add: recs_def)
  have "\<exists>b1 b2 b3 b4. StorageBackend_WriteRecord sample_env (net_server sample_env sample_req_codec sample_network) b sample_dc
       (map sample_desc ?bs) [] sample_key = Ret (NO_ERR, b1) \<and>
     mid_index (be_mid b1) sample_dc = Some (header_hash (last recs)) \<and>
     ReadFileMeta sample_env (net_server sample_env sample_req_codec sample_network) b1 sample_dc =
       Ret (NO_ERR, header_hash (last recs), of_nat (length ?bs) * 16 * 1024, sample_key, header_hash (recs ! length ?bs), b2) \<and>
     ReadRecordData sample_env (net_server sample_env sample_req_codec sample_network) b2 sample_dc (header_hash (recs ! length ?bs))
       (32 * 512) = Ret (NO_ERR, concat (map header_hash (take (length ?bs) recs)), b3) \<and>
     ReadRecordData sample_env (net_server sample_env sample_req_codec sample_network) b3 sample_dc (header_hash (recs ! 1)) 5 =
       Ret (NO_ERR, ?bs ! 1, b4) \<and> net_inv sample_env sample_req_codec sample_network sample_service (be_srv b4)"
    by (rule net_file_round_trip [OF sample_env_ok k _ m d _ _ _ _ recs_def dist none]) (simp_all add: b c(2))
  then obtain b1 b2 b3 b4 where r: "StorageBackend_WriteRecord sample_env (net_server sample_env sample_req_codec sample_network) b
       sample_dc (map sample_desc ?bs) [] sample_key = Ret (NO_ERR, b1)"
     "ReadFileMeta sample_env (net_server sample_env sample_req_codec sample_network) b1 sample_dc =
       Ret (NO_ERR, header_hash (last recs), of_nat 2 * 16 * 1024, sample_key, header_hash (recs ! 2), b2)"
     "ReadRecordData sample_env (net_server sample_env sample_req_codec sample_network) b2 sample_dc (header_hash (recs ! 2))
       (32 * 512) = Ret (NO_ERR, concat (map header_hash (take 2 recs)), b3)"
     "ReadRecordData sample_env (net_server sample_env sample_req_codec sample_network) b3 sample_dc (map header_hash (take 2 recs) ! 1) 5 =
       Ret (NO_ERR, ''world'', b4)"
    unfolding n1 by blast
  have "map sample_desc ?bs = [sample_desc ''hello'', sample_desc ''world'']" by simp
  with c(1) b(2) r show ?thesis by metis
qed

end
