(* ===== verification/Second_Write.thy ===== *)
theory Second_Write
  imports Net_Backend
begin

text \<open>
  The second flush of a file, through the backend: what the middleware makes of a file that already
  has an inode record and a block map, and what can be read back afterwards.
\<close>

section \<open>Every record store\<close>

context record_store
begin

lemma write_next_batch:
  assumes E: "env_ok E" and K: "keys_ok E b" and s: "inv (be_srv b)" "known (be_srv b) dc" and dc: "length dc = 32"
    and sealed: "length sealed = 32" and bs: "bs \<noteq> []" "length bs \<le> 512" and recs: "recs = batch_records E t dc dc dc [] sealed bs"
    and idx: "mid_index (be_mid b) dc = Some (header_hash (last recs))"
    and look: "\<forall>p \<in> set recs. lookup (be_srv b) dc (header_hash p) = Some (ser_pdu (cdc E) p) \<and> rvalid (header_hash p) (ser_pdu (cdc E) p)"
    and names: "names = map header_hash (take (length bs) recs)" and d: "list_all2 (\<lambda>d b. desc_bytes d = Ret b) descs cs" "descs \<noteq> []"
    and new: "new = batch_records E (mid_tick (be_mid b)) (last names) (header_hash (recs ! length bs)) (header_hash (last recs)) names
      (sealed_key E (symmetric_middleware_key (be_mid b)) (take 16 sealed)) cs"
    and w: "writable E (be_srv b) new"
  obtains b' where "StorageBackend_WriteRecord E srv b dc descs (header_hash (last recs)) key = Ret (NO_ERR, b')"
    and "keys_ok E b'" and "mid_index (be_mid b') = (mid_index (be_mid b))(dc \<mapsto> header_hash (last new))"
    and "symmetric_middleware_key (be_mid b') = symmetric_middleware_key (be_mid b)" and "extends E dc (be_srv b) new (be_srv b')"
proof -
  let ?m = "be_mid b" and ?latest = "header_hash (last recs)"
  note sha = env_okD(2) [OF E]
  define ch where "ch = data_chain E t dc bs"
  define bm where "bm = blockmap_pdu E (t + length bs) dc [] (map header_hash ch)"
  define ino where "ino = inode_pdu E (Suc (t + length bs)) dc (header_hash bm) (length bs) sealed"
  have r: "recs = ch @ [bm, ino]" "length ch = length bs" by (simp_all add: recs batch_records_def Let_def ch_def bm_def ino_def)
  have nth: "recs ! length bs = bm" "last recs = ino" "names = map header_hash ch" "ch \<noteq> []"
    using r(2) bs(1) by (simp_all add: r(1) nth_append names ch_def)
  have l32: "length (header_hash p) = 32" if "p \<in> set recs" for p
    using that length_record_name [OF sha] data_chain_name_length [OF sha]
    by (auto simp: r(1) bm_def ino_def ch_def blockmap_pdu_def inode_pdu_def)
  have hs: "\<forall>h \<in> set ([] @ names). length h = 32" "length ([] @ names) \<le> 512" using l32 nth(3) r bs(2) by auto
  have n32: "length (header_hash bm) = 32" "length (header_hash ino) = 32" "length (last names) = 32"
    using l32 nth(3,4) r(1) by (auto simp: last_map)
  have ne: "last names \<noteq> []" "header_hash bm \<noteq> []" "?latest \<noteq> []" using n32 nth(2) by auto
  have nn: "names \<noteq> []" using nth(3,4) by simp
  have "\<exists>s1. Modify_load E srv (be_srv b) dc ?latest key = Ret (NO_ERR, \<lparr>isize = 0, blockmap_hash = header_hash bm, ino_key = take 16 sealed\<rparr>,
      \<lparr>data_hashes = [] @ names, hash_to_latest_data_block = last names\<rparr>, s1) \<and>
      inv s1 \<and> lookup s1 = lookup (be_srv b) \<and> known s1 = known (be_srv b) \<and> fresh s1 = fresh (be_srv b)"
    by (rule Modify_load_next [OF E s(1) ne(3) ino_def bm_def [folded nth(3)] _ _ _ _ sealed dc n32(1) dc nn hs])
       (use look r(1) nth(2) in simp_all)
  then obtain s1 where load: "Modify_load E srv (be_srv b) dc ?latest key = Ret (NO_ERR, \<lparr>isize = 0, blockmap_hash = header_hash bm, ino_key = take 16 sealed\<rparr>,
      \<lparr>data_hashes = [] @ names, hash_to_latest_data_block = last names\<rparr>, s1)"
    and s1: "inv s1" "lookup s1 = lookup (be_srv b)" "known s1 = known (be_srv b)" "fresh s1 = fresh (be_srv b)" by blast
  obtain sg where v: "verify (ossl E) (no_sign E) (mid_client_key_pair ?m) (Some (digest E (dc @ concat cs @ ?latest @ key))) sg = Ret True"
    and wr: "StorageBackend_WriteRecord E srv b dc descs ?latest key =
      bindO (Modify E srv ?m (be_srv b) dc descs ?latest key sg) (\<lambda>(ret, m', s'). Ret (ret, b\<lparr>be_mid := m', be_srv := s'\<rparr>))"
    by (rule write_record_eq_modify [OF E K d])
  have w1: "writable E s1 new" using w s1(4) by (simp add: writable_def)
  have "\<exists>s'. Modify E srv ?m (be_srv b) dc descs ?latest key sg =
      Ret (NO_ERR, ?m\<lparr>mid_index := (mid_index ?m)(dc \<mapsto> header_hash (last new)), mid_tick := mid_tick ?m + length descs + 2\<rparr>, s') \<and>
      extends E dc s1 new s'"
    by (rule modify_batch [OF E signed_args_eq [OF d(1)] v idx keys_okD [OF K] load s1(1) _ _ _ _ d _ w1])
       (use s(2) s1(3) sealed hs ne new nth in simp_all)
  then obtain s' where s': "Modify E srv ?m (be_srv b) dc descs ?latest key sg =
      Ret (NO_ERR, ?m\<lparr>mid_index := (mid_index ?m)(dc \<mapsto> header_hash (last new)), mid_tick := mid_tick ?m + length descs + 2\<rparr>, s')"
    "extends E dc s1 new s'" by blast
  then have "extends E dc (be_srv b) new s'" using s1 by (simp add: extends_def)
  then show thesis using that [OF wr [unfolded s'(1), simplified]] K by (simp add: keys_ok_def)
qed

text \<open>What is read back after it: the new size and key, and the block map with the old names in front.\<close>

lemma next_batch_readable:
  assumes E: "env_ok E" and K: "keys_ok E b" and inv: "inv (be_srv b)" and latest: "length latest = 32" "length bmn = 32" and key: "length key = 16"
    and old: "\<forall>h \<in> set old. length h = 32" and cs: "cs \<noteq> []" "length (old @ cs) \<le> 512"
    and new: "new = batch_records E t link bmn latest old (sealed_key E (symmetric_middleware_key (be_mid b)) key) cs"
    and look: "\<forall>p \<in> set new. lookup (be_srv b) dc (header_hash p) = Some (ser_pdu (cdc E) p) \<and> rvalid (header_hash p) (ser_pdu (cdc E) p)"
    and idx: "mid_index (be_mid b) dc = Some (header_hash (last new))"
  shows "\<exists>s2 s3. ReadFileMeta E srv b dc = Ret (NO_ERR, header_hash (last new), of_nat (length cs) * 16 * 1024, key,
      header_hash (new ! length cs), b\<lparr>be_srv := s2\<rparr>) \<and>
    ReadRecordData E srv (b\<lparr>be_srv := s2\<rparr>) dc (header_hash (new ! length cs)) (32 * 512) =
      Ret (NO_ERR, concat (old @ map header_hash (take (length cs) new)), b\<lparr>be_srv := s3\<rparr>)"
proof -
  note sha = env_okD(2) [OF E]
  define ch where "ch = data_chain E t link cs"
  define bm where "bm = blockmap_pdu E (t + length cs) bmn old (map header_hash ch)"
  define ino where "ino = inode_pdu E (Suc (t + length cs)) latest (header_hash bm) (length cs) (sealed_key E (symmetric_middleware_key (be_mid b)) key)"
  have r: "new = ch @ [bm, ino]" "length ch = length cs" by (simp_all add: new batch_records_def Let_def ch_def bm_def ino_def)
  have nth: "new ! length cs = bm" "last new = ino" "take (length cs) new = ch" using r(2) by (simp_all add: r(1) nth_append)
  have mem: "ino \<in> set new" "bm \<in> set new" by (simp_all add: r(1))
  have bml: "length (header_hash bm) = 32" by (simp add: bm_def blockmap_pdu_def length_record_name [OF sha])
  obtain s2 where s2: "ReadFileMeta E srv b dc = Ret (NO_ERR, header_hash ino, of_nat (length cs) * 16 * 1024, key, header_hash bm, b\<lparr>be_srv := s2\<rparr>)"
    "inv s2" "lookup s2 = lookup (be_srv b)"
    using read_meta [OF E K inv idx [unfolded nth] _ _ ino_def latest(1) bml key] look mem(1) by blast
  have names: "\<forall>h \<in> set (map header_hash ch). length h = 32" using data_chain_name_length [OF sha] by (auto simp: ch_def)
  then have hs: "\<forall>h \<in> set (old @ map header_hash ch). length h = 32" using old by auto
  have cat: "length (concat (old @ map header_hash ch)) \<le> 32 * 512" using length_concat_hashes [OF hs] cs(2) r(2) by simp
  have l: "length (last (map header_hash ch)) = 32" using names cs(1) r(2) last_in_set by (metis length_0_conv length_map)
  have "\<exists>s3. ReadRecordData E srv (b\<lparr>be_srv := s2\<rparr>) dc (header_hash bm) (32 * 512) =
      Ret (NO_ERR, concat (old @ map header_hash ch), b\<lparr>be_srv := s2, be_srv := s3\<rparr>) \<and> inv s3 \<and> lookup s3 = lookup (be_srv (b\<lparr>be_srv := s2\<rparr>)) \<and>
      known s3 = known (be_srv (b\<lparr>be_srv := s2\<rparr>)) \<and> fresh s3 = fresh (be_srv (b\<lparr>be_srv := s2\<rparr>))"
    by (rule read_payload [OF E _ _ _ bm_def [unfolded blockmap_pdu_def] _ _ cat]) (use s2(2,3) look mem(2) latest(2) l in auto)
  then show ?thesis using s2(1) unfolding nth by auto
qed

end

section \<open>Two batches over the network\<close>

lemma two_batches:
  assumes E: "env_ok E" and dc: "length dc = 32" and sl: "length sealed = 32" "length sealed' = 32" and ne: "bs \<noteq> []" "cs \<noteq> []"
    and len: "length (bs @ cs) \<le> 512" "\<forall>d \<in> set (bs @ cs). d \<noteq> [] \<and> length d \<le> n" "n < 2 ^ 29"
    and recs: "recs = batch_records E t dc dc dc [] sealed bs" and names: "names = map header_hash (take (length bs) recs)"
    and new: "new = batch_records E t' (last names) (header_hash (recs ! length bs)) (header_hash (last recs)) names sealed' cs"
  shows "\<forall>h \<in> set names. length h = 32" and "length names = length bs" and "length (header_hash (recs ! length bs)) = 32"
    and "length (header_hash (last recs)) = 32"
    and "p \<in> set (recs @ new) \<Longrightarrow> net_writes E (header_hash p) (ser_pdu (cdc E) p) \<and> net_reads E (header_hash p) (ser_pdu (cdc E) p)"
proof -
  have nm: "\<forall>p \<in> set recs. length (header_hash p) = 32" using batch_parts(3) [OF env_okD(2) [OF E] dc ne(1) recs] by blast
  have lr: "length recs = length bs + 2" "recs \<noteq> []" by (auto simp: recs batch_records_def Let_def)
  show nms: "\<forall>h \<in> set names. length h = 32" and ln: "length names = length bs"
    using nm lr by (auto simp: names dest: in_set_takeD)
  show n1: "length (header_hash (recs ! length bs)) = 32" and n2: "length (header_hash (last recs)) = 32"
    using nm lr last_in_set [OF lr(2)] by simp_all
  have n3: "length (last names) = 32" using nms ln ne(1) last_in_set by (metis length_0_conv)
  assume p: "p \<in> set (recs @ new)"
  have "\<exists>k t hs d. p = record_pdu E k t hs d \<and> (\<forall>h \<in> set hs. length h \<le> 32) \<and> length hs \<le> 2 \<and> d \<noteq> [] \<and> length d < 2 ^ 30"
  proof (cases "p \<in> set recs")
    case True
    show ?thesis by (rule batch_record_bounds [OF E dc dc dc sl(1) ne(1) _ _ len(3) _ True [unfolded recs]]) (use len in auto)
  next
    case False
    then have p': "p \<in> set new" using p by simp
    show ?thesis by (rule batch_record_bounds [OF E n3 n1 n2 sl(2) ne(2) _ _ len(3) nms p' [unfolded new]]) (use len ln in auto)
  qed
  then show "net_writes E (header_hash p) (ser_pdu (cdc E) p) \<and> net_reads E (header_hash p) (ser_pdu (cdc E) p)"
    using batch_record_net [OF E] by blast
qed

lemma sample_two_batches:
  assumes "n + length bs + length cs + 4 < 2 ^ 64" and "m = n + length bs + 2"
  shows "distinct (map header_hash (batch_records sample_env n l f1 f2 old sealed bs @ batch_records sample_env m l' f1' f2' old' sealed' cs))"
proof -
  let ?r = "batch_records sample_env n l f1 f2 old sealed bs" and ?s = "batch_records sample_env m l' f1' f2' old' sealed' cs"
  have "header_hash (?r ! i) \<noteq> header_hash (?s ! j)" if a: "i < length bs + 2" "j < length cs + 2" for i j
  proof
    assume eq: "header_hash (?r ! i) = header_hash (?s ! j)"
    obtain t hs b where i: "?r ! i = record_pdu sample_env (n + i) t hs b" using batch_records_shape [OF a(1)] by blast
    obtain t' hs' b' where j: "?s ! j = record_pdu sample_env (m + j) t' hs' b'" using batch_records_shape [OF a(2)] by blast
    have "(of_nat (n + i) :: 64 word) = of_nat (m + j)" using eq unfolding i j by (rule sample_name)
    moreover have "n + i < 2 ^ 64" "m + j < 2 ^ 64" using assms a by simp_all
    then have "unat (of_nat (n + i) :: 64 word) = n + i" "unat (of_nat (m + j) :: 64 word) = m + j" by (auto simp: unat_of_nat simp del: of_nat_add)
    ultimately show False using assms(2) a(1) by (metis add.assoc add_less_cancel_left not_add_less1)
  qed
  then have "header_hash ` set ?r \<inter> header_hash ` set ?s = {}" by (fastforce simp: in_set_conv_nth)
  moreover have "distinct (map header_hash ?r)" "distinct (map header_hash ?s)"
    using assms by (auto intro!: sample_batch_distinct)
  ultimately show ?thesis by simp
qed

section \<open>Properties\<close>

text \<open>
  C14. The second flush of a file over the network. After the blocks \<open>bs\<close> of a new file were written,
  writing the blocks \<open>cs\<close>, whatever their file offsets, succeeds; then the file's size is that of \<open>cs\<close>
  alone, its block map still names the blocks \<open>bs\<close> first and \<open>cs\<close> only behind them, and its key is the
  first half of the sealed key instead of the key that the client encrypted all blocks with.
\<close>

theorem net_second_write:
  assumes "env_ok E" and "keys_ok E b" and "net_inv E M N S (be_srv b)"
    and "mid_index (be_mid b) dc = Some []" and "length dc = 32" and "length key = 16"
    and "list_all2 (\<lambda>d b. desc_bytes d = Ret b) descs bs" and "descs \<noteq> []"
    and "list_all2 (\<lambda>d b. desc_bytes d = Ret b) descs' cs" and "descs' \<noteq> []" and "length (bs @ cs) \<le> 512"
    and "\<forall>d \<in> set (bs @ cs). d \<noteq> [] \<and> length d \<le> n" and "n < 2 ^ 29"
    and "mk = symmetric_middleware_key (be_mid b)"
    and "recs = batch_records E (mid_tick (be_mid b)) dc dc dc [] (sealed_key E mk key) bs"
    and "names = map header_hash (take (length bs) recs)"
    and "new = batch_records E (mid_tick (be_mid b) + length bs + 2) (last names) (header_hash (recs ! length bs)) (header_hash (last recs))
      names (sealed_key E mk (take 16 (sealed_key E mk key))) cs"
    and "distinct (map header_hash (recs @ new))" and "\<forall>p \<in> set (recs @ new). stored S (net_world (be_srv b)) (header_hash p) = None"
  shows "\<exists>b1 b2 b3 b4. StorageBackend_WriteRecord E (net_server E M N) b dc descs [] key = Ret (NO_ERR, b1) \<and>
    StorageBackend_WriteRecord E (net_server E M N) b1 dc descs' (header_hash (last recs)) key = Ret (NO_ERR, b2) \<and>
    ReadFileMeta E (net_server E M N) b2 dc = Ret (NO_ERR, header_hash (last new), of_nat (length cs) * 16 * 1024,
      take 16 (sealed_key E mk key), header_hash (new ! length cs), b3) \<and>
    ReadRecordData E (net_server E M N) b3 dc (header_hash (new ! length cs)) (32 * 512) =
      Ret (NO_ERR, concat (names @ map header_hash (take (length cs) new)), b4)"
proof -
  let ?sealed = "sealed_key E mk key" and ?key = "take 16 (sealed_key E mk key)"
  have ne: "bs \<noteq> []" "cs \<noteq> []" "length bs \<le> 512" using assms(7-11) by auto
  have sl: "length ?sealed = 32" "length ?key = 16" "length (sealed_key E mk ?key) = 32"
    using sealed_key_length(1) [OF assms(1) keys_okD [OF assms(2)]] assms(6,14) by simp_all
  note two = two_batches [OF assms(1,5) sl(1,3) ne(1,2) assms(11-13,15-17)]
  have w: "net.writable S E E (be_srv b) (recs @ new)" using two(5) assms(18,19) by (simp add: net.writable_def)
  then have w1: "net.writable S E E (be_srv b) recs" by (auto simp: net.writable_def)
  obtain b1 where b1: "StorageBackend_WriteRecord E (net_server E M N) b dc descs [] key = Ret (NO_ERR, b1)"
    "keys_ok E b1" "mid_index (be_mid b1) = (mid_index (be_mid b))(dc \<mapsto> header_hash (last recs))"
    "symmetric_middleware_key (be_mid b1) = symmetric_middleware_key (be_mid b)" "mid_tick (be_mid b1) = mid_tick (be_mid b) + length descs + 2"
    "net.extends E M N S E dc (be_srv b) recs (be_srv b1)"
    by (rule net.write_first_batch [OF assms(1-3) TrueI assms(4,6,7,8) assms(15) [unfolded assms(14)] w1])
  note w2 = net.writable_append(1) [OF w b1(6)]
  have l: "length descs = length bs" using assms(7) by (rule list_all2_lengthD)
  have i1: "net_inv E M N S (be_srv b1)" "\<forall>p \<in> set recs. net_lookup E S (be_srv b1) dc (header_hash p) = Some (ser_pdu (cdc E) p) \<and>
      net_reads E (header_hash p) (ser_pdu (cdc E) p)" "mid_index (be_mid b1) dc = Some (header_hash (last recs))"
    using b1(3,6) two(5) by (simp_all add: net.extends_def)
  have new1: "new = batch_records E (mid_tick (be_mid b1)) (last names) (header_hash (recs ! length bs)) (header_hash (last recs)) names
      (sealed_key E (symmetric_middleware_key (be_mid b1)) ?key) cs" using assms(14,17) b1(4,5) l by simp
  obtain b2 where b2: "StorageBackend_WriteRecord E (net_server E M N) b1 dc descs' (header_hash (last recs)) key = Ret (NO_ERR, b2)"
    "keys_ok E b2" "mid_index (be_mid b2) = (mid_index (be_mid b1))(dc \<mapsto> header_hash (last new))"
    "symmetric_middleware_key (be_mid b2) = symmetric_middleware_key (be_mid b1)" "net.extends E M N S E dc (be_srv b1) new (be_srv b2)"
    by (rule net.write_next_batch [OF assms(1) b1(2) i1(1) TrueI assms(5) sl(1) ne(1,3) assms(15) i1(3,2) assms(16,9,10) new1 w2])
  have i2: "net_inv E M N S (be_srv b2)" "\<forall>p \<in> set new. net_lookup E S (be_srv b2) dc (header_hash p) = Some (ser_pdu (cdc E) p) \<and>
      net_reads E (header_hash p) (ser_pdu (cdc E) p)" "mid_index (be_mid b2) dc = Some (header_hash (last new))" "length (names @ cs) \<le> 512"
    using b2(3,5) two(2,5) assms(11) by (simp_all add: net.extends_def)
  show ?thesis
    using net.next_batch_readable [OF assms(1) b2(2) i2(1) two(4,3) sl(2) two(1) ne(2) i2(4) new1 [folded b2(4)] i2(2,3)] b1(1) b2(1) by blast
qed

theorem net_second_write_witness:
  "\<exists>c b b1 b2 b3 b4 name name' key' map_name names. DCClient sample_env 0 = Ret c \<and> be_srv b = sample_net c \<and>
     StorageBackend_WriteRecord sample_env (net_server sample_env sample_req_codec sample_network) b sample_dc
       [sample_desc ''hello'', sample_desc ''world''] [] sample_key = Ret (NO_ERR, b1) \<and>
     StorageBackend_WriteRecord sample_env (net_server sample_env sample_req_codec sample_network) b1 sample_dc
       [sample_desc ''again''] name sample_key = Ret (NO_ERR, b2) \<and>
     ReadFileMeta sample_env (net_server sample_env sample_req_codec sample_network) b2 sample_dc =
       Ret (NO_ERR, name', 16384, key', map_name, b3) \<and>
     ReadRecordData sample_env (net_server sample_env sample_req_codec sample_network) b3 sample_dc map_name (32 * 512) =
       Ret (NO_ERR, concat names, b4) \<and> length names = 3"
proof -
  let ?srv = "net_server sample_env sample_req_codec sample_network" and ?bs = "[''hello'', ''world'']" and ?cs = "[''again'']"
  obtain c where c: "DCClient sample_env 0 = Ret c" "net_inv sample_env sample_req_codec sample_network sample_service (sample_net c)"
    by (rule sample_net_inv)
  define b where "b = \<lparr>be_mid = sample_mid, be_srv = sample_net c, be_client_key_pair = Some ''key''\<rparr>"
  define mk where "mk = symmetric_middleware_key (be_mid b)"
  define recs where "recs = batch_records sample_env (mid_tick (be_mid b)) sample_dc sample_dc sample_dc [] (sealed_key sample_env mk sample_key) ?bs"
  define names where "names = map header_hash (take (length ?bs) recs)"
  define new where "new = batch_records sample_env (mid_tick (be_mid b) + length ?bs + 2) (last names) (header_hash (recs ! length ?bs))
    (header_hash (last recs)) names (sealed_key sample_env mk (take 16 (sealed_key sample_env mk sample_key))) ?cs"
  have k: "keys_ok sample_env b" "net_inv sample_env sample_req_codec sample_network sample_service (be_srv b)"
    using sample_keys_ok [of sim_init] c(2) by (simp_all add: keys_ok_def b_def)
  have m: "mid_index (be_mid b) sample_dc = Some []" "length sample_dc = 32" "length sample_key = 16" "mid_tick (be_mid b) = 3"
    by (simp_all add: b_def sample_mid_def sample_key_def sample_dc_def)
  have d: "list_all2 (\<lambda>d b. desc_bytes d = Ret b) (map sample_desc ?bs) ?bs" "list_all2 (\<lambda>d b. desc_bytes d = Ret b) (map sample_desc ?cs) ?cs"
    by (rule sample_descs)+
  have dist: "distinct (map header_hash (recs @ new))"
    unfolding recs_def new_def m(4) by (rule sample_two_batches) simp_all
  have none: "\<forall>p \<in> set (recs @ new). stored sample_service (net_world (be_srv b)) (header_hash p) = None" by (simp add: b_def sample_net_def)
  have len: "length (names @ map header_hash (take (length ?cs) new)) = 3" by (simp add: names_def recs_def new_def)
  have "\<exists>b1 b2 b3 b4. StorageBackend_WriteRecord sample_env ?srv b sample_dc (map sample_desc ?bs) [] sample_key = Ret (NO_ERR, b1) \<and>
    StorageBackend_WriteRecord sample_env ?srv b1 sample_dc (map sample_desc ?cs) (header_hash (last recs)) sample_key = Ret (NO_ERR, b2) \<and>
    ReadFileMeta sample_env ?srv b2 sample_dc = Ret (NO_ERR, header_hash (last new), of_nat (length ?cs) * 16 * 1024,
      take 16 (sealed_key sample_env mk sample_key), header_hash (new ! length ?cs), b3) \<and>
    ReadRecordData sample_env ?srv b3 sample_dc (header_hash (new ! length ?cs)) (32 * 512) =
      Ret (NO_ERR, concat (names @ map header_hash (take (length ?cs) new)), b4)"
    by (rule net_second_write [OF sample_env_ok k m(1-3) d(1) _ d(2) _ _ _ _ mk_def recs_def names_def new_def dist none, of 5]) simp_all
  then obtain b1 b2 b3 b4 where r: "StorageBackend_WriteRecord sample_env ?srv b sample_dc (map sample_desc ?bs) [] sample_key = Ret (NO_ERR, b1)"
    "StorageBackend_WriteRecord sample_env ?srv b1 sample_dc (map sample_desc ?cs) (header_hash (last recs)) sample_key = Ret (NO_ERR, b2)"
    "ReadFileMeta sample_env ?srv b2 sample_dc = Ret (NO_ERR, header_hash (last new), of_nat (length ?cs) * 16 * 1024,
      take 16 (sealed_key sample_env mk sample_key), header_hash (new ! length ?cs), b3)"
    "ReadRecordData sample_env ?srv b3 sample_dc (header_hash (new ! length ?cs)) (32 * 512) =
      Ret (NO_ERR, concat (names @ map header_hash (take (length ?cs) new)), b4)" by blast
  show ?thesis
    by (rule exI [of _ c], rule exI [of _ b], rule exI [of _ b1], rule exI [of _ b2], rule exI [of _ b3], rule exI [of _ b4],
        rule exI [of _ "header_hash (last recs)"], rule exI [of _ "header_hash (last new)"],
        rule exI [of _ "take 16 (sealed_key sample_env mk sample_key)"], rule exI [of _ "header_hash (new ! length ?cs)"],
        rule exI [of _ "names @ map header_hash (take (length ?cs) new)"], intro conjI)
       (use c(1) r len in \<open>simp_all add: b_def\<close>)
qed

end
