(* ===== verification/Net_Fs.thy ===== *)
theory Net_Fs
  imports Net_Backend
begin

text \<open>
  The program as it is built: \<open>main\<close> mounts the file system on the networked record server. The life
  of a file, proved for every record store, is instantiated with \<open>DCServerNet\<close>.
\<close>

section \<open>Mounting\<close>

text \<open>
  The second half of \<open>main\<close>, with the parsed options \<open>opts\<close>: the addresses go into the option map,
  and the first thing \<open>fuse_main\<close> does is to call \<open>dcfs_init\<close>, whose backend creates the networked
  server on the network \<open>w\<close>.
\<close>

definition main_mount :: "env \<Rightarrow> dcfs_options \<Rightarrow> 'n \<Rightarrow> (env \<times> 'n server_net fs) outcome" where
  "main_mount E opts w =
     (let E' = E\<lparr>option_map := main_store_options opts (option_map E)\<rparr> in
      bindO (DCServerNet E' w) (\<lambda>s. Ret (E', dcfs_init E' opts s)))"

lemma meta_fits:
  assumes "env_ok E"
  shows "pdu_fits E (meta_pdu E n)"
proof -
  note sha = env_okD(2) [OF assms]
  have "pdu_bound (meta_pdu E n) < 2 ^ 31"
    using assms by (simp add: pdu_bound_def meta_pdu_def record_header_def Let_def empty_pdu_def empty_header_def
        length_digest [OF sha] env_ok_def reply_addr_def to_string_5001)
  then have "length (ser_pdu (cdc E) (meta_pdu E n)) < 2 ^ 31"
    using ser_pdu_bound [OF env_okD(1) [OF assms], of "meta_pdu E n"] by linarith
  moreover have "pdu_ascii (meta_pdu E n)"
    using assms by (simp add: pdu_ascii_def meta_pdu_def record_header_def Let_def env_ok_def reply_addr_def to_string_5001 empty_header_def)
      (simp add: ascii_def)
  ultimately show ?thesis using length_digest [OF sha] by (simp add: pdu_fits_def) (simp add: meta_pdu_def Let_def)
qed

lemma meta_writable:
  assumes "env_ok E" and "stored S (net_world s) (header_hash (meta_pdu E n)) = None"
  shows "net.writable S E E s [meta_pdu E n]"
  using assms meta_fits [OF assms(1), of n] by (auto simp: net.writable_def net_writes_def)

lemma mount_addresses:
  assumes "client_ip opts = Some ip" and "dcserver_ip opts = Some addrs"
    and "E' = E\<lparr>option_map := main_store_options opts (option_map E)\<rparr>"
  shows "option_map E' ''dcserver_ip'' = Some addrs" and "option_map E' ''client_ip'' = Some ip"
    and "main_mount E opts w = bindO (DCServerNet E' w) (\<lambda>s. Ret (E', dcfs_init E' opts s))"
  by (simp_all add: assms main_store_options_def main_mount_def Let_def)

lemma mount_keys:
  assumes "env_ok E" and "\<not> no_sign E" and "snd (generate_ECDSA_key (ossl E) 0) = Some k" and "ecdsa_ok (ossl E) k"
  shows "keys_ok E (fs_backend (dcfs_init E opts s))"
proof -
  obtain r where "RAND_bytes (ossl E) 1 = (1, r)" "length r = 16"
    using env_okD(4) [OF assms(1)] unfolding rand_ok_def by blast
  with assms(2-4) show ?thesis
    by (simp add: keys_ok_def dcfs_init_def StorageBackend_def DCFSMidSim_def generate_symmetric_key_def Let_def)
qed

section \<open>Properties\<close>

text \<open>
  C3. The life of a file over the network: on a mounted file system over working servers, with a
  block size of at most 16 KiB, \<open>create\<close> of a new name puts the capsule's meta record and succeeds,
  a \<open>write\<close> of up to 512 blocks at the start succeeds, and if the names of the records that the
  flush composes are new to the servers, distinct and do not start with a zero byte, then \<open>flush\<close>
  puts them, the file can be opened again, and a \<open>read\<close> through the new handle gets every byte
  back from the servers.
\<close>

theorem net_file_life:
  assumes "env_ok E" and "fs_ok st" and "keys_ok E (fs_backend st)" and "net_inv E M N S (be_srv (fs_backend st))"
    and "path \<noteq> []" and "NUL \<notin> set path" and "tl path \<notin> d_filename ` set (entries (fs_root st))"
    and "unat (fd_cnt st) < 254" and "bs = unat (fs_kb st * 1024)" and "0 < bs" and "bs \<le> 16384"
    and "0 < n" and "unat n < 2 ^ 31" and "unat n div bs < 512"
    and "stored S (net_world (be_srv (fs_backend st))) (header_hash (meta_pdu E (mid_tick (be_mid (fs_backend st))))) = None"
    and "unat n + overrun bs 0 (unat n) \<le> length src" and "unat n + overrun bs 0 (unat n) \<le> length dst"
  shows "\<exists>h st1 st2. dcfs_create E (net_server E M N) st path fh = Ret (0, fd_cnt st + 1, st1) \<and>
    dcfs_write E (net_server E M N) st1 path src n 0 (fd_cnt st + 1) = Ret (int (unat n), st2) \<and>
    length (first_batch E st2 h) = unat n div bs + 3 \<and>
    mid_tick (be_mid (fs_backend st2)) = mid_tick (be_mid (fs_backend st)) + 2 \<and>
    h = header_hash (meta_pdu E (mid_tick (be_mid (fs_backend st)))) \<and>
    (distinct (map header_hash (first_batch E st2 h)) \<and>
     (\<forall>p \<in> set (first_batch E st2 h). hd (header_hash p) \<noteq> NUL \<and> header_hash p \<noteq> h \<and>
        stored S (net_world (be_srv (fs_backend st))) (header_hash p) = None) \<longrightarrow>
      (\<exists>st3 st4 dst' st5. dcfs_flush E (net_server E M N) st2 path (fd_cnt st + 1) = Ret (0, 0, st3) \<and>
        dcfs_open E (net_server E M N) st3 path 0 = Ret (0, fd_cnt st + 2, st4) \<and>
        dcfs_read E (net_server E M N) st4 path dst n 0 (fd_cnt st + 2) = Ret (int (unat n), dst', st5) \<and>
        take (unat n) dst' = take (unat n) src))"
proof -
  obtain h st1 st2 where r: "dcfs_create E (net_server E M N) st path fh = Ret (0, fd_cnt st + 1, st1)"
    "dcfs_write E (net_server E M N) st1 path src n 0 (fd_cnt st + 1) = Ret (int (unat n), st2)"
    "length (first_batch E st2 h) = unat n div bs + 3"
    "mid_tick (be_mid (fs_backend st2)) = mid_tick (be_mid (fs_backend st)) + 2"
    "h = header_hash (meta_pdu E (mid_tick (be_mid (fs_backend st))))"
    and keep: "\<forall>r. r \<noteq> h \<longrightarrow> stored S (net_world (be_srv (fs_backend st))) r = None \<longrightarrow>
      stored S (net_world (be_srv (fs_backend st2))) r = None"
    and small: "\<forall>p \<in> set (first_batch E st2 h). \<exists>k t hs d. p = record_pdu E k t hs d \<and> (\<forall>h \<in> set hs. length h \<le> 32) \<and>
      length hs \<le> 2 \<and> d \<noteq> [] \<and> length d < 2 ^ 30"
    and life: "net.writable S E E (be_srv (fs_backend st2)) (first_batch E st2 h) \<Longrightarrow>
      \<forall>p \<in> set (first_batch E st2 h). net_reads E (header_hash p) (ser_pdu (cdc E) p) \<Longrightarrow>
      \<forall>p \<in> set (first_batch E st2 h). hd (header_hash p) \<noteq> NUL \<Longrightarrow>
      \<exists>st3 st4 dst' st5. dcfs_flush E (net_server E M N) st2 path (fd_cnt st + 1) = Ret (0, 0, st3) \<and>
        dcfs_open E (net_server E M N) st3 path 0 = Ret (0, fd_cnt st + 2, st4) \<and>
        dcfs_read E (net_server E M N) st4 path dst n 0 (fd_cnt st + 2) = Ret (int (unat n), dst', st5) \<and>
        take (unat n) dst' = take (unat n) src \<and>
        (path \<noteq> ''/'' \<longrightarrow> (\<exists>a st6. dcfs_getattr E (net_server E M N) st4 path = Ret (0, a, st6) \<and>
           st_size a = of_nat (unat n div bs + 1) * 16 * 1024))"
    by (rule net.file_life [OF assms(1-14) meta_writable [OF assms(1,15)] assms(16,17), of fh]) (rule that)
  have ok: "net_writes E (header_hash p) (ser_pdu (cdc E) p) \<and> net_reads E (header_hash p) (ser_pdu (cdc E) p)"
    if "p \<in> set (first_batch E st2 h)" for p
    using bspec [OF small that] batch_record_net [OF assms(1)] by blast
  show ?thesis
  proof (rule exI [of _ h], rule exI [of _ st1], rule exI [of _ st2], intro conjI impI)
    assume b: "distinct (map header_hash (first_batch E st2 h)) \<and>
      (\<forall>p \<in> set (first_batch E st2 h). hd (header_hash p) \<noteq> NUL \<and> header_hash p \<noteq> h \<and>
        stored S (net_world (be_srv (fs_backend st))) (header_hash p) = None)"
    then have "net.writable S E E (be_srv (fs_backend st2)) (first_batch E st2 h)"
      using ok keep by (simp add: net.writable_def)
    from life [OF this] ok b
    show "\<exists>st3 st4 dst' st5. dcfs_flush E (net_server E M N) st2 path (fd_cnt st + 1) = Ret (0, 0, st3) \<and>
        dcfs_open E (net_server E M N) st3 path 0 = Ret (0, fd_cnt st + 2, st4) \<and>
        dcfs_read E (net_server E M N) st4 path dst n 0 (fd_cnt st + 2) = Ret (int (unat n), dst', st5) \<and>
        take (unat n) dst' = take (unat n) src" by blast
  qed (rule r)+
qed

text \<open>
  C27. Mounting: with a client address and a list of \<open>ip:count\<close> entries with at least one server,
  whose addresses are those of working servers, and a key that can sign, \<open>main\<close> gives a file system
  that is well formed, has no files, and satisfies what the theorems on files ask for. With the
  default options, whose addresses are empty, the program exits.
\<close>

theorem mount_ready:
  assumes "E' = E\<lparr>option_map := main_store_options opts (option_map E)\<rparr>" and "env_ok E'"
    and "client_ip opts = Some ip" and "ip \<noteq> []" and "dcserver_ip opts = Some (print_entries es)"
    and "\<forall>e \<in> set es. entry_ok e" and "(a0, n0) \<in> set es" and "0 < n0"
    and "\<forall>(a, n) \<in> set es. \<forall>i \<in> {101..<101 + n}. a @ '':'' @ to_string (4001 + i) \<in> write_addrs S \<and>
      a @ '':'' @ to_string (4300 + i) \<in> read_addrs S"
    and "service_ok E' M N S" and "healthy S w" and "\<forall>h p. stored S w h = Some p \<longrightarrow> pdu_fits E' p"
    and "\<not> no_sign E" and "snd (generate_ECDSA_key (ossl E) 0) = Some k" and "ecdsa_ok (ossl E) k"
  shows "(\<exists>st. main_mount E opts w = Ret (E', st) \<and> fs_ok st \<and> entries (fs_root st) = [] \<and> fd_cnt st = 10 \<and>
      fs_kb st = block_size_in_kb opts \<and> keys_ok E' (fs_backend st) \<and> net_inv E' M N S (be_srv (fs_backend st)) \<and>
      net_world (be_srv (fs_backend st)) = w \<and> net.files_intact E' M N S bs E' st \<and> net.files_of E' S E' st = Map.empty) \<and>
    main_mount E main_defaults w = Fault Exit_failure"
proof
  let ?ad = "\<lambda>b. remdups [a @ '':'' @ to_string (b + i). (a, n) \<leftarrow> es, i \<leftarrow> [101..<101 + n]]"
  note m = mount_addresses [OF assms(3,5,1)]
  define c where "c = \<lparr>dc_server_dc_sockets = ?ad 4001, dc_server_serve_sockets = ?ad 4300, recv_ack_addr = ip @ '':'' @ to_string (5001 + 0),
    recv_get_resp_addr = ip @ '':'' @ to_string (5101 + 0), recv_ack_map = Map.empty, put_map = Map.empty, get_map = Map.empty, draws = 0\<rparr>"
  have es: "es \<noteq> []" using assms(7) by auto
  have ne: "a0 @ '':'' @ to_string (b + 101) \<in> set (?ad b)" for b using assms(7,8) by (fastforce simp del: upt_Suc)
  have sub: "set (?ad 4001) \<subseteq> write_addrs S" "set (?ad 4300) \<subseteq> read_addrs S" using assms(9) by (fastforce simp del: upt_Suc)+
  have "\<forall>a \<in> write_addrs S \<union> read_addrs S. zmq_connects E' (''tcp://'' @ a)" using assms(10) unfolding service_ok_def by blast
  then have "\<forall>a \<in> set (listed_addrs 4001 es @ listed_addrs 4300 es). zmq_connects E' (''tcp://'' @ a)"
    using sub unfolding listed_addrs_def set_remdups set_append by blast
  from DCClient_entries [OF es assms(6) m(1,2) assms(4), of 0, unfolded if_P [OF this]] have cl: "DCClient E' 0 = Ret c"
    unfolding c_def listed_addrs_def .
  let ?s = "\<lparr>net_client = c, net_world = w\<rparr>"
  have "?ad 4001 \<noteq> []" "?ad 4300 \<noteq> []" by (rule length_greater_0_conv [THEN iffD1, OF length_pos_if_in_set [OF ne]])+
  then have "net_inv E' M N S ?s"
    using assms(10-12) sub env_okD(1) [OF assms(2)] by (simp add: net_inv_def tables_ok_def c_def del: upt_Suc)
  moreover have "main_mount E opts w = Ret (E', dcfs_init E' opts ?s)" using m(3) cl by (simp add: DCServerNet_def)
  moreover have "keys_ok E' (fs_backend (dcfs_init E' opts ?s))"
    using mount_keys [OF assms(2), of k opts ?s] assms(1,13-15) by simp
  ultimately show "\<exists>st. main_mount E opts w = Ret (E', st) \<and> fs_ok st \<and> entries (fs_root st) = [] \<and> fd_cnt st = 10 \<and>
      fs_kb st = block_size_in_kb opts \<and> keys_ok E' (fs_backend st) \<and> net_inv E' M N S (be_srv (fs_backend st)) \<and>
      net_world (be_srv (fs_backend st)) = w \<and> net.files_intact E' M N S bs E' st \<and> net.files_of E' S E' st = Map.empty"
    using init_ok [of E' opts ?s]
    by (intro exI [of _ "dcfs_init E' opts ?s"])
       (simp add: dcfs_init_def StorageBackend_def Let_def LoadRoot_def Directory_def net.files_intact_def net.files_of_def fun_eq_iff)
next
  show "main_mount E main_defaults w = Fault Exit_failure"
    by (simp add: main_mount_def main_store_options_def main_defaults_def DCServerNet_def DCClient_def ClientComm_def load_client_ip_def Let_def)
qed

text \<open>
  The files of a mounted file system as an abstract store: \<open>create\<close> of a new name adds an empty
  file under the next handle and leaves the contents of every other open file as they are.
\<close>

theorem net_create_refines:
  assumes "env_ok E" and "fs_ok st" and "keys_ok E (fs_backend st)" and "net_inv E M N S (be_srv (fs_backend st))"
    and "path \<noteq> []" and "NUL \<notin> set path" and "tl path \<notin> d_filename ` set (entries (fs_root st))"
    and "unat (fd_cnt st) < 255" and "fs_kb st * 1024 \<noteq> 0" and "bs = unat (fs_kb st * 1024)"
    and "h = header_hash (meta_pdu E (mid_tick (be_mid (fs_backend st))))"
    and "stored S (net_world (be_srv (fs_backend st))) h = None" and "net.files_intact E M N S bs E st"
  shows "\<exists>st1. dcfs_create E (net_server E M N) st path fh = Ret (0, fd_cnt st + 1, st1) \<and>
    net.files_of E S E st1 = (net.files_of E S E st)(h \<mapsto> \<lparr>a_size = 0, a_bytes = \<lambda>_. NUL\<rparr>) \<and>
    net.files_intact E M N S bs E st1 \<and> fd_table st1 = (fd_table st)[unat (fd_cnt st + 1) := h]"
proof -
  have "net.writable S E E (be_srv (fs_backend st)) [meta_pdu E (mid_tick (be_mid (fs_backend st)))]"
    using meta_writable [OF assms(1)] assms(11,12) by simp
  moreover have "\<forall>c. net_lookup E S (be_srv (fs_backend st)) c h = None" using assms(12) by (simp add: net_lookup_def)
  ultimately show ?thesis by (rule net.create_refines [OF assms(1-10) _ assms(11) _ assms(13)])
qed

text \<open>
  C4. Reads and writes refine the abstract store: for every sequence of \<open>read\<close> and \<open>write\<close> calls on
  open handles, of any number of files, that the abstract store allows, every call of the file
  system over the network returns, with the abstract result, and the files afterwards are those of
  the abstract store. A write beyond the end is an append, a read stops at the end, and handles of
  one file see each other's writes.
\<close>

theorem net_calls_refine:
  assumes "env_ok E" and "net.files_intact E M N S bs E st"
    and "spec_calls bs (fd_table st) (net.files_of E S E st) cs = Some (rs, fs1)"
  shows "\<exists>st1. fs_calls E (net_server E M N) st cs = Ret (rs, st1) \<and> net.files_of E S E st1 = fs1 \<and>
    net.files_intact E M N S bs E st1"
  by (rule net.calls_refine [OF assms])

text \<open>
  C28. A file that is created and closed without a write can never be opened again over the network:
  the flush succeeds and writes no record, and since no inode record has a name yet, the next
  \<open>open\<close> or \<open>getattr\<close> asks the servers for a record with the empty name and waits for ever.
\<close>

theorem empty_file_blocks:
  assumes "env_ok E" and "fs_ok st" and "keys_ok E (fs_backend st)" and "net_inv E M N S (be_srv (fs_backend st))"
    and "path \<noteq> []" and "NUL \<notin> set path" and "tl path \<notin> d_filename ` set (entries (fs_root st))"
    and "unat (fd_cnt st) < 255" and "fs_kb st * 1024 \<noteq> 0"
    and "stored S (net_world (be_srv (fs_backend st))) (header_hash (meta_pdu E (mid_tick (be_mid (fs_backend st))))) = None"
    and "stored S (net_world (be_srv (fs_backend st))) [] = None" and "path \<noteq> ''/''"
  shows "\<exists>st1 st2. dcfs_create E (net_server E M N) st path fh = Ret (0, fd_cnt st + 1, st1) \<and>
    dcfs_flush E (net_server E M N) st1 path (fd_cnt st + 1) = Ret (0, 0, st2) \<and>
    (\<forall>fh. dcfs_open E (net_server E M N) st2 path fh = Fault Blocked_forever) \<and>
    dcfs_getattr E (net_server E M N) st2 path = Fault Blocked_forever"
proof -
  obtain h ino st1 where c: "dcfs_create E (net_server E M N) st path fh = Ret (0, fd_cnt st + 1, st1)"
    "net.new_file E M N S E st1 path h (fd_cnt st + 1) ino"
    "\<forall>r. r \<noteq> h \<longrightarrow> stored S (net_world (be_srv (fs_backend st))) r = None \<longrightarrow> stored S (net_world (be_srv (fs_backend st1))) r = None"
    using net.create_new_file [OF assms(1-9) meta_writable [OF assms(1,10)], of fh] by metis
  have n: "net_inv E M N S (be_srv (fs_backend st1))" "keys_ok E (fs_backend st1)" "mid_index (be_mid (fs_backend st1)) h = Some []" "h \<noteq> []"
    "List.find (\<lambda>e. strcmp_eq (tl path) (d_filename e)) (entries (fs_root st1)) = Some \<lparr>d_filename = tl path, d_hashname = h\<rparr>"
    using c(2) by (auto simp: net.new_file_def net.rd.intact_def)
  obtain st2 where f: "dcfs_flush E (net_server E M N) st1 path (fd_cnt st + 1) = Ret (0, 0, st2)" "fs_backend st2 = fs_backend st1"
    "inode_table st2 h = None" "fs_root st2 = fs_root st1" by (rule net.flush_empty_file [OF c(2)])
  have s: "stored S (net_world (be_srv (fs_backend st1))) [] = None" by (rule c(3) [rule_format, OF not_sym [OF n(4)] assms(11)])
  have "ReadRecord (net_server E M N) (be_srv (fs_backend st1)) h [] k = Fault Blocked_forever" for k
    using read_unanswered [OF n(1) not_stored_not_read [OF n(1) s]] s by (simp add: net_server_def)
  moreover obtain sg where "sign (ossl E) (no_sign E) (be_client_key_pair (fs_backend st1)) (Some (digest E h)) = Ret (Some sg)"
    "GetInodeName E (be_mid (fs_backend st1)) h sg =
      Ret (case mid_index (be_mid (fs_backend st1)) h of None \<Rightarrow> (ERR_NOT_FOUND, []) | Some name \<Rightarrow> (NO_ERR, name))"
    by (rule GetInodeName_signed [OF assms(1) n(2)])
  ultimately have r: "ReadFileMeta E (net_server E M N) (fs_backend st2) h = Fault Blocked_forever"
    using n(3) by (simp add: ReadFileMeta_def f(2) digest_eq [OF env_okD(2) [OF assms(1)]])
  note fault = meta_fault [OF assms(5,6), of st2 "\<lparr>d_filename = tl path, d_hashname = h\<rparr>" E "net_server E M N"]
  have "dcfs_open E (net_server E M N) st2 path k = Fault Blocked_forever" for k
    by (rule fault(1)) (use n(5) f r in simp_all)
  moreover have "dcfs_getattr E (net_server E M N) st2 path = Fault Blocked_forever"
    by (rule fault(2)) (use n(5) f r assms(12) in simp_all)
  ultimately show ?thesis using c(1) f(1) by blast
qed

section \<open>A concrete mount\<close>

definition sample_opts :: dcfs_options where
  "sample_opts = \<lparr>block_size_in_kb = 16, client_ip = Some ''10.0.0.1'', dcserver_ip = Some ''10.4.0.10:1'', show_help = 0\<rparr>"

definition sample_start :: sample_world where
  "sample_start = \<lparr>sw_stored = Map.empty, sw_queue = []\<rparr>"

lemma sample_stored_options: "sample_env\<lparr>option_map := main_store_options sample_opts Map.empty\<rparr> = sample_env"
  by (simp add: sample_env_def main_store_options_def sample_opts_def)

lemma sample_mount:
  obtains c where "main_mount (sample_env\<lparr>option_map := Map.empty\<rparr>) sample_opts sample_start =
      Ret (sample_env, dcfs_init sample_env sample_opts (sample_net c))"
    and "net_inv sample_env sample_req_codec sample_network sample_service (sample_net c)"
proof -
  obtain c where c: "DCClient sample_env 0 = Ret c"
    "net_inv sample_env sample_req_codec sample_network sample_service (sample_net c)"
    by (rule sample_net_inv)
  then show thesis
    using that [OF _ c(2)] sample_stored_options
    by (simp add: main_mount_def Let_def DCServerNet_def sample_net_def sample_start_def)
qed

lemma sample_init_keys: "keys_ok sample_env (fs_backend (dcfs_init sample_env opts s))"
  using sample_ecdsa_ok
  by (auto simp: keys_ok_def dcfs_init_def StorageBackend_def DCFSMidSim_def generate_symmetric_key_def
      generate_ECDSA_key_def sample_env_def sample_openssl_def Let_def)

lemma sample_meta_name:
  assumes "header_hash (record_pdu sample_env n t hs b) = header_hash (meta_pdu sample_env n')"
  shows "(of_nat n :: 64 word) = of_nat n'"
proof -
  have "take 8 (tl (header_hash (record_pdu sample_env n t hs b))) = u64_bytes (of_nat n)"
    "take 8 (tl (header_hash (meta_pdu sample_env n'))) = u64_bytes (of_nat n')"
    by (simp_all add: record_pdu_def meta_pdu_def digest_def Let_def sample_env_def sample_openssl_def
        sample_digest_def sample_codec_def sample_ser_header_def put_int_def record_header_def min_def)
  then have "bytes_u64 (u64_bytes (of_nat n)) = bytes_u64 (u64_bytes (of_nat n'))" using assms by simp
  then show ?thesis by simp
qed

lemma sample_batch_not_meta:
  assumes "p \<in> set (first_batch sample_env st h)" and "length (first_batch sample_env st h) < 1000"
    and "mid_tick (be_mid (fs_backend st)) = 4"
  shows "header_hash p \<noteq> header_hash (meta_pdu sample_env 2)"
proof
  let ?bs = "map (cipher sample_env (the (inode_table st h))) (dirty_blocks (the (inode_table st h)))"
  assume eq: "header_hash p = header_hash (meta_pdu sample_env 2)"
  obtain sealed where f: "first_batch sample_env st h = batch_records sample_env 4 h h h [] sealed ?bs"
    using assms(3) by (simp add: first_batch_def Let_def)
  with assms(1,2) obtain i where i: "i < length ?bs + 2" "p = batch_records sample_env 4 h h h [] sealed ?bs ! i" "i < 1000"
    by (metis batch_records_length in_set_conv_nth order_less_trans)
  obtain t hs d where "p = record_pdu sample_env (4 + i) t hs d"
    using batch_records_shape [OF i(1)] i(2) by blast
  then have "(of_nat (4 + i) :: 64 word) = of_nat 2" using sample_meta_name eq by metis
  then have "unat (of_nat (4 + i) :: 64 word) = unat (of_nat 2 :: 64 word)" by (rule arg_cong)
  then show False using i(3) by (simp add: unat_of_nat del: of_nat_add)
qed

theorem net_file_life_witness:
  "\<exists>st st1 st2 st3 st4 dst' st5. main_mount (sample_env\<lparr>option_map := Map.empty\<rparr>) sample_opts sample_start = Ret (sample_env, st) \<and>
     dcfs_create sample_env (net_server sample_env sample_req_codec sample_network) st ''/f'' 0 = Ret (0, 11, st1) \<and>
     dcfs_write sample_env (net_server sample_env sample_req_codec sample_network) st1 ''/f'' ''hello'' 5 0 11 = Ret (5, st2) \<and>
     dcfs_flush sample_env (net_server sample_env sample_req_codec sample_network) st2 ''/f'' 11 = Ret (0, 0, st3) \<and>
     dcfs_open sample_env (net_server sample_env sample_req_codec sample_network) st3 ''/f'' 0 = Ret (0, 12, st4) \<and>
     dcfs_read sample_env (net_server sample_env sample_req_codec sample_network) st4 ''/f'' ''.....'' 5 0 12 = Ret (5, dst', st5) \<and>
     take 5 dst' = ''hello''"
proof -
  let ?srv = "net_server sample_env sample_req_codec sample_network"
  obtain c where c: "main_mount (sample_env\<lparr>option_map := Map.empty\<rparr>) sample_opts sample_start =
      Ret (sample_env, dcfs_init sample_env sample_opts (sample_net c))"
    "net_inv sample_env sample_req_codec sample_network sample_service (sample_net c)" by (rule sample_mount)
  define st where "st = dcfs_init sample_env sample_opts (sample_net c)"
  have st: "mid_tick (be_mid (fs_backend st)) = 2" "be_srv (fs_backend st) = sample_net c" "fd_cnt st = 10" "entries (fs_root st) = []"
    "fs_kb st = 16"
    by (simp_all add: st_def dcfs_init_def StorageBackend_def DCFSMidSim_def Let_def LoadRoot_def Directory_def sample_opts_def)
  have none: "stored sample_service (net_world (sample_net c)) r = None" for r by (simp add: sample_net_def)
  obtain h st1 st2 where r: "dcfs_create sample_env ?srv st ''/f'' 0 = Ret (0, 11, st1)"
    "dcfs_write sample_env ?srv st1 ''/f'' ''hello'' 5 0 11 = Ret (5, st2)"
    "length (first_batch sample_env st2 h) = 3" "mid_tick (be_mid (fs_backend st2)) = 4" "h = header_hash (meta_pdu sample_env 2)"
    "distinct (map header_hash (first_batch sample_env st2 h)) \<and>
     (\<forall>p \<in> set (first_batch sample_env st2 h). hd (header_hash p) \<noteq> NUL \<and> header_hash p \<noteq> h) \<longrightarrow>
      (\<exists>st3 st4 dst' st5. dcfs_flush sample_env ?srv st2 ''/f'' 11 = Ret (0, 0, st3) \<and>
        dcfs_open sample_env ?srv st3 ''/f'' 0 = Ret (0, 12, st4) \<and>
        dcfs_read sample_env ?srv st4 ''/f'' ''.....'' 5 0 12 = Ret (5, dst', st5) \<and> take 5 dst' = ''hello'')"
    using net_file_life [OF sample_env_ok, of st sample_req_codec sample_network sample_service "''/f''" 16384 5 "''hello''" "''.....''" 0]
      init_ok [of sample_env sample_opts "sample_net c"] sample_init_keys [of sample_opts "sample_net c"] c(2) st none
    by (simp add: overrun_def st_def [symmetric]) blast
  have "distinct (map header_hash (first_batch sample_env st2 h))"
    "\<forall>p \<in> set (first_batch sample_env st2 h). hd (header_hash p) \<noteq> NUL \<and> header_hash p \<noteq> h"
    using sample_first_batch_ok [of st2 h] sample_batch_not_meta [of _ st2 h] r(3-5) by auto
  with r c(1) show ?thesis unfolding st_def [symmetric] by blast
qed

theorem mount_ready_witness:
  "\<exists>st. main_mount (sample_env\<lparr>option_map := Map.empty\<rparr>) sample_opts sample_start = Ret (sample_env, st) \<and> fs_ok st \<and>
     net_inv sample_env sample_req_codec sample_network sample_service (be_srv (fs_backend st))"
proof -
  let ?E = "sample_env\<lparr>option_map := Map.empty\<rparr>" and ?es = "[(''10.4.0.10'', 1)] :: (string \<times> nat) list"
  have e: "sample_env = ?E\<lparr>option_map := main_store_options sample_opts (option_map ?E)\<rparr>"
    using sample_stored_options by simp
  have a: "client_ip sample_opts = Some ''10.0.0.1''" "dcserver_ip sample_opts = Some (print_entries ?es)"
    by (simp_all add: sample_opts_def print_entry_def to_string.simps dec_digit_def)
  have t: "to_string 4102 = ''4102''" "to_string 4401 = ''4401''" "{101..<102} = {101 :: nat}"
    by (simp_all add: to_string.simps dec_digit_def) auto
  have r: "\<forall>(a, n) \<in> set ?es. \<forall>i \<in> {101..<101 + n}. a @ '':'' @ to_string (4001 + i) \<in> write_addrs sample_service \<and>
      a @ '':'' @ to_string (4300 + i) \<in> read_addrs sample_service"
    by (simp add: t sample_write_addr_def sample_read_addr_def)
  have w: "healthy sample_service sample_start" "\<forall>h p. stored sample_service sample_start h = Some p \<longrightarrow> pdu_fits sample_env p"
    by (simp_all add: sample_start_def sample_healthy)
  have k: "\<not> no_sign ?E" "snd (generate_ECDSA_key (ossl ?E) 0) = Some ''key''" "ecdsa_ok (ossl ?E) ''key''"
    using sample_ecdsa_ok by (simp_all add: generate_ECDSA_key_def sample_env_def) (simp_all add: sample_openssl_def)
  show ?thesis
    using mount_ready [OF e sample_env_ok a(1) _ a(2) _ _ _ r sample_service_ok w k] by (auto simp: entry_ok_def)
qed

text \<open>The mounted file system of the sample, before and after its first file is created.\<close>

lemma sample_mounted:
  obtains st where "main_mount (sample_env\<lparr>option_map := Map.empty\<rparr>) sample_opts sample_start = Ret (sample_env, st)"
    and "fs_ok st" and "keys_ok sample_env (fs_backend st)"
    and "net_inv sample_env sample_req_codec sample_network sample_service (be_srv (fs_backend st))"
    and "fd_cnt st = 10" and "fs_kb st = 16" and "entries (fs_root st) = []" and "fd_table st = replicate 256 []"
    and "\<And>r. stored sample_service (net_world (be_srv (fs_backend st))) r = None"
    and "inode_table st = Map.empty" and "mid_tick (be_mid (fs_backend st)) = 2"
proof -
  obtain c where c: "main_mount (sample_env\<lparr>option_map := Map.empty\<rparr>) sample_opts sample_start =
      Ret (sample_env, dcfs_init sample_env sample_opts (sample_net c))"
    "net_inv sample_env sample_req_codec sample_network sample_service (sample_net c)" by (rule sample_mount)
  show thesis
    using that [OF c(1) init_ok sample_init_keys] c(2)
    by (simp add: dcfs_init_def StorageBackend_def DCFSMidSim_def Let_def LoadRoot_def Directory_def sample_opts_def sample_net_def)
qed

lemma empty_files:
  "inode_table st = Map.empty \<Longrightarrow> net.files_intact E M N S bs E st" "inode_table st = Map.empty \<Longrightarrow> net.files_of E S E st = Map.empty"
  by (simp_all add: net.files_intact_def net.files_of_def fun_eq_iff)

theorem net_create_refines_witness:
  "\<exists>st st1 h. main_mount (sample_env\<lparr>option_map := Map.empty\<rparr>) sample_opts sample_start = Ret (sample_env, st) \<and>
     dcfs_create sample_env (net_server sample_env sample_req_codec sample_network) st ''/f'' 0 = Ret (0, 11, st1) \<and>
     net.files_of sample_env sample_service sample_env st1 = [h \<mapsto> \<lparr>a_size = 0, a_bytes = \<lambda>_. NUL\<rparr>]"
proof -
  obtain st where st: "main_mount (sample_env\<lparr>option_map := Map.empty\<rparr>) sample_opts sample_start = Ret (sample_env, st)"
    "fs_ok st" "keys_ok sample_env (fs_backend st)"
    "net_inv sample_env sample_req_codec sample_network sample_service (be_srv (fs_backend st))"
    "fd_cnt st = 10" "fs_kb st = 16" "entries (fs_root st) = []" "fd_table st = replicate 256 []"
    "\<And>r. stored sample_service (net_world (be_srv (fs_backend st))) r = None" "inode_table st = Map.empty" by (rule sample_mounted) blast
  show ?thesis
    using net_create_refines [OF sample_env_ok st(2-4) _ _ _ _ _ refl refl st(9) empty_files(1) [OF st(10)], of "''/f''" 0]
      st(1,5-7) empty_files(2) [OF st(10)] by auto
qed

lemma sample_created:
  obtains st1 h where "fd_table st1 = (replicate 256 [])[11 := h]"
    and "net.files_intact sample_env sample_req_codec sample_network sample_service 16384 sample_env st1"
    and "net.files_of sample_env sample_service sample_env st1 = [h \<mapsto> \<lparr>a_size = 0, a_bytes = \<lambda>_. NUL\<rparr>]"
proof -
  obtain st where st: "fs_ok st" "keys_ok sample_env (fs_backend st)"
    "net_inv sample_env sample_req_codec sample_network sample_service (be_srv (fs_backend st))"
    "fd_cnt st = 10" "fs_kb st = 16" "entries (fs_root st) = []" "fd_table st = replicate 256 []"
    "\<And>r. stored sample_service (net_world (be_srv (fs_backend st))) r = None" "inode_table st = Map.empty" by (rule sample_mounted) blast
  show thesis
    using net.create_refines [OF sample_env_ok st(1-3) _ _ _ _ _ refl meta_writable [OF sample_env_ok st(8)] refl _ empty_files(1) [OF st(9)], of "''/f''" 0]
      st(4-8) empty_files(2) [OF st(9)] that by (auto simp: net_lookup_def)
qed

theorem net_calls_refine_witness:
  "\<exists>st st1. fs_calls sample_env (net_server sample_env sample_req_codec sample_network) st
      [Write_call 11 ''/f'' ''hello'' 5 0, Write_call 11 ''/f'' ''!'' 1 100, Read_call 11 ''/f'' ''..........'' 10 3] =
    Ret ([(5, []), (1, []), (3, ''lo!'')], st1)"
proof -
  let ?cs = "[Write_call 11 ''/f'' ''hello'' 5 0, Write_call 11 ''/f'' ''!'' 1 100, Read_call 11 ''/f'' ''..........'' 10 3]"
  obtain st h where st: "fd_table st = (replicate 256 [])[11 := h]"
    "net.files_intact sample_env sample_req_codec sample_network sample_service 16384 sample_env st"
    "net.files_of sample_env sample_service sample_env st = [h \<mapsto> \<lparr>a_size = 0, a_bytes = \<lambda>_. NUL\<rparr>]" by (rule sample_created)
  have "\<exists>fs1. spec_calls 16384 (fd_table st) (net.files_of sample_env sample_service sample_env st) ?cs =
      Some ([(5, []), (1, []), (3, ''lo!'')], fs1)"
    by (simp add: st(1,3) open_file_def spec_read_def spec_write_def spec_at_def buffer_fits_def overrun_def Let_def upt_rec)
  then show ?thesis using net_calls_refine [OF sample_env_ok st(2)] by blast
qed

theorem empty_file_blocks_witness:
  "\<exists>st st1 st2. main_mount (sample_env\<lparr>option_map := Map.empty\<rparr>) sample_opts sample_start = Ret (sample_env, st) \<and>
     dcfs_create sample_env (net_server sample_env sample_req_codec sample_network) st ''/f'' 0 = Ret (0, 11, st1) \<and>
     dcfs_flush sample_env (net_server sample_env sample_req_codec sample_network) st1 ''/f'' 11 = Ret (0, 0, st2) \<and>
     dcfs_open sample_env (net_server sample_env sample_req_codec sample_network) st2 ''/f'' 0 = Fault Blocked_forever"
proof -
  obtain st where st: "main_mount (sample_env\<lparr>option_map := Map.empty\<rparr>) sample_opts sample_start = Ret (sample_env, st)"
    "fs_ok st" "keys_ok sample_env (fs_backend st)"
    "net_inv sample_env sample_req_codec sample_network sample_service (be_srv (fs_backend st))"
    "fd_cnt st = 10" "fs_kb st = 16" "entries (fs_root st) = []"
    "\<And>r. stored sample_service (net_world (be_srv (fs_backend st))) r = None" by (rule sample_mounted) blast
  show ?thesis
    using empty_file_blocks [OF sample_env_ok st(2-4) _ _ _ _ _ st(8) st(8), of "''/f''" 0] st(1,5-7) by auto
qed

end
