(* ===== verification/Call_Ends.thy ===== *)
theory Call_Ends
  imports Session
begin

text \<open>
  What the file system calls return, in every state and over every record server: the error codes
  that reach the kernel and those that never do.
\<close>

section \<open>What calls return\<close>

text \<open>
  The results of the calls: \<open>-ENOMEM\<close> and \<open>-EIO\<close> are not among them. A read or write returns a count
  converted to \<open>int\<close>, of at most the size that was asked for.
\<close>

fun result_ok :: "fs_op \<Rightarrow> op_result \<Rightarrow> bool" where
  "result_ok (Op_create path) r \<longleftrightarrow> (\<exists>fh. r = R_handle 0 fh \<or> r = R_handle (- EEXIST) 0)"
| "result_ok (Op_open path) r \<longleftrightarrow> (\<exists>fh. r = R_handle 0 fh \<or> r = R_handle (- ENOENT) 0)"
| "result_ok (Op_read path fh dst sz offset) r \<longleftrightarrow>
     (\<exists>n d. n \<le> sz \<and> length d \<le> unat sz \<and> r = R_data (int_of n) d) \<or> r = R_data (- ENOENT) []"
| "result_ok (Op_write path fh src sz offset) r \<longleftrightarrow> r = R_data (int_of sz) [] \<or> r = R_data (- ENOENT) []"
| "result_ok (Op_close path fh) r \<longleftrightarrow> (\<exists>k. k \<in> {0, fh} \<and> r = R_handle 0 k) \<or> r = R_handle (- ENOENT) fh"
| "result_ok (Op_getattr path) r \<longleftrightarrow> (\<exists>m sz. m \<in> {16877, 33060} \<and> r = R_attr 0 m sz) \<or> r = R_attr (- ENOENT) 0 0"
| "result_ok (Op_readdir path) r \<longleftrightarrow> (\<exists>ns. r = R_names 0 ([''.'', ''..''] @ ns)) \<or> r = R_names (- ENOENT) []"

lemma int_of_le: "nat (int_of w) \<le> unat w"
proof (cases "unat w < 2 ^ 31")
  case True
  then show ?thesis by (simp add: int_of_small)
next
  case False
  have "int_of w < 2 ^ 31" using sint_lt [of "ucast w :: 32 word"] by (simp add: int_of_def)
  then have "nat (int_of w) < 2 ^ 31" by simp
  then show ?thesis using False by linarith
qed

lemma read_size_le:
  fixes len offset sz :: u64
  assumes "offset < len"
  shows "(if len < offset + sz then len - offset else sz) \<le> sz"
proof (cases "len < offset + sz")
  case True
  have "unat sz < 2 ^ 64" using unsigned_less [of sz] by simp
  with True have "unat (offset + sz) = unat offset + unat sz"
    using assms unat_plus_if_size [of offset sz] by (auto simp: word_size word_less_nat_alt split: if_split_asm)
  then show ?thesis using True assms by (simp add: word_less_nat_alt word_le_nat_alt unat_sub_if_size)
qed simp

lemma log_code_neg: "err < 0 \<Longrightarrow> log_code lit err = Fault Undefined_behaviour"
  by (simp add: log_code_def)

lemma allocate_some: "allocate_inode E srv st = Ret (p, st') \<Longrightarrow> \<exists>ino. p = Some ino"
  by (auto simp: allocate_inode_def Let_def outcome_simps log_code_neg split: if_split_asm)

lemma read_returns:
  assumes "dcfs_read E srv st path dst sz offset fh = Ret (n, dst', st')"
  obtains (count) m where "m \<le> sz" and "n = int_of m" | (missing) "n = - ENOENT"
proof -
  obtain h p st1 where h: "handle_inode E srv st path fh = Ret (Some (h, p), st1)"
    using assms by (auto simp: dcfs_read_def outcome_simps)
  show thesis
  proof (cases p)
    case None
    then show thesis using assms h missing by (simp add: dcfs_read_def)
  next
    case (Some ino)
    show thesis
    proof (cases "offset < i_size ino")
      case True
      define m where "m = (if i_size ino < offset + sz then i_size ino - offset else sz)"
      have "n = int_of m"
        using assms h Some True by (auto simp: dcfs_read_def Let_def m_def [symmetric] outcome_simps log_code_neg split: if_split_asm)
      then show thesis using count [OF read_size_le [OF True, of sz, folded m_def]] by blast
    next
      case False
      then show thesis using assms h Some count [of 0] by (simp add: dcfs_read_def)
    qed
  qed
qed

lemma write_returns:
  assumes "dcfs_write E srv st path src sz offset fh = Ret (n, st')"
  shows "n = int_of sz \<or> n = - ENOENT"
proof -
  obtain r st1 where h: "handle_inode E srv st path fh = Ret (r, st1)" using assms by (auto simp: dcfs_write_def outcome_simps)
  show ?thesis
  proof (cases "\<exists>h ino. r = Some (h, Some ino)")
    case True
    then show ?thesis using assms h by (auto simp: dcfs_write_def Let_def outcome_simps log_code_neg split: if_split_asm)
  next
    case False
    then show ?thesis using assms h by (auto simp: dcfs_write_def split: option.split_asm prod.split_asm)
  qed
qed

lemma flush_returns:
  assumes "dcfs_flush E srv st path fh = Ret (n, k, st')"
  shows "n = 0 \<and> k \<in> {0, fh} \<or> n = - ENOENT \<and> k = fh"
proof -
  obtain r st1 where h: "handle_inode E srv st path fh = Ret (r, st1)" using assms by (auto simp: dcfs_flush_def outcome_simps)
  show ?thesis
  proof (cases "\<exists>h ino. r = Some (h, Some ino)")
    case True
    then show ?thesis using assms h by (auto simp: dcfs_flush_def Let_def outcome_simps split: if_split_asm)
  next
    case False
    then show ?thesis using assms h by (auto simp: dcfs_flush_def split: option.split_asm prod.split_asm)
  qed
qed

text \<open>
  C7. The results of the file system calls, whatever the state and whatever the record server does:
  a call that returns gives one of the results listed. \<open>create\<close> never returns \<open>-ENOMEM\<close> and neither
  \<open>read\<close> nor \<open>write\<close> returns \<open>-EIO\<close>, although the source has statements that do: before each of them
  the error code is added to a string literal, which is undefined for a negative code.
\<close>

theorem call_results:
  assumes "do_op E srv st c = Ret (r, st')"
  shows "result_ok c r"
proof (cases c)
  case (Op_create path)
  with assms show ?thesis
    by (auto simp: dcfs_create_def outcome_simps Let_def dest!: allocate_some split: if_split_asm option.split_asm)
next
  case (Op_open path)
  with assms show ?thesis by (auto simp: dcfs_open_def outcome_simps Let_def split: option.split_asm)
next
  case (Op_read path fh dst sz offset)
  then obtain n dst' where r: "dcfs_read E srv st path dst sz offset fh = Ret (n, dst', st')" "r = R_data n (take (nat n) dst')"
    using assms by (auto simp: outcome_simps)
  from r(1) show ?thesis
  proof (cases rule: read_returns)
    case (count m)
    then have "length (take (nat n) dst') \<le> unat sz" using int_of_le [of m] by (simp add: word_le_nat_alt min_def)
    then show ?thesis using count r(2) Op_read by auto
  qed (use r(2) Op_read in simp)
next
  case (Op_write path fh src sz offset)
  with assms show ?thesis by (auto simp: outcome_simps dest: write_returns)
next
  case (Op_close path fh)
  with assms show ?thesis by (auto simp: outcome_simps dest: flush_returns)
next
  case (Op_getattr path)
  with assms show ?thesis by (auto simp: dcfs_getattr_def outcome_simps Let_def split: if_split_asm option.split_asm)
next
  case (Op_readdir path)
  obtain d where "list_dir (InitReaddir (fs_root st)) [''.'', ''..''] = Ret ([''.'', ''..''] @ map d_filename (entries (fs_root st)), d)"
    by (rule list_dir_all)
  with Op_readdir assms show ?thesis by (auto simp: dcfs_readdir_def outcome_simps split: if_split_asm)
qed

theorem call_results_witness:
  "\<exists>st'. do_op sample_env sim_server sample_fs (Op_open ''/f'') = Ret (R_handle (- ENOENT) 0, st') \<and>
     result_ok (Op_open ''/f'') (R_handle (- ENOENT) 0)"
proof -
  have "List.find (\<lambda>e. strcmp_eq (tl ''/f'') (d_filename e)) (entries (fs_root sample_fs)) = None"
    by (simp add: sample_fs_def dcfs_init_def LoadRoot_def Let_def)
  then obtain st' where "find_entry sample_fs ''/f'' = Ret (None, st')"
    using find_entry_total [of "''/f''" sample_fs] by (metis list.distinct(1))
  then have "do_op sample_env sim_server sample_fs (Op_open ''/f'') = Ret (R_handle (- ENOENT) 0, st')" by (simp add: dcfs_open_def)
  then show ?thesis using call_results by blast
qed

end
