(* ===== verification/Net_Session.thy ===== *)
theory Net_Session
  imports Net_Fs Call_Ends
begin

text \<open>
  Sessions of the mounted program: every sequence of file system calls that the specification of
  sessions allows, from the mount on, over the networked record server.
\<close>

section \<open>New records over the network\<close>

text \<open>
  The names of the records a call composes are new to the servers, distinct, not those of a file, and
  those of data do not start with a zero byte.
\<close>

definition fresh_names :: "'n service \<Rightarrow> env \<Rightarrow> 'n server_net fs \<Rightarrow> fs_op \<Rightarrow> bool" where
  "fresh_names S E st c \<longleftrightarrow>
     (let recs = new_records E st c in
      distinct (map header_hash recs) \<and>
      (\<forall>p \<in> set recs. stored S (net_world (be_srv (fs_backend st))) (header_hash p) = None \<and>
         header_hash p \<notin> d_hashname ` set (entries (fs_root st)) \<and> (payload_in_transit p \<noteq> [] \<longrightarrow> hd (header_hash p) \<noteq> NUL)))"

lemma net_names_ok:
  assumes E: "env_ok E" and R: "net.represents E M N S bs E st s" and sp: "spec_op bs s c = Some (r, s')" and F: "fresh_names S E st c"
  shows "net.names_ok E S E st c"
proof -
  have w: "net_writes E (header_hash p) (ser_pdu (cdc E) p) \<and> (payload_in_transit p \<noteq> [] \<longrightarrow> net_reads E (header_hash p) (ser_pdu (cdc E) p))"
    if p: "p \<in> set (new_records E st c)" for p
  proof (cases c)
    case (Op_create path)
    then have "p = meta_pdu E (mid_tick (be_mid (fs_backend st)))" using p by (auto simp: new_records_def split: if_split_asm)
    then show ?thesis using meta_fits [OF E] by (auto simp: net_writes_def) (simp add: meta_pdu_def Let_def empty_pdu_def)
  next
    case (Op_close path fh)
    obtain i f where hf: "handle_file s fh = Some (i, f)" using sp Op_close by (auto split: option.split_asm)
    have "\<forall>p \<in> set (new_records E st (Op_close path fh)). \<exists>k t hs d. p = record_pdu E k t hs d \<and>
        (\<forall>h \<in> set hs. length h \<le> 32) \<and> length hs \<le> 2 \<and> d \<noteq> [] \<and> length d < 2 ^ 30"
      by (rule net.close_records [OF E R hf]) (use sp Op_close hf in \<open>auto simp: Let_def split: if_split_asm\<close>)
    then show ?thesis using p Op_close batch_record_net [OF E] by blast
  qed (use p in \<open>simp_all add: new_records_def\<close>)
  then show ?thesis using F by (auto simp: net.names_ok_def fresh_names_def net.writable_def net_lookup_def Let_def)
qed

text \<open>A mounted file system represents the session without files.\<close>

lemma mount_represents:
  assumes "main_mount E0 opts w = Ret (E, st)" and "keys_ok E (fs_backend st)" and "net_inv E M N S (be_srv (fs_backend st))"
    and "bs = unat (block_size_in_kb opts * 1024)" and "0 < bs" and "bs \<le> 16384"
  shows "net.represents E M N S bs E st empty_session"
proof -
  obtain s where "st = dcfs_init E opts s" using assms(1) by (auto simp: main_mount_def Let_def outcome_simps)
  then have "fs_ok st" "fs_kb st = block_size_in_kb opts" "fd_cnt st = 10" "entries (fs_root st) = []"
    using init_ok [of E opts s] by (simp_all add: dcfs_init_def Let_def LoadRoot_def Directory_def)
  then show ?thesis using assms(2-6) by (simp add: net.represents_def empty_session_def)
qed

section \<open>Properties\<close>

text \<open>
  C1. The whole file system as an abstract machine. From the mount on, take any sequence of \<open>create\<close>,
  \<open>open\<close>, \<open>read\<close>, \<open>write\<close>, \<open>flush\<close>, \<open>getattr\<close> and \<open>readdir\<close> calls, on any number of files and handles, for
  which the specification of sessions has results: if the names of the records composed on the way
  are new, every call over the network returns with the specified result, and the file system still
  represents the specified files. What is written is read back, by the same handle, by others, and
  after the file was closed, flushed to the servers and opened again.
\<close>

theorem net_session_refines:
  assumes "env_ok E" and "main_mount E0 opts w = Ret (E, st)" and "keys_ok E (fs_backend st)" and "net_inv E M N S (be_srv (fs_backend st))"
    and "bs = unat (block_size_in_kb opts * 1024)" and "0 < bs" and "bs \<le> 16384"
    and "spec_ops bs empty_session cs = Some (rs, s')" and "along (fresh_names S E) E (net_server E M N) st cs"
  shows "\<exists>st'. do_ops E (net_server E M N) st cs = Ret (rs, st') \<and> net.represents E M N S bs E st' s'"
  by (rule net.ops_refine [OF assms(1) net_names_ok [OF assms(1)] mount_represents [OF assms(2-7)] assms(8,9)])

section \<open>A concrete session\<close>

text \<open>Only \<open>create\<close> and \<open>flush\<close> compose records.\<close>

lemma along_quiet:
  assumes "\<forall>c \<in> set cs. \<forall>path fh. c \<noteq> Op_create path \<and> c \<noteq> Op_close path fh"
  shows "along (fresh_names S E) E srv st cs"
  using assms
proof (induction cs arbitrary: st)
  case (Cons c cs)
  then have "new_records E st c = []" by (cases c) (simp_all add: new_records_def)
  then show ?case using Cons by (simp add: fresh_names_def Let_def split: outcome.split prod.split)
qed simp

text \<open>The mounted sample after \<open>create\<close>, with the new capsule \<open>h\<close>, and after a \<open>write\<close>.\<close>

lemma sample_new_file:
  fixes srv h defines "srv \<equiv> net_server sample_env sample_req_codec sample_network" and "h \<equiv> header_hash (meta_pdu sample_env 2)"
  obtains st st1 ino where "main_mount (sample_env\<lparr>option_map := Map.empty\<rparr>) sample_opts sample_start = Ret (sample_env, st)"
    and "keys_ok sample_env (fs_backend st)" and "net_inv sample_env sample_req_codec sample_network sample_service (be_srv (fs_backend st))"
    and "fresh_names sample_service sample_env st (Op_create ''/f'')" and "dcfs_create sample_env srv st ''/f'' 0 = Ret (0, 11, st1)"
    and "net.rd.intact sample_env sample_req_codec sample_network sample_service sample_env (fs_backend st1) ino"
    and "BlockSize ino = 16384" and "i_size ino = 0" and "\<forall>i. \<not> is_dirty ino i"
    and "handle_inode sample_env srv st1 ''/f'' 11 = Ret (Some (h, Some ino), st1)"
    and "entries (fs_root st1) = [\<lparr>d_filename = ''f'', d_hashname = h\<rparr>]" and "mid_tick (be_mid (fs_backend st1)) = 4"
    and "\<forall>r. r \<noteq> h \<longrightarrow> stored sample_service (net_world (be_srv (fs_backend st1))) r = None" and "fd_table st1 ! 11 = h"
proof -
  obtain st where st: "main_mount (sample_env\<lparr>option_map := Map.empty\<rparr>) sample_opts sample_start = Ret (sample_env, st)"
    "fs_ok st" "keys_ok sample_env (fs_backend st)"
    "net_inv sample_env sample_req_codec sample_network sample_service (be_srv (fs_backend st))"
    "fd_cnt st = 10" "fs_kb st = 16" "entries (fs_root st) = []" "fd_table st = replicate 256 []"
    "\<And>r. stored sample_service (net_world (be_srv (fs_backend st))) r = None" "mid_tick (be_mid (fs_backend st)) = 2" by (rule sample_mounted) blast
  have pre: "''/f'' \<noteq> []" "NUL \<notin> set ''/f''" "tl ''/f'' \<notin> d_filename ` set (entries (fs_root st))" "unat (fd_cnt st) < 255" "fs_kb st * 1024 \<noteq> 0"
    using st(5-7) by simp_all
  obtain ino st1 where c0: "dcfs_create sample_env srv st ''/f'' 0 = Ret (0, fd_cnt st + 1, st1)"
    "net.new_file sample_env sample_req_codec sample_network sample_service sample_env st1 ''/f'' h (fd_cnt st + 1) ino"
    "entries (fs_root st1) = entries (fs_root st) @ [\<lparr>d_filename = tl ''/f'', d_hashname = h\<rparr>]" "inode_table st1 = (inode_table st)(h \<mapsto> ino)"
    "fs_kb st1 = fs_kb st" "mid_tick (be_mid (fs_backend st1)) = mid_tick (be_mid (fs_backend st)) + 2"
    "\<forall>r. r \<noteq> h \<longrightarrow> stored sample_service (net_world (be_srv (fs_backend st))) r = None \<longrightarrow>
      stored sample_service (net_world (be_srv (fs_backend st1))) r = None" "fd_table st1 = (fd_table st)[unat (fd_cnt st + 1) := h]"
    using net.create_new_file [OF sample_env_ok st(2-4) pre meta_writable [OF sample_env_ok st(9)], of 0]
    unfolding srv_def h_def st(10) by metis
  have c: "dcfs_create sample_env srv st ''/f'' 0 = Ret (0, 11, st1)"
    "net.new_file sample_env sample_req_codec sample_network sample_service sample_env st1 ''/f'' h 11 ino"
    "entries (fs_root st1) = [\<lparr>d_filename = ''f'', d_hashname = h\<rparr>]" "fs_kb st1 = 16" "mid_tick (be_mid (fs_backend st1)) = 4"
    "\<forall>r. r \<noteq> h \<longrightarrow> stored sample_service (net_world (be_srv (fs_backend st1))) r = None" "fd_table st1 ! 11 = h" "length (fd_table st1) = 256"
    using c0 st(5-10) by simp_all
  have n: "net.rd.intact sample_env sample_req_codec sample_network sample_service sample_env (fs_backend st1) ino"
    "BlockSize ino = 16384" "i_size ino = 0" "\<forall>i. \<not> is_dirty ino i"
    using c(2,4) by (simp_all add: net.new_file_def BlockSize_def)
  have o: "handle_inode sample_env srv st1 ''/f'' 11 = Ret (Some (h, Some ino), st1)"
    using c(7,8) c0(4) by (intro handle_open_file) simp_all
  have "fresh_names sample_service sample_env st (Op_create ''/f'')"
    using st(7,9) by (simp add: fresh_names_def new_records_def Let_def meta_pdu_def empty_pdu_def)
  then show thesis by (rule that [OF st(1,3,4) _ c(1) n o c(3,5,6,7)])
qed

lemma sample_first_write:
  fixes srv defines "srv \<equiv> net_server sample_env sample_req_codec sample_network"
  obtains st st1 st2 where "main_mount (sample_env\<lparr>option_map := Map.empty\<rparr>) sample_opts sample_start = Ret (sample_env, st)"
    and "keys_ok sample_env (fs_backend st)" and "net_inv sample_env sample_req_codec sample_network sample_service (be_srv (fs_backend st))"
    and "fresh_names sample_service sample_env st (Op_create ''/f'')" and "do_op sample_env srv st (Op_create ''/f'') = Ret (R_handle 0 11, st1)"
    and "do_op sample_env srv st1 (Op_write ''/f'' 11 ''hello'' 5 0) = Ret (R_data 5 [], st2)"
    and "fresh_names sample_service sample_env st2 (Op_close ''/f'' 11)"
proof -
  define h where "h = header_hash (meta_pdu sample_env 2)"
  obtain st st1 ino where s: "main_mount (sample_env\<lparr>option_map := Map.empty\<rparr>) sample_opts sample_start = Ret (sample_env, st)"
    "keys_ok sample_env (fs_backend st)" "net_inv sample_env sample_req_codec sample_network sample_service (be_srv (fs_backend st))"
    "fresh_names sample_service sample_env st (Op_create ''/f'')" "dcfs_create sample_env srv st ''/f'' 0 = Ret (0, 11, st1)"
    and n: "net.rd.intact sample_env sample_req_codec sample_network sample_service sample_env (fs_backend st1) ino"
    "BlockSize ino = 16384" "i_size ino = 0" "\<forall>i. \<not> is_dirty ino i"
    and o: "handle_inode sample_env srv st1 ''/f'' 11 = Ret (Some (h, Some ino), st1)"
    and c: "entries (fs_root st1) = [\<lparr>d_filename = ''f'', d_hashname = h\<rparr>]" "mid_tick (be_mid (fs_backend st1)) = 4"
    "\<forall>r. r \<noteq> h \<longrightarrow> stored sample_service (net_world (be_srv (fs_backend st1))) r = None" "fd_table st1 ! 11 = h"
    unfolding srv_def h_def by (rule sample_new_file)
  let ?f = "\<lparr>a_size = i_size ino, a_bytes = net.rd.file_byte sample_env sample_service sample_env (fs_backend st1) ino\<rparr>"
  have at: "0 = spec_at ?f 0" "buffer_fits 16384 (unat (0 :: u64)) (unat (5 :: u64)) ''hello''" "(0 :: u64) < 5"
    by (simp_all add: spec_at_def buffer_fits_def overrun_def)
  obtain ino' b' where w0: "dcfs_write sample_env srv st1 ''/f'' ''hello'' 5 0 11 =
      Ret (int (unat (5 :: u64)), st1\<lparr>fs_backend := b', inode_table := (inode_table st1)(h \<mapsto> ino')\<rparr>)"
    "net.rd.intact sample_env sample_req_codec sample_network sample_service sample_env b' ino'"
    "net.rd.same_backend sample_env sample_req_codec sample_network sample_service (fs_backend st1) b'"
    "meta ino' = meta (ino\<lparr>i_size := max (i_size ino) (0 + 5)\<rparr>)"
    "\<lparr>a_size = i_size ino', a_bytes = net.rd.file_byte sample_env sample_service sample_env b' ino'\<rparr> = spec_write 16384 ?f ''hello'' 5 0"
    "\<forall>i. is_dirty ino' i \<longleftrightarrow> is_dirty ino i \<or> unat (0 :: u64) div 16384 \<le> i \<and> i \<le> (unat (0 :: u64) + unat (5 :: u64)) div 16384"
    unfolding srv_def by (rule net.write_spec [OF sample_env_ok o [unfolded srv_def] n(1) refl n(2) at(1,3,2)])
  have w: "dcfs_write sample_env srv st1 ''/f'' ''hello'' 5 0 11 =
      Ret (5, st1\<lparr>fs_backend := b', inode_table := (inode_table st1)(h \<mapsto> ino')\<rparr>)"
    "net.rd.same_backend sample_env sample_req_codec sample_network sample_service (fs_backend st1) b'"
    "\<forall>i. is_dirty ino' i \<longleftrightarrow> i = 0"
    using w0 n(4) by simp_all
  have sb: "be_mid b' = be_mid (fs_backend st1)" "\<forall>r. r \<noteq> h \<longrightarrow> stored sample_service (net_world (be_srv b')) r = None"
    using w(2) c(3) unfolding net.rd.same_backend_def by (simp_all add: fun_eq_iff)
  define st2 where "st2 = st1\<lparr>fs_backend := b', inode_table := (inode_table st1)(h \<mapsto> ino')\<rparr>"
  have s2: "mid_tick (be_mid (fs_backend st2)) = 4" "fd_table st2 ! 11 = h" "entries (fs_root st2) = entries (fs_root st1)"
    "\<forall>r. r \<noteq> h \<longrightarrow> stored sample_service (net_world (be_srv (fs_backend st2))) r = None" "inode_table st2 h = Some ino'"
    using sb c(2,4) by (simp_all add: st2_def)
  have "dirty_blocks ino' = [0]" using dirty_prefix [of ino' 1] w(3) by simp
  then have len: "length (first_batch sample_env st2 h) = 3" using s2(5) by (simp add: first_batch_def Let_def)
  have "fresh_names sample_service sample_env st2 (Op_close ''/f'' 11)"
    using sample_first_batch_ok [of st2 h] sample_batch_not_meta [of _ st2 h] len s2 c(1)
    by (auto simp: fresh_names_def new_records_def Let_def h_def)
  then show thesis using that [OF s(1-4)] s(5) w(1) by (simp add: st2_def)
qed

theorem net_session_refines_witness:
  "\<exists>st st'. main_mount (sample_env\<lparr>option_map := Map.empty\<rparr>) sample_opts sample_start = Ret (sample_env, st) \<and>
     do_ops sample_env (net_server sample_env sample_req_codec sample_network) st
       [Op_create ''/f'', Op_write ''/f'' 11 ''hello'' 5 0, Op_close ''/f'' 11, Op_open ''/f'', Op_write ''/f'' 12 ''J'' 1 0,
        Op_read ''/f'' 12 ''.....'' 5 0, Op_getattr ''/f'', Op_readdir ''/''] =
     Ret ([R_handle 0 11, R_data 5 [], R_handle 0 0, R_handle 0 12, R_data 1 [], R_data 5 ''Jello'', R_attr 0 33060 16384,
       R_names 0 [''.'', ''..'', ''f'']], st')"
proof -
  let ?srv = "net_server sample_env sample_req_codec sample_network"
  let ?a = "[Op_create ''/f'', Op_write ''/f'' 11 ''hello'' 5 0, Op_close ''/f'' 11]"
    and ?b = "[Op_open ''/f'', Op_write ''/f'' 12 ''J'' 1 0, Op_read ''/f'' 12 ''.....'' 5 0, Op_getattr ''/f'', Op_readdir ''/'']"
  let ?rs = "[R_handle 0 11, R_data 5 [], R_handle 0 0, R_handle 0 12, R_data 1 [], R_data 5 ''Jello'', R_attr 0 33060 16384,
       R_names 0 [''.'', ''..'', ''f'']]"
  obtain st st1 st2 where s: "main_mount (sample_env\<lparr>option_map := Map.empty\<rparr>) sample_opts sample_start = Ret (sample_env, st)"
    "keys_ok sample_env (fs_backend st)" "net_inv sample_env sample_req_codec sample_network sample_service (be_srv (fs_backend st))"
    "fresh_names sample_service sample_env st (Op_create ''/f'')" "do_op sample_env ?srv st (Op_create ''/f'') = Ret (R_handle 0 11, st1)"
    "do_op sample_env ?srv st1 (Op_write ''/f'' 11 ''hello'' 5 0) = Ret (R_data 5 [], st2)"
    "fresh_names sample_service sample_env st2 (Op_close ''/f'' 11)" by (rule sample_first_write)
  have quiet: "along (fresh_names sample_service sample_env) sample_env ?srv st' ?b" for st' by (rule along_quiet) simp
  have "fresh_names sample_service sample_env st1 (Op_write ''/f'' 11 ''hello'' 5 0)" by (simp add: fresh_names_def new_records_def)
  then have al: "along (fresh_names sample_service sample_env) sample_env ?srv st (?a @ ?b)"
    using s(4-7) quiet by (simp del: do_op.simps add: append_Cons split: outcome.split prod.split)
  have "\<exists>s'. spec_ops 16384 empty_session (?a @ ?b) = Some (?rs, s')"
    by (simp add: empty_session_def path_ok_def file_at_def new_handle_def handle_file_def set_file_def new_sfile_def saved_sfile_def
        spec_read_def spec_write_def spec_at_def buffer_fits_def overrun_def Let_def upt_rec)
  then show ?thesis
    using net_session_refines [OF sample_env_ok s(1-3), of 16384 "?a @ ?b" ?rs] al s(1) by (auto simp: sample_opts_def)
qed

end
