(* ===== verification/Program.thy ===== *)
theory Program
  imports Net_Session
begin

text \<open>
  The whole program: \<open>main\<close> of \<open>src/src/fs/dcfs.cpp\<close> from its arguments over the requests of the
  kernel to the unmount. The FUSE library is a parameter.
\<close>

section \<open>Unmounting\<close>

text \<open>
  The classes whose objects are deleted at the end, with their base class and the destructor they
  declare. A destructor is virtual if it is declared so in the class or in a base class of it.
\<close>

datatype deleted_class = Class_DCServer | Class_DCServerNet | Class_DCFSMid | Class_DCFSMidSim

datatype destructor = No_destructor | Plain_destructor | Virtual_destructor

fun base_class :: "deleted_class \<Rightarrow> deleted_class option" where
  "base_class Class_DCServer = None"
| "base_class Class_DCServerNet = Some Class_DCServer"
| "base_class Class_DCFSMid = None"
| "base_class Class_DCFSMidSim = Some Class_DCFSMid"

fun declared_destructor :: "deleted_class \<Rightarrow> destructor" where
  "declared_destructor Class_DCServer = No_destructor"
| "declared_destructor Class_DCServerNet = Plain_destructor"
| "declared_destructor Class_DCFSMid = No_destructor"
| "declared_destructor Class_DCFSMidSim = No_destructor"

definition virtual_destructor :: "deleted_class \<Rightarrow> bool" where
  "virtual_destructor c \<longleftrightarrow> declared_destructor c = Virtual_destructor \<or>
     (case base_class c of None \<Rightarrow> False | Some b \<Rightarrow> declared_destructor b = Virtual_destructor)"

text \<open>\<open>delete\<close> of an object through a pointer to a base class is undefined unless the destructor is virtual.\<close>

definition delete_as :: "deleted_class \<Rightarrow> deleted_class \<Rightarrow> unit outcome" where
  "delete_as pointer object = validO (pointer = object \<or> virtual_destructor pointer)"

text \<open>The destructors of \<open>StorageBackend\<close> and \<open>DCFS\<close>; deleting the root directory has no other effect.\<close>

definition StorageBackend_delete :: "'s backend \<Rightarrow> unit outcome" where
  "StorageBackend_delete b =
     bindO (delete_as Class_DCServer Class_DCServerNet) (\<lambda>_. delete_as Class_DCFSMid Class_DCFSMidSim)"

definition dcfs_destroy :: "'s fs \<Rightarrow> unit outcome" where
  "dcfs_destroy st = StorageBackend_delete (fs_backend st)"

section \<open>The program\<close>

text \<open>
  What \<open>main\<close> uses of the FUSE library. \<open>fuse_requests\<close> is what \<open>fuse_main\<close> does with the arguments: \<open>None\<close>
  if it returns without mounting, as for \<open>--help\<close>, or the requests of the kernel until the unmount.
\<close>

record fuse_lib =
  fuse_opt_parse :: "string list \<Rightarrow> dcfs_options \<Rightarrow> (string \<times> option_field) list \<Rightarrow> (string list \<times> dcfs_options) option"
  fuse_opt_add_arg :: "string list \<Rightarrow> string \<Rightarrow> int \<times> string list"
  fuse_requests :: "string list \<Rightarrow> fs_op list option"
  fuse_status :: "string list \<Rightarrow> int"

text \<open>
  The exit status and the results of the requests. The parsed addresses go into the option map whether
  or not the file system is mounted.
\<close>

definition dcfs_main ::
    "env \<Rightarrow> req_codec \<Rightarrow> 'n network \<Rightarrow> fuse_lib \<Rightarrow> 'n \<Rightarrow> string list \<Rightarrow> (int \<times> op_result list) outcome" where
  "dcfs_main E M N L w argv =
     (case fuse_opt_parse L argv main_defaults option_spec of
        None \<Rightarrow> Ret (1, [])
      | Some (args, opts) \<Rightarrow>
          bindO (if show_help opts \<noteq> 0
                 then
                   let (rc, args1) = fuse_opt_add_arg L args ''--help'' in
                   bindO (assertO (rc = 0)) (\<lambda>_. vec_set args1 0 [])
                 else Ret args) (\<lambda>args.
          case fuse_requests L args of
            None \<Rightarrow> Ret (fuse_status L args, [])
          | Some cs \<Rightarrow>
              bindO (main_mount E opts w) (\<lambda>(E', st).
              bindO (do_ops E' (net_server E' M N) st cs) (\<lambda>(rs, st').
              bindO (dcfs_destroy st') (\<lambda>_. Ret (fuse_status L args, rs))))))"

section \<open>Runs\<close>

lemma destroy_undefined: "dcfs_destroy st = Fault Undefined_behaviour"
  by (simp add: dcfs_destroy_def StorageBackend_delete_def delete_as_def virtual_destructor_def)

text \<open>
  A run that mounts the file system and in which every request succeeds, with the results of the
  abstract machine, ends in undefined behaviour when the record server is deleted.
\<close>

lemma mounted_run:
  assumes "fuse_opt_parse L argv main_defaults option_spec = Some (args, opts)" and "show_help opts = 0" and "fuse_requests L args = Some cs"
    and "main_mount E0 opts w = Ret (E, st)" and "env_ok E" and "keys_ok E (fs_backend st)" and "net_inv E M N S (be_srv (fs_backend st))"
    and "bs = unat (block_size_in_kb opts * 1024)" and "0 < bs" and "bs \<le> 16384"
    and "spec_ops bs empty_session cs = Some (rs, s')" and "along (fresh_names S E) E (net_server E M N) st cs"
  shows "(\<exists>st'. do_ops E (net_server E M N) st cs = Ret (rs, st')) \<and> dcfs_main E0 M N L w argv = Fault Undefined_behaviour"
proof -
  have "\<exists>st'. do_ops E (net_server E M N) st cs = Ret (rs, st') \<and> net.represents E M N S bs E st' s'"
    by (rule net.ops_refine [OF assms(5) net_names_ok [OF assms(5)] mount_represents [OF assms(4,6-10)] assms(11,12)])
  then obtain st' where "do_ops E (net_server E M N) st cs = Ret (rs, st')" by blast
  then show ?thesis using assms(1-4) by (simp add: dcfs_main_def destroy_undefined)
qed

end
