(* ===== verification/Spec2Isabelle.thy ===== *)
theory Spec2Isabelle
  imports Encode Logging Crypto_Test Requests Secrecy Races Listen_Server Second_Write Program
begin

text \<open>
  \<^bold>\<open>A verification development of the DataCapsule file system client.\<close>

  The program is a FUSE file system whose files live in DataCapsules: append-only stores of records
  that are named by their hashes and kept by remote servers. A call of the kernel enters in
  \<open>src/src/fs/dcfs.cpp\<close>, which finds the file in the root directory (\<open>dir.cpp\<close>) and its inode in a
  table (\<open>inode.cpp\<close>). Reads and writes go to the inode's cache of blocks, which is filled from and
  flushed to the storage backend (\<open>backend.cpp\<close>). The backend reads records directly from a record
  server, and asks the middleware (\<open>backend_sim.cpp\<close>), with a signed request, to compose and write
  the records of a flush: data blocks, a block map, an inode record. The record server is
  \<open>DCServerNet\<close> (\<open>backend_real.cpp\<close>), which sends and receives messages with \<open>DCClient\<close> and
  \<open>ClientComm\<close> (\<open>src/src/dc-client\<close>), or \<open>DCServerSim\<close>, which keeps records in local files.

  \<^bold>\<open>Theories.\<close>
  \<^item> \<open>Dcfs_Prelude\<close>: the result type \<open>outcome\<close> (a value, or the way the program stops: a failed
    assertion, an uncaught exception, undefined behaviour, exit, a wait that never ends), C strings,
    buffers and vectors with their bounds, 64 bit words as bytes, and the simplification rules shared
    by all components.
  \<^item> \<open>Encode\<close>, \<open>Options\<close>, \<open>Crypto\<close>, \<open>Logging\<close>: \<open>src/src/util\<close>. OpenSSL is the parameter \<open>openssl\<close>.
    \<open>Crypto_Test\<close>: the repository's test of the cryptographic helpers, \<open>src/test/cryptotest.cpp\<close>.
  \<^item> \<open>Capsule\<close>: the messages of \<open>capsule.proto\<close> and the environment \<open>env\<close>; the classes that \<open>protoc\<close>
    generates are the parameter \<open>codec\<close>, and \<open>zmq_connects\<close> says which addresses ZeroMQ accepts.
  \<^item> \<open>Dcserver\<close>: the class \<open>DCServer\<close> as a record of its two operations, its contract as the locale
    \<open>record_store\<close>, and \<open>DCServerSim\<close>, which interprets it. The failures of the operating system are
    part of its state: exceptions of the directory functions, files that cannot be opened, transfers
    that stop and are noticed at once or only when the stream is destroyed.
  \<^item> \<open>Midware\<close>: \<open>DCFSMidSim\<close>, every member function; its loops as recursive functions over the
    descriptors. What a batch writes is proved inside \<open>record_store\<close>, for every server. \<open>Requests\<close>:
    sequences of requests to it, from any number of clients.
  \<^item> \<open>Storage\<close>: \<open>StorageBackend\<close>.
  \<^item> \<open>Dir\<close>: \<open>Directory\<close> and the search loop of the file system calls.
  \<^item> \<open>Record_Cache\<close>: \<open>Inode\<close> and \<open>RecordCache\<close>; \<open>Cache_View\<close>: the file as a sequence of bytes seen
    through cache, block map and records, by the locale \<open>payload_reader\<close>, which every \<open>record_store\<close>
    provides; \<open>Flush\<close>: flushing a file and opening it again.
  \<^item> \<open>Inode_Table\<close>, \<open>Dcfs\<close>: the table of inodes and the file system calls; sequences of calls are the
    relation \<open>fs_step\<close>.
  \<^item> \<open>File_Store\<close>: an abstract store of files, each a size and a byte at every position, and the proof
    that \<open>create\<close> and every sequence of \<open>read\<close> and \<open>write\<close> calls refine it, for every \<open>record_store\<close>.
    \<open>Saved_File\<close>: what stays of a file on the servers when it is closed. \<open>Session\<close>: a specification of
    whole sessions, from \<open>create\<close> over the last \<open>flush\<close> of a file to its next \<open>open\<close>, as a machine with
    files and handles and without servers, caches, records and keys; every call simulates a step of
    it. \<open>do_op\<close> is the table \<open>dcfs_oper\<close>.
  \<^item> \<open>Call_Ends\<close>: which results calls can have, over every server.
  \<^item> \<open>Secrecy\<close>: what a flush hands to a server, by a log around any server. \<open>Races\<close>: \<open>dcfs_create\<close> cut into
    the operations it calls, and interleavings of several calls.
  \<^item> \<open>Dc_Client\<close>: \<open>ClientComm\<close>, \<open>DCClient\<close> and \<open>DCServerNet\<close>. A blocking call is cut at its wait on the
    condition variable of its entry; handlers wake it by \<open>notify_all\<close>. The network is the parameter
    \<open>network\<close>. \<open>Net_Server\<close>: what the client relies on of the servers,
    \<open>service_ok\<close>, and the interpretation of \<open>record_store\<close> by \<open>DCServerNet\<close>; \<open>Net_Backend\<close>: the storage
    backend over it; \<open>Client_Threads\<close>: the interleavings of the calling and the listening thread as the
    relation \<open>step\<close>, with going to sleep, wake-ups and spurious wake-ups; \<open>Listen_Server\<close>: the loop of the listening thread, its sockets and the destructor that
    joins it, and the proof that they refine \<open>step\<close>. \<open>Net_Fs\<close>: the file system mounted on \<open>DCServerNet\<close>, as the program builds it;
    \<open>Net_Session\<close>: its sessions; \<open>Second_Write\<close>: the second flush of a file; \<open>Program\<close>: \<open>main\<close>, from the
    arguments to the unmount, with the FUSE library as the parameter \<open>fuse_lib\<close>.

  What the middleware, a flush and the life of a file do is proved once, inside \<open>record_store\<close>, and
  holds for \<open>DCServerSim\<close> and \<open>DCServerNet\<close> by their interpretations.

  \<^bold>\<open>What is shown.\<close> Round trips through every layer: hex strings, signatures, server addresses,
  records on both servers, blocks through the backend over both servers, bytes through the cache,
  and a file from creation over flush to reading it back, on the file system as \<open>main\<close> mounts it.
  Refinement: sessions of all calls behave as an abstract machine of files and handles, and calls on
  open files as an abstract store, as long as the names of new records are new (which the hash
  function promises in practice). The results each call can have. Invariants: of the cache under every
  operation whatever the server answers, and of the mounted file system under every sequence of
  calls. What each operation changes and leaves alone, on its error paths too: when each outcome of the
  simulated server occurs, and that the index changes only after every record of a batch was accepted.
  Security: the accepted requests
  on a capsule form one chain of versions, and what a flush writes is encrypted or public, whatever the
  server does. For the network
  client: calls return only what was delivered, no wake-up of an answered call is lost, and the listening loop serves every message and can be joined. Where the code does not do what it means to, the theorem states
  what it does: a size in whole blocks of 16 KiB, one byte too many in copies that cross a block
  boundary, a later flush that appends blocks, forgets the old size and loses the key, a flush that drops its
  error, waits that never end, an acknowledgement that races with the return of its call, an unmount
  that is undefined, and concurrent calls that create one name twice or miss a file.

  \<^bold>\<open>What is assumed of other code.\<close> \<open>env_ok\<close>: OpenSSL and the generated message classes behave as documented
  (AES in CBC mode decrypts what it encrypted, for inputs whose length fits an \<open>int\<close>; messages parse
  back). \<open>service_ok\<close>: ZeroMQ accepts the addresses of the servers, which store every well-formed record and acknowledge
  and return it. The notes in \<open>src/test/README.md\<close> have the servers verify a signature; the client stores
  the text \<open>0\<close> in its place, so the theorems over the network are about servers that do not.

  \<^bold>\<open>Bounds.\<close> Sizes and offsets are 64 bit words. The theorems on a first flush bound a file by the 512
  blocks that one block map covers and a block by 2^29 bytes, so that records stay below the 2 GiB
  that the message encoding allows. Recursion is over lists or decreasing lengths; no fuel is used.
  A loop that waits is not recursive: it either finds its condition true after the messages that
  arrive, or is the outcome \<open>Blocked_forever\<close>.

  \<^bold>\<open>Not modelled.\<close> The log calls inside the other components (\<open>Logging\<close> has the logger; the program
  never reads its log); the benchmark driver \<open>src/test/base.cpp\<close>, whose system calls are sessions; the
  destructors that only release memory, and \<open>alloc_buf_desc\<close> and \<open>dealloc_buf_desc\<close>, which appear as the
  sizes of buffers; that of \<open>DCServerNet\<close> is modelled, though no defined run reaches it. The
  specification of sessions says nothing of a second flush (\<open>Second_Write\<close> does) and of files closed
  before anything was written. Failing allocations. Concurrent calls of the file system other than
  \<open>dcfs_create\<close>, whose races already break the invariant of the file system; the last three operations
  of \<open>dcfs_create\<close> are one step, which leaves interleavings out but adds none. Calls of several threads
  on one \<open>DCServerNet\<close>. Listening sockets that cannot be bound. The data races of the
  client's tables, which are used by two threads without a lock. \<open>send_dc_proxy\<close> and
  \<open>generate_evp_pkey_dsa\<close> have no caller.
\<close>

end
